(* ===== verification/Rust_Prelude.thy ===== *)
theory Rust_Prelude
  imports Main "HOL-Library.Sublist" "HOL-Library.Code_Target_Nat"
begin

text \<open>
  The part of the Rust language and standard library that the modelled crates rely on, with the
  generic lemmas the components share.

  A Rust \<open>char\<close> is a Unicode scalar value, here its code point as a \<open>nat\<close>; a \<open>String\<close>, a
  \<open>&str\<close> and a \<open>PathBuf\<close> built from a string are lists of code points (\<open>ustring\<close>). Functions that
  count bytes (\<open>str::len\<close>) count the bytes of the UTF-8 encoding (\<open>byte_len\<close>). A
  \<open>Result\<close> is a sum whose left side is the error; a panic is the value \<open>None\<close> of an option.
\<close>

named_theorems trim_simps \<open>how trimming and splitting act on strings of a known shape\<close>
named_theorems lit_defs \<open>string literals of the program, for evaluation\<close>

section \<open>Results and options\<close>

type_synonym ('a, 'e) result = "'e + 'a"

abbreviation Ok :: "'a \<Rightarrow> ('a, 'e) result" where
  "Ok \<equiv> Inr"

abbreviation Err :: "'e \<Rightarrow> ('a, 'e) result" where
  "Err \<equiv> Inl"

definition is_ok :: "('a, 'e) result \<Rightarrow> bool" where
  "is_ok r = (case r of Err e \<Rightarrow> False | Ok a \<Rightarrow> True)"

definition result_ok :: "('a, 'e) result \<Rightarrow> 'a option" where
  "result_ok r = (case r of Err e \<Rightarrow> None | Ok a \<Rightarrow> Some a)"

definition map_err :: "('e \<Rightarrow> 'f) \<Rightarrow> ('a, 'e) result \<Rightarrow> ('a, 'f) result" where
  "map_err f r = (case r of Err e \<Rightarrow> Err (f e) | Ok a \<Rightarrow> Ok a)"

definition result_bind :: "('a, 'e) result \<Rightarrow> ('a \<Rightarrow> ('b, 'e) result) \<Rightarrow> ('b, 'e) result" where
  "result_bind r f = (case r of Err e \<Rightarrow> Err e | Ok a \<Rightarrow> f a)"

definition is_some_and :: "'a option \<Rightarrow> ('a \<Rightarrow> bool) \<Rightarrow> bool" where
  "is_some_and x P = (case x of None \<Rightarrow> False | Some a \<Rightarrow> P a)"

lemma is_ok_simps [simp]: "is_ok (Ok a)" "\<not> is_ok (Err e)"
  by (simp_all add: is_ok_def)

lemma result_ok_simps [simp]: "result_ok (Ok a) = Some a" "result_ok (Err e) = None"
  by (simp_all add: result_ok_def)

lemma map_err_simps [simp]: "map_err f (Ok a) = Ok a" "map_err f (Err e) = Err (f e)"
  by (simp_all add: map_err_def)

lemma result_bind_simps [simp]: "result_bind (Ok a) f = f a" "result_bind (Err e) f = Err e"
  by (simp_all add: result_bind_def)

lemma is_some_and_simps [simp]: "is_some_and (Some a) P = P a" "\<not> is_some_and None P"
  by (simp_all add: is_some_and_def)

text \<open>Collecting an iterator of results stops at the first error.\<close>

fun try_map :: "('a \<Rightarrow> ('b, 'e) result) \<Rightarrow> 'a list \<Rightarrow> ('b list, 'e) result" where
  "try_map f [] = Ok []"
| "try_map f (x # xs) = result_bind (f x) (\<lambda>y. result_bind (try_map f xs) (\<lambda>ys. Ok (y # ys)))"

lemma result_bind_Ok: "result_bind r f = Ok b \<longleftrightarrow> (\<exists>a. r = Ok a \<and> f a = Ok b)"
  by (cases r) auto

lemma try_map_eq_Ok: "try_map f xs = Ok ys \<longleftrightarrow> list_all2 (\<lambda>x y. f x = Ok y) xs ys"
  by (induction xs arbitrary: ys) (auto simp: result_bind_Ok list_all2_Cons1)

lemma try_map_set: "try_map f xs = Ok ys \<Longrightarrow> y \<in> set ys \<Longrightarrow> \<exists>x \<in> set xs. f x = Ok y"
  by (induction xs arbitrary: ys) (auto simp: result_bind_Ok)

section \<open>Vectors\<close>

definition last_opt :: "'a list \<Rightarrow> 'a option" where
  "last_opt xs = (if xs = [] then None else Some (last xs))"

definition first_opt :: "'a list \<Rightarrow> 'a option" where
  "first_opt xs = (case xs of [] \<Rightarrow> None | x # _ \<Rightarrow> Some x)"

definition get_opt :: "'a list \<Rightarrow> nat \<Rightarrow> 'a option" where
  "get_opt xs i = (if i < length xs then Some (xs ! i) else None)"

definition modify_last :: "('a \<Rightarrow> 'a) \<Rightarrow> 'a list \<Rightarrow> 'a list" where
  "modify_last f xs = (if xs = [] then [] else butlast xs @ [f (last xs)])"

lemma last_opt_simps [simp]:
  "last_opt [] = None" "last_opt (xs @ [x]) = Some x" "last_opt [x] = Some x"
  by (simp_all add: last_opt_def)

lemma first_opt_simps [simp]: "first_opt [] = None" "first_opt (x # xs) = Some x"
  by (simp_all add: first_opt_def)

lemma modify_last_simps [simp]:
  "modify_last f [] = []" "modify_last f (xs @ [x]) = xs @ [f x]" "modify_last f [x] = [f x]"
  by (simp_all add: modify_last_def)

lemma last_opt_eq_Some: "last_opt xs = Some x \<longleftrightarrow> (\<exists>ys. xs = ys @ [x])"
  by (metis last_opt_def last_snoc option.discI option.inject snoc_eq_iff_butlast)

lemma last_opt_eq_None [simp]: "last_opt xs = None \<longleftrightarrow> xs = []"
  by (simp add: last_opt_def)

lemma first_opt_eq_Some: "first_opt xs = Some x \<longleftrightarrow> (\<exists>ys. xs = x # ys)"
  by (cases xs) auto

lemma get_opt_eq_Some: "get_opt xs i = Some x \<longleftrightarrow> i < length xs \<and> xs ! i = x"
  by (auto simp: get_opt_def)

lemma find_upt_Some:
  "List.find P [a..<b] = Some i \<longleftrightarrow> a \<le> i \<and> i < b \<and> P i \<and> (\<forall>j. a \<le> j \<and> j < i \<longrightarrow> \<not> P j)"
proof -
  have "List.find P [a..<b] = Some i \<longleftrightarrow>
      (\<exists>k < length [a..<b]. P ([a..<b] ! k) \<and> i = [a..<b] ! k \<and> (\<forall>j<k. \<not> P ([a..<b] ! j)))"
    by (auto simp: find_Some_iff)
  also have "\<dots> \<longleftrightarrow> (\<exists>k < b - a. P (a + k) \<and> i = a + k \<and> (\<forall>j<k. \<not> P (a + j)))"
    by auto
  also have "\<dots> \<longleftrightarrow> a \<le> i \<and> i < b \<and> P i \<and> (\<forall>j. a \<le> j \<and> j < i \<longrightarrow> \<not> P j)"
    by (auto simp: le_iff_add)
  finally show ?thesis .
qed

lemma find_upt_None: "List.find P [a..<b] = None \<longleftrightarrow> (\<forall>i. a \<le> i \<and> i < b \<longrightarrow> \<not> P i)"
  by (auto simp: find_None_iff)

text \<open>Iterators: \<open>find_map\<close>, and \<open>max_by_key\<close>, which returns the last of the maximal elements.\<close>

fun find_map :: "('a \<Rightarrow> 'b option) \<Rightarrow> 'a list \<Rightarrow> 'b option" where
  "find_map f [] = None"
| "find_map f (x # xs) = (case f x of None \<Rightarrow> find_map f xs | Some y \<Rightarrow> Some y)"

definition max_by_key :: "('a \<Rightarrow> 'k::linorder) \<Rightarrow> 'a list \<Rightarrow> 'a option" where
  "max_by_key key xs =
     (case xs of [] \<Rightarrow> None | x # rest \<Rightarrow> Some (foldl (\<lambda>best y. if key best \<le> key y then y else best) x rest))"

lemma map_filter_in: "y \<in> set (List.map_filter f xs) \<longleftrightarrow> (\<exists>x \<in> set xs. f x = Some y)"
  by (force simp: List.map_filter_def)

lemma find_map_None: "find_map f xs = None \<longleftrightarrow> (\<forall>x \<in> set xs. f x = None)"
  by (induction xs) (auto split: option.splits)

lemma find_map_Some_in: "find_map f xs = Some y \<Longrightarrow> \<exists>x \<in> set xs. f x = Some y"
  by (induction xs) (auto split: option.splits)

lemma find_map_append: "find_map f (xs @ ys) = (case find_map f xs of None \<Rightarrow> find_map f ys | Some y \<Rightarrow> Some y)"
  by (induction xs) (auto split: option.splits)

lemma max_by_key_fold:
  fixes key :: "'a \<Rightarrow> 'k::linorder"
  shows "foldl (\<lambda>best y. if key best \<le> key y then y else best) x rest \<in> insert x (set rest) \<and>
   (\<forall>y \<in> insert x (set rest). key y \<le> key (foldl (\<lambda>best y. if key best \<le> key y then y else best) x rest))"
proof (induction rest arbitrary: x)
  case (Cons a rest)
  define m where "m = (if key x \<le> key a then a else x)"
  have "key x \<le> key m" "key a \<le> key m" "m \<in> {x, a}" by (auto simp: m_def)
  then show ?case using Cons [of m] by (auto simp flip: m_def intro: order_trans)
qed simp

lemma max_by_key_Some: "max_by_key key xs = Some x \<Longrightarrow> x \<in> set xs \<and> (\<forall>y \<in> set xs. key y \<le> key x)"
  using max_by_key_fold [of key "hd xs" "tl xs"] by (cases xs) (auto simp: max_by_key_def)

lemma max_by_key_None [simp]: "max_by_key key xs = None \<longleftrightarrow> xs = []"
  by (cases xs) (auto simp: max_by_key_def)

section \<open>Characters and strings\<close>

type_synonym uchar = nat
type_synonym ustring = "uchar list"

definition str :: "string \<Rightarrow> ustring" where
  "str s = map of_char s"

declare str_def [lit_defs]

lemma str_append: "str (s @ t) = str s @ str t"
  by (simp add: str_def)

abbreviation LF :: uchar where "LF \<equiv> 10"
abbreviation CR :: uchar where "CR \<equiv> 13"

text \<open>\<open>char::is_whitespace\<close>: the Unicode property White_Space.\<close>

definition is_whitespace :: "uchar \<Rightarrow> bool" where
  "is_whitespace c \<longleftrightarrow>
     (9 \<le> c \<and> c \<le> 13) \<or> c = 32 \<or> c = 0x85 \<or> c = 0xA0 \<or> c = 0x1680 \<or>
     (0x2000 \<le> c \<and> c \<le> 0x200A) \<or> c = 0x2028 \<or> c = 0x2029 \<or> c = 0x202F \<or> c = 0x205F \<or> c = 0x3000"

definition is_ascii_digit :: "uchar \<Rightarrow> bool" where
  "is_ascii_digit c \<longleftrightarrow> 48 \<le> c \<and> c \<le> 57"

definition is_ascii_alphanumeric :: "uchar \<Rightarrow> bool" where
  "is_ascii_alphanumeric c \<longleftrightarrow>
     is_ascii_digit c \<or> (65 \<le> c \<and> c \<le> 90) \<or> (97 \<le> c \<and> c \<le> 122)"

definition ascii_lower :: "uchar \<Rightarrow> uchar" where
  "ascii_lower c = (if 65 \<le> c \<and> c \<le> 90 then c + 32 else c)"

definition to_ascii_lowercase :: "ustring \<Rightarrow> ustring" where
  "to_ascii_lowercase s = map ascii_lower s"

definition eq_ignore_ascii_case :: "ustring \<Rightarrow> ustring \<Rightarrow> bool" where
  "eq_ignore_ascii_case s t \<longleftrightarrow> to_ascii_lowercase s = to_ascii_lowercase t"

subsection \<open>Trimming\<close>

definition trim_start_matches :: "(uchar \<Rightarrow> bool) \<Rightarrow> ustring \<Rightarrow> ustring" where
  "trim_start_matches P s = dropWhile P s"

definition trim_end_matches :: "(uchar \<Rightarrow> bool) \<Rightarrow> ustring \<Rightarrow> ustring" where
  "trim_end_matches P s = rev (dropWhile P (rev s))"

definition trim_start :: "ustring \<Rightarrow> ustring" where
  "trim_start s = trim_start_matches is_whitespace s"

definition trim_end :: "ustring \<Rightarrow> ustring" where
  "trim_end s = trim_end_matches is_whitespace s"

definition trim :: "ustring \<Rightarrow> ustring" where
  "trim s = trim_end (trim_start s)"

lemma trim_end_matches_snoc [trim_simps]:
  "trim_end_matches P (s @ [c]) = (if P c then trim_end_matches P s else s @ [c])"
  by (simp add: trim_end_matches_def)

lemma trim_end_matches_Nil [simp]: "trim_end_matches P [] = []"
  by (simp add: trim_end_matches_def)

lemma trim_end_Nil [simp]: "trim_end [] = []"
  by (simp add: trim_end_def)

lemma trim_Nil [simp]: "trim [] = []"
  by (simp add: trim_def trim_start_def trim_start_matches_def)

lemma trim_end_matches_split: "\<exists>t. s = trim_end_matches P s @ t \<and> (\<forall>c \<in> set t. P c)"
proof -
  have "rev s = takeWhile P (rev s) @ dropWhile P (rev s)" by simp
  then have "s = trim_end_matches P s @ rev (takeWhile P (rev s))"
    by (metis rev_append rev_rev_ident trim_end_matches_def)
  moreover have "\<forall>c \<in> set (rev (takeWhile P (rev s))). P c"
    by (auto dest: set_takeWhileD)
  ultimately show ?thesis by blast
qed

lemma trim_end_matches_last: "trim_end_matches P s \<noteq> [] \<Longrightarrow> \<not> P (last (trim_end_matches P s))"
  by (simp add: trim_end_matches_def last_rev hd_dropWhile)

lemma trim_end_matches_id: "s = [] \<or> \<not> P (last s) \<Longrightarrow> trim_end_matches P s = s"
  by (cases s rule: rev_cases) (simp_all add: trim_end_matches_snoc)

lemma trim_end_matches_idem [simp]:
  "trim_end_matches P (trim_end_matches P s) = trim_end_matches P s"
  by (metis trim_end_matches_id trim_end_matches_last)

lemma trim_end_matches_append:
  "trim_end_matches P (s @ t) =
     (if trim_end_matches P t = [] then trim_end_matches P s else s @ trim_end_matches P t)"
  by (induction t rule: rev_induct) (auto simp: trim_end_matches_snoc simp flip: append_assoc)

lemma trim_end_matches_eq_Nil: "trim_end_matches P s = [] \<longleftrightarrow> (\<forall>c \<in> set s. P c)"
  by (simp add: trim_end_matches_def)

lemma set_trim_end_matches: "set (trim_end_matches P s) \<subseteq> set s"
  by (metis Un_upper1 set_append trim_end_matches_split)

lemma trim_end_id [trim_simps]: "s = [] \<or> \<not> is_whitespace (last s) \<Longrightarrow> trim_end s = s"
  by (simp add: trim_end_def trim_end_matches_id)

lemma trim_end_idem [simp]: "trim_end (trim_end s) = trim_end s"
  by (simp add: trim_end_def)

lemma trim_end_last: "trim_end s \<noteq> [] \<Longrightarrow> \<not> is_whitespace (last (trim_end s))"
  by (simp add: trim_end_def trim_end_matches_last)

lemma set_trim_end: "set (trim_end s) \<subseteq> set s"
  by (simp add: trim_end_def set_trim_end_matches)

lemma trim_end_append:
  "trim_end (s @ t) = (if trim_end t = [] then trim_end s else s @ trim_end t)"
  by (simp add: trim_end_def trim_end_matches_append)

lemma trim_end_Cons [trim_simps]:
  "\<not> is_whitespace c \<Longrightarrow> trim_end (c # s) = c # trim_end s"
  using trim_end_append [of "[c]" s] by (auto simp: trim_end_id)

lemma trim_start_Cons [trim_simps]:
  "trim_start (c # s) = (if is_whitespace c then trim_start s else c # s)"
  by (simp add: trim_start_def trim_start_matches_def)

lemma trim_start_Nil [simp]: "trim_start [] = []"
  by (simp add: trim_start_def trim_start_matches_def)

lemma trim_Cons [trim_simps]: "\<not> is_whitespace c \<Longrightarrow> trim (c # s) = c # trim_end s"
  by (simp add: trim_def trim_simps)

lemma set_trim_start: "set (trim_start s) \<subseteq> set s"
  by (auto simp: trim_start_def trim_start_matches_def dest: set_dropWhileD)

lemma set_trim: "set (trim s) \<subseteq> set s"
  unfolding trim_def using set_trim_end set_trim_start by blast

lemma trim_last: "trim s \<noteq> [] \<Longrightarrow> \<not> is_whitespace (last (trim s))"
  by (simp add: trim_def trim_end_last)

lemma trim_end_trim_start: "trim_end (trim_start s) = trim_start (trim_end s)"
proof (induction s)
  case (Cons c s)
  show ?case
  proof (cases "is_whitespace c")
    case True
    have "trim_end (c # s) = (if trim_end s = [] then [] else c # trim_end s)"
      using trim_end_append [of "[c]" s] True by (auto simp: trim_end_def trim_end_matches_def)
    then show ?thesis using Cons True by (auto simp: trim_simps)
  next
    case False
    then show ?thesis by (simp add: trim_simps)
  qed
qed simp

lemma trim_alt: "trim s = trim_start (trim_end s)"
  by (simp add: trim_def trim_end_trim_start)

lemma trim_end_trim [simp]: "trim_end (trim s) = trim s"
  by (simp add: trim_def)

lemma trim_trim_end [simp]: "trim (trim_end s) = trim s"
  by (simp add: trim_alt)

lemma trim_id [trim_simps]:
  "s = [] \<or> (\<not> is_whitespace (hd s) \<and> \<not> is_whitespace (last s)) \<Longrightarrow> trim s = s"
  by (cases s) (auto simp: trim_def trim_simps)

lemma trim_start_idem [simp]: "trim_start (trim_start s) = trim_start s"
  by (induction s) (simp_all add: trim_simps)

lemma trim_idem [simp]: "trim (trim s) = trim s"
  by (simp add: trim_alt)
    (metis trim_end_trim_start trim_end_idem trim_start_idem)

subsection \<open>Prefixes, suffixes, splitting and joining\<close>

definition strip_prefix :: "ustring \<Rightarrow> ustring \<Rightarrow> ustring option" where
  "strip_prefix p s = (if prefix p s then Some (drop (length p) s) else None)"

definition strip_suffix :: "ustring \<Rightarrow> ustring \<Rightarrow> ustring option" where
  "strip_suffix p s = (if suffix p s then Some (take (length s - length p) s) else None)"

lemma strip_prefix_append [simp]: "strip_prefix p (p @ s) = Some s"
  by (simp add: strip_prefix_def)

lemma strip_prefix_Some: "strip_prefix p s = Some t \<longleftrightarrow> s = p @ t"
  by (auto simp: strip_prefix_def prefix_def)

lemma strip_suffix_Some: "strip_suffix p s = Some t \<longleftrightarrow> s = t @ p"
  by (auto simp: strip_suffix_def suffix_def)

text \<open>\<open>str::split(c)\<close> and \<open>slice::join\<close>.\<close>

fun split_char :: "uchar \<Rightarrow> ustring \<Rightarrow> ustring list" where
  "split_char c [] = [[]]"
| "split_char c (x # xs) =
     (if x = c then [] # split_char c xs
      else (case split_char c xs of [] \<Rightarrow> [[x]] | w # ws \<Rightarrow> (x # w) # ws))"

fun split_pred :: "(uchar \<Rightarrow> bool) \<Rightarrow> ustring \<Rightarrow> ustring list" where
  "split_pred P [] = [[]]"
| "split_pred P (x # xs) =
     (if P x then [] # split_pred P xs
      else (case split_pred P xs of [] \<Rightarrow> [[x]] | w # ws \<Rightarrow> (x # w) # ws))"

fun join :: "ustring \<Rightarrow> ustring list \<Rightarrow> ustring" where
  "join sep [] = []"
| "join sep [x] = x"
| "join sep (x # y # xs) = x @ sep @ join sep (y # xs)"

lemma split_char_neq_Nil [simp]: "split_char c s \<noteq> []"
  by (cases s) (auto split: list.splits)

lemma split_char_notin: "w \<in> set (split_char c s) \<Longrightarrow> c \<notin> set w"
proof (induction s arbitrary: w)
  case (Cons x xs)
  then show ?case by (cases "split_char c xs") (auto split: if_splits)
qed simp

lemma split_char_free: "c \<notin> set s \<Longrightarrow> split_char c s = [s]"
  by (induction s) auto

lemma split_char_append: "c \<notin> set s \<Longrightarrow> split_char c (s @ c # t) = s # split_char c t"
  by (induction s) auto

lemma join_Cons: "xs \<noteq> [] \<Longrightarrow> join sep (x # xs) = x @ sep @ join sep xs"
  by (cases xs) auto

lemma join_split_char: "join [c] (split_char c s) = s"
proof (induction s)
  case (Cons x xs)
  then show ?case by (cases "split_char c xs") (auto simp: join_Cons, cases "tl (split_char c xs)", auto)
qed simp

lemma split_char_join:
  "ws \<noteq> [] \<Longrightarrow> (\<forall>w \<in> set ws. c \<notin> set w) \<Longrightarrow> split_char c (join [c] ws) = ws"
  by (induction "[c]" ws rule: join.induct) (auto simp: split_char_free split_char_append)

lemma join_snoc: "xs \<noteq> [] \<Longrightarrow> join sep (xs @ [x]) = join sep xs @ sep @ x"
  by (induction sep xs rule: join.induct) auto

text \<open>
  \<open>str::lines\<close> splits after every line feed; a line ended by one loses it and a carriage return
  before it, a last line without one is kept as it is, and an empty one is dropped.
\<close>

definition strip_cr :: "ustring \<Rightarrow> ustring" where
  "strip_cr l = (case strip_suffix [CR] l of None \<Rightarrow> l | Some l' \<Rightarrow> l')"

definition lines :: "ustring \<Rightarrow> ustring list" where
  "lines s =
     (let ws = split_char LF s
      in map strip_cr (butlast ws) @ (if last ws = [] then [] else [last ws]))"

lemma strip_cr_id: "l = [] \<or> last l \<noteq> CR \<Longrightarrow> strip_cr l = l"
  by (cases l rule: rev_cases) (auto simp: strip_cr_def strip_suffix_def)

lemma set_strip_cr: "set (strip_cr l) \<subseteq> set l"
  by (auto simp: strip_cr_def strip_suffix_Some split: option.splits)

lemma lines_notin_LF: "l \<in> set (lines s) \<Longrightarrow> LF \<notin> set l"
proof -
  assume "l \<in> set (lines s)"
  then have "l \<in> strip_cr ` set (split_char LF s) \<or> l \<in> set (split_char LF s)"
    by (auto simp: lines_def Let_def dest: in_set_butlastD split: if_splits)
  then show ?thesis using split_char_notin set_strip_cr by blast
qed

lemma lines_join:
  assumes "ws \<noteq> []" "\<forall>w \<in> set ws. LF \<notin> set w" "last ws \<noteq> []"
    and "\<forall>w \<in> set (butlast ws). w = [] \<or> last w \<noteq> CR"
  shows "lines (join [LF] ws) = ws"
proof -
  have "map strip_cr (butlast ws) = butlast ws"
    using assms(4) by (intro map_idI) (auto simp: strip_cr_id)
  then show ?thesis using assms by (simp add: lines_def split_char_join)
qed

text \<open>\<open>str::split_inclusive\<close> on a character keeps it at the end of the pieces.\<close>

definition split_inclusive :: "uchar \<Rightarrow> ustring \<Rightarrow> ustring list" where
  "split_inclusive c s =
     (let ws = split_char c s
      in map (\<lambda>w. w @ [c]) (butlast ws) @ (if last ws = [] then [] else [last ws]))"

lemma split_inclusive_simps:
  "split_inclusive c [] = []"
  "c \<notin> set w \<Longrightarrow> split_inclusive c (w @ c # s) = (w @ [c]) # split_inclusive c s"
  by (simp_all add: split_inclusive_def split_char_append Let_def)

lemma line_cases: "c \<notin> set s \<or> (\<exists>w t. s = w @ c # t \<and> c \<notin> set w)"
  using split_list_first [of c s] by blast

lemma split_inclusive_free: "c \<notin> set s \<Longrightarrow> split_inclusive c s = (if s = [] then [] else [s])"
  by (simp add: split_inclusive_def split_char_free)

lemma concat_split_inclusive [simp]: "concat (split_inclusive c s) = s"
proof (induction "length s" arbitrary: s rule: less_induct)
  case less
  from line_cases [of c s] show ?case
    using less by (auto simp: split_inclusive_free split_inclusive_simps)
qed

lemma split_inclusive_append:
  "s = [] \<or> last s = c \<Longrightarrow> split_inclusive c (s @ t) = split_inclusive c s @ split_inclusive c t"
proof (induction "length s" arbitrary: s rule: less_induct)
  case less
  from line_cases [of c s] show ?case
  proof
    assume "c \<notin> set s"
    with less.prems have "s = []" by (metis last_in_set)
    then show ?thesis by (simp add: split_inclusive_simps)
  next
    assume "\<exists>w u. s = w @ c # u \<and> c \<notin> set w"
    then obtain w u where s: "s = w @ c # u" "c \<notin> set w" by blast
    with less.prems have "u = [] \<or> last u = c" by (auto split: if_splits)
    with less.hyps [of u] s show ?thesis by (simp add: split_inclusive_simps)
  qed
qed

lemma lines_split_inclusive:
  "lines s = map (\<lambda>w. case strip_suffix [LF] w of Some l \<Rightarrow> strip_cr l | None \<Rightarrow> w) (split_inclusive LF s)"
proof -
  have "LF \<notin> set (last (split_char LF s))" by (rule split_char_notin [of _ _ s]) simp
  then have "strip_suffix [LF] (last (split_char LF s)) = None"
    by (cases "strip_suffix [LF] (last (split_char LF s))") (auto simp: strip_suffix_Some)
  moreover have "strip_suffix [LF] (w @ [LF]) = Some w" for w by (simp add: strip_suffix_Some)
  ultimately show ?thesis by (simp add: lines_def split_inclusive_def Let_def comp_def)
qed

lemma lines_append: "s = [] \<or> last s = LF \<Longrightarrow> lines (s @ t) = lines s @ lines t"
  by (simp add: lines_split_inclusive split_inclusive_append)

lemma lines_single: "LF \<notin> set l \<Longrightarrow> lines (l @ [LF]) = [strip_cr l]"
  using split_inclusive_simps(2) [of LF l "[]"]
  by (simp add: lines_split_inclusive split_inclusive_simps strip_suffix_def)

text \<open>Dropping some of the pieces of a split leaves the pieces of the remaining text.\<close>

fun pieces :: "uchar \<Rightarrow> ustring list \<Rightarrow> bool" where
  "pieces c [] \<longleftrightarrow> True"
| "pieces c (p # ps) \<longleftrightarrow> p \<noteq> [] \<and> c \<notin> set (butlast p) \<and> (ps \<noteq> [] \<longrightarrow> last p = c) \<and> pieces c ps"

lemma pieces_split_inclusive: "pieces c (split_inclusive c s)"
proof (induction "length s" arbitrary: s rule: less_induct)
  case less
  from line_cases [of c s] show ?case
    using less by (auto simp: split_inclusive_free split_inclusive_simps dest: in_set_butlastD)
qed

lemma pieces_filter: "pieces c ps \<Longrightarrow> pieces c (filter P ps)"
  by (induction ps) auto

lemma split_inclusive_concat: "pieces c ps \<Longrightarrow> split_inclusive c (concat ps) = ps"
proof (induction ps)
  case (Cons p ps)
  have one: "split_inclusive c p = [p]"
  proof (cases "last p = c")
    case True
    with Cons.prems have "p = butlast p @ c # []" by (metis append_butlast_last_id pieces.simps(2))
    with Cons.prems show ?thesis by (metis pieces.simps(2) split_inclusive_simps)
  next
    case False
    with Cons.prems have "c \<notin> set p"
      by (metis Un_iff append_butlast_last_id empty_iff empty_set pieces.simps(2) set_ConsD set_append)
    with Cons.prems show ?thesis by (simp add: split_inclusive_free)
  qed
  show ?case
  proof (cases ps)
    case (Cons q qs)
    with Cons.prems have "last p = c" by simp
    with one Cons.IH Cons.prems show ?thesis by (simp add: split_inclusive_append)
  qed (simp add: one)
qed (simp add: split_inclusive_simps)

definition split_once :: "uchar \<Rightarrow> ustring \<Rightarrow> (ustring \<times> ustring) option" where
  "split_once c s =
     (if c \<in> set s then Some (takeWhile (\<lambda>x. x \<noteq> c) s, tl (dropWhile (\<lambda>x. x \<noteq> c) s)) else None)"

definition rsplit_once :: "uchar \<Rightarrow> ustring \<Rightarrow> (ustring \<times> ustring) option" where
  "rsplit_once c s =
     (case split_once c (rev s) of None \<Rightarrow> None | Some (a, b) \<Rightarrow> Some (rev b, rev a))"

lemma split_once_Some: "split_once c s = Some (a, b) \<longleftrightarrow> s = a @ c # b \<and> c \<notin> set a"
proof
  assume l: "split_once c s = Some (a, b)"
  then have "c \<in> set s" by (auto simp: split_once_def split: if_splits)
  then have "hd (dropWhile (\<lambda>x. x \<noteq> c) s) = c" "dropWhile (\<lambda>x. x \<noteq> c) s \<noteq> []"
    by (metis (mono_tags, lifting) dropWhile_eq_Nil_conv hd_dropWhile)+
  then have "s = takeWhile (\<lambda>x. x \<noteq> c) s @ c # tl (dropWhile (\<lambda>x. x \<noteq> c) s)"
    by (metis list.collapse takeWhile_dropWhile_id)
  with l show "s = a @ c # b \<and> c \<notin> set a"
    by (auto simp: split_once_def dest: set_takeWhileD split: if_splits)
next
  assume "s = a @ c # b \<and> c \<notin> set a"
  then show "split_once c s = Some (a, b)"
    by (auto simp: split_once_def takeWhile_append dropWhile_append)
qed

text \<open>\<open>str::contains\<close> on a string needle.\<close>

definition contains_str :: "ustring \<Rightarrow> ustring \<Rightarrow> bool" where
  "contains_str needle s \<longleftrightarrow> (\<exists>t \<in> set (suffixes s). prefix needle t)"

subsection \<open>UTF-8 lengths and decimal numbers\<close>

definition utf8_len :: "uchar \<Rightarrow> nat" where
  "utf8_len c = (if c < 0x80 then 1 else if c < 0x800 then 2 else if c < 0x10000 then 3 else 4)"

definition byte_len :: "ustring \<Rightarrow> nat" where
  "byte_len s = sum_list (map utf8_len s)"

lemma utf8_len_bounds: "1 \<le> utf8_len c" "utf8_len c \<le> 4"
  by (auto simp: utf8_len_def)

lemma byte_len_simps [simp]:
  "byte_len [] = 0" "byte_len (c # s) = utf8_len c + byte_len s"
  "byte_len (s @ t) = byte_len s + byte_len t"
  by (simp_all add: byte_len_def)

lemma byte_len_eq_0 [simp]: "byte_len s = 0 \<longleftrightarrow> s = []"
  using utf8_len_bounds(1) [of "hd s"] by (cases s) auto

lemma length_le_byte_len: "length s \<le> byte_len s"
proof (induction s)
  case (Cons c s)
  then show ?case using utf8_len_bounds(1) [of c] by simp
qed simp

text \<open>The bytes of the UTF-8 encoding.\<close>

definition utf8_char :: "uchar \<Rightarrow> nat list" where
  "utf8_char c =
     (if c < 0x80 then [c]
      else if c < 0x800 then [0xC0 + c div 64, 0x80 + c mod 64]
      else if c < 0x10000 then [0xE0 + c div 4096, 0x80 + c div 64 mod 64, 0x80 + c mod 64]
      else [0xF0 + c div 262144, 0x80 + c div 4096 mod 64, 0x80 + c div 64 mod 64, 0x80 + c mod 64])"

definition utf8_encode :: "ustring \<Rightarrow> nat list" where
  "utf8_encode s = concat (map utf8_char s)"

lemma utf8_encode_append [simp]:
  "utf8_encode [] = []" "utf8_encode (c # s) = utf8_char c @ utf8_encode s"
  "utf8_encode (s @ t) = utf8_encode s @ utf8_encode t"
  by (simp_all add: utf8_encode_def)

lemma length_utf8_encode [simp]: "length (utf8_encode s) = byte_len s"
  by (induction s) (auto simp: utf8_encode_def utf8_char_def utf8_len_def)

text \<open>
  Slicing a string at a byte offset, \<open>s[..n]\<close> and \<open>s[n..]\<close>, panics when the offset is past the
  end or inside the encoding of a character.
\<close>

fun str_split_at :: "ustring \<Rightarrow> nat \<Rightarrow> (ustring \<times> ustring) option" where
  "str_split_at [] n = (if n = 0 then Some ([], []) else None)"
| "str_split_at (c # s) n =
     (if n = 0 then Some ([], c # s)
      else if utf8_len c \<le> n
      then map_option (\<lambda>(a, b). (c # a, b)) (str_split_at s (n - utf8_len c))
      else None)"

definition str_upto :: "ustring \<Rightarrow> nat \<Rightarrow> ustring option" where
  "str_upto s n = map_option fst (str_split_at s n)"

definition str_from :: "ustring \<Rightarrow> nat \<Rightarrow> ustring option" where
  "str_from s n = map_option snd (str_split_at s n)"

lemma str_split_at_byte_len [simp]: "str_split_at (a @ b) (byte_len a) = Some (a, b)"
proof (induction a)
  case Nil
  then show ?case by (cases b) simp_all
next
  case (Cons c a)
  then show ?case using utf8_len_bounds(1) [of c] by simp
qed

lemma str_slices [simp]:
  "str_upto (a @ b) (byte_len a) = Some a" "str_from (a @ b) (byte_len a) = Some b"
  by (simp_all add: str_upto_def str_from_def)

lemma str_split_at_Some: "str_split_at s n = Some (a, b) \<Longrightarrow> s = a @ b \<and> byte_len a = n"
  by (induction s n arbitrary: a rule: str_split_at.induct) (auto split: if_splits)

text \<open>\<open>str::char_indices\<close>: the characters with the byte offsets they start at.\<close>

fun char_indices :: "nat \<Rightarrow> ustring \<Rightarrow> (nat \<times> uchar) list" where
  "char_indices i [] = []"
| "char_indices i (c # s) = (i, c) # char_indices (i + utf8_len c) s"

fun show_nat :: "nat \<Rightarrow> ustring" where
  "show_nat n = (if n < 10 then [48 + n] else show_nat (n div 10) @ [48 + n mod 10])"

declare show_nat.simps [simp del]

lemma length_show_nat: "n < 10 ^ Suc k \<Longrightarrow> length (show_nat n) \<le> Suc k"
proof (induction k arbitrary: n)
  case (Suc k)
  then have "n div 10 < 10 ^ Suc k" by (simp add: less_mult_imp_div_less mult.commute)
  with Suc.IH show ?case by (subst show_nat.simps) simp
qed (simp add: show_nat.simps)

lemma byte_len_show_nat [simp]: "byte_len (show_nat n) = length (show_nat n)"
proof (induction n rule: show_nat.induct)
  case (1 n)
  show ?case
  proof (cases "n < 10")
    case True
    then show ?thesis by (simp add: show_nat.simps [of n] utf8_len_def)
  next
    case False
    with 1 show ?thesis by (subst (1 2) show_nat.simps) (simp add: utf8_len_def)
  qed
qed

section \<open>Machine integers\<close>

text \<open>
  \<open>usize\<close> and \<open>u64\<close> are 64-bit. Lengths and indices of values in memory stay below
  \<open>isize::MAX\<close> and are plain naturals; where the code asks for saturation it is written out.
\<close>

definition USIZE_MAX :: nat where
  "USIZE_MAX = 2 ^ 64 - 1"

definition ISIZE_MAX :: nat where
  "ISIZE_MAX = 2 ^ 63 - 1"

definition saturating_add :: "nat \<Rightarrow> nat \<Rightarrow> nat" where
  "saturating_add a b = min USIZE_MAX (a + b)"

definition saturating_mul :: "nat \<Rightarrow> nat \<Rightarrow> nat" where
  "saturating_mul a b = min USIZE_MAX (a * b)"

end
