(* ===== verification/Patch_Parser.thy ===== *)
theory Patch_Parser
  imports Rust_Prelude
begin

text \<open>
  The apply-patch text format: \<open>codex-rs/apply-patch/src/parser.rs\<close> (hunks, boundary checks,
  \<open>parse_patch\<close>) and \<open>streaming_parser.rs\<close> (the line-by-line state machine that both the batch
  parser and the streaming progress events run). The parser's state is a record with the fields of
  \<open>StreamingPatchParser\<close>; every \<open>Err\<close> of the source is a left value with the source's message.

  Lemmas: the invariant of the parser state (every finished update hunk has chunks, every finished
  chunk has lines, context indices point at equal lines of the old and the new side), and that
  feeding the text in pieces is the same as feeding it at once.
\<close>

section \<open>Markers and data (parser.rs)\<close>

definition BEGIN_PATCH_MARKER :: ustring where
  [lit_defs]: "BEGIN_PATCH_MARKER = str ''*** Begin Patch''"

definition END_PATCH_MARKER :: ustring where
  [lit_defs]: "END_PATCH_MARKER = str ''*** End Patch''"

definition ADD_FILE_MARKER :: ustring where
  [lit_defs]: "ADD_FILE_MARKER = str ''*** Add File: ''"

definition DELETE_FILE_MARKER :: ustring where
  [lit_defs]: "DELETE_FILE_MARKER = str ''*** Delete File: ''"

definition UPDATE_FILE_MARKER :: ustring where
  [lit_defs]: "UPDATE_FILE_MARKER = str ''*** Update File: ''"

definition MOVE_TO_MARKER :: ustring where
  [lit_defs]: "MOVE_TO_MARKER = str ''*** Move to: ''"

definition EOF_MARKER :: ustring where
  [lit_defs]: "EOF_MARKER = str ''*** End of File''"

definition CHANGE_CONTEXT_MARKER :: ustring where
  [lit_defs]: "CHANGE_CONTEXT_MARKER = str ''@@ ''"

definition EMPTY_CHANGE_CONTEXT_MARKER :: ustring where
  [lit_defs]: "EMPTY_CHANGE_CONTEXT_MARKER = str ''@@''"

definition ENVIRONMENT_ID_MARKER :: ustring where
  [lit_defs]: "ENVIRONMENT_ID_MARKER = str ''*** Environment ID:''"

datatype parse_error =
  InvalidPatchError ustring
| InvalidHunkError ustring nat

record update_file_chunk =
  change_context :: "ustring option"
  old_lines :: "ustring list"
  new_lines :: "ustring list"
  context_line_indices :: "(nat \<times> nat) list"
  is_end_of_file :: bool

definition default_chunk :: update_file_chunk where
  "default_chunk =
     \<lparr>change_context = None, old_lines = [], new_lines = [], context_line_indices = [],
      is_end_of_file = False\<rparr>"

datatype hunk =
  AddFile ustring ustring
| DeleteFile ustring
| UpdateFile ustring "ustring option" "update_file_chunk list"

fun hunk_path :: "hunk \<Rightarrow> ustring" where
  "hunk_path (AddFile path _) = path"
| "hunk_path (DeleteFile path) = path"
| "hunk_path (UpdateFile _ (Some path) _) = path"
| "hunk_path (UpdateFile path None _) = path"

definition push_context_line :: "ustring \<Rightarrow> update_file_chunk \<Rightarrow> update_file_chunk" where
  "push_context_line line c =
     c\<lparr>context_line_indices :=
          context_line_indices c @ [(length (old_lines c), length (new_lines c))],
       old_lines := old_lines c @ [line],
       new_lines := new_lines c @ [line]\<rparr>"

section \<open>The streaming parser (streaming\_parser.rs)\<close>

datatype streaming_parser_mode =
  NotStarted
| StartedPatch
| InAddFile
| InDeleteFile
| InUpdateFile nat \<comment> \<open>the field \<open>hunk_line_number\<close>\<close>
| EndedPatch

record streaming_parser_state =
  mode :: streaming_parser_mode
  hunks :: "hunk list"
  environment_id :: "ustring option"

record streaming_patch_parser =
  line_buffer :: ustring
  state :: streaming_parser_state
  line_number :: nat

definition default_parser :: streaming_patch_parser where
  "default_parser =
     \<lparr>line_buffer = [], state = \<lparr>mode = NotStarted, hunks = [], environment_id = None\<rparr>,
      line_number = 0\<rparr>"

abbreviation set_mode :: "streaming_parser_mode \<Rightarrow> streaming_patch_parser \<Rightarrow> streaming_patch_parser" where
  "set_mode m p \<equiv> p\<lparr>state := (state p)\<lparr>mode := m\<rparr>\<rparr>"

abbreviation set_hunks :: "hunk list \<Rightarrow> streaming_patch_parser \<Rightarrow> streaming_patch_parser" where
  "set_hunks hs p \<equiv> p\<lparr>state := (state p)\<lparr>hunks := hs\<rparr>\<rparr>"

definition chunk_is_empty :: "update_file_chunk \<Rightarrow> bool" where
  "chunk_is_empty c \<longleftrightarrow> old_lines c = [] \<and> new_lines c = []"

definition quoted :: "ustring \<Rightarrow> ustring" where
  "quoted s = [39] @ s @ [39]"

definition unexpected_line_message :: "ustring \<Rightarrow> ustring" where
  "unexpected_line_message line =
     str ''Unexpected line found in update hunk: '' @ quoted line @
     str ''. Every line should start with '' @ quoted (str '' '') @ str '' (context line), '' @
     quoted (str ''+'') @ str '' (added line), or '' @ quoted (str ''-'') @ str '' (removed line)''"

definition expected_context_message :: "ustring \<Rightarrow> ustring" where
  "expected_context_message line =
     str ''Expected update hunk to start with a @@ context marker, got: '' @ quoted line"

definition invalid_header_message :: "ustring \<Rightarrow> ustring" where
  "invalid_header_message trimmed =
     quoted trimmed @ str '' is not a valid hunk header. Valid hunk headers: '' @
     quoted (str ''*** Add File: {path}'') @ str '', '' @
     quoted (str ''*** Delete File: {path}'') @ str '', '' @
     quoted (str ''*** Update File: {path}'')"

definition first_line_message :: ustring where
  "first_line_message =
     str ''The first line of the patch must be '' @ quoted (str ''*** Begin Patch'')"

definition last_line_message :: ustring where
  "last_line_message =
     str ''The last line of the patch must be '' @ quoted (str ''*** End Patch'')"

definition no_lines_message :: ustring where
  "no_lines_message = str ''Update hunk does not contain any lines''"

definition ensure_update_hunk_is_not_empty ::
  "streaming_patch_parser \<Rightarrow> ustring \<Rightarrow> (unit, parse_error) result" where
  "ensure_update_hunk_is_not_empty p line =
     (case last_opt (hunks (state p)) of
        Some (UpdateFile path _ chunks) \<Rightarrow>
          (case (chunks, mode (state p)) of
             ([], InUpdateFile hunk_line_number) \<Rightarrow>
               Err (InvalidHunkError
                 (str ''Update file hunk for path '' @ quoted path @ str '' is empty'')
                 hunk_line_number)
           | _ \<Rightarrow>
               if is_some_and (last_opt chunks) chunk_is_empty then
                 if line = END_PATCH_MARKER
                 then Err (InvalidHunkError no_lines_message (line_number p))
                 else Err (InvalidHunkError (unexpected_line_message line) (line_number p))
               else Ok ())
      | _ \<Rightarrow> Ok ())"

text \<open>
  The function returns the updated parser and whether the line was a header; on an error the
  parser is left as it was.
\<close>

definition handle_hunk_headers_and_end_patch ::
  "streaming_patch_parser \<Rightarrow> ustring \<Rightarrow> (streaming_patch_parser \<times> bool, parse_error) result" where
  "handle_hunk_headers_and_end_patch p trimmed =
     (case (if mode (state p) = StartedPatch then strip_prefix ENVIRONMENT_ID_MARKER trimmed
            else None) of
        Some environment_id' \<Rightarrow>
          if environment_id (state p) \<noteq> None
          then Err (InvalidPatchError
                 (str ''apply_patch environment_id cannot be specified more than once''))
          else
            (let environment_id' = trim environment_id'
             in if environment_id' = []
                then Err (InvalidPatchError (str ''apply_patch environment_id cannot be empty''))
                else Ok (p\<lparr>state := (state p)\<lparr>environment_id := Some environment_id'\<rparr>\<rparr>, True))
      | None \<Rightarrow>
          if trimmed = END_PATCH_MARKER then
            result_bind (ensure_update_hunk_is_not_empty p trimmed)
              (\<lambda>_. Ok (set_mode EndedPatch p, True))
          else (case strip_prefix ADD_FILE_MARKER trimmed of
            Some path \<Rightarrow>
              result_bind (ensure_update_hunk_is_not_empty p trimmed)
                (\<lambda>_. Ok (set_mode InAddFile (set_hunks (hunks (state p) @ [AddFile path []]) p), True))
          | None \<Rightarrow> (case strip_prefix DELETE_FILE_MARKER trimmed of
            Some path \<Rightarrow>
              result_bind (ensure_update_hunk_is_not_empty p trimmed)
                (\<lambda>_. Ok (set_mode InDeleteFile (set_hunks (hunks (state p) @ [DeleteFile path]) p), True))
          | None \<Rightarrow> (case strip_prefix UPDATE_FILE_MARKER trimmed of
            Some path \<Rightarrow>
              result_bind (ensure_update_hunk_is_not_empty p trimmed)
                (\<lambda>_. Ok (set_mode (InUpdateFile (line_number p))
                            (set_hunks (hunks (state p) @ [UpdateFile path None []]) p), True))
          | None \<Rightarrow> Ok (p, False)))))"

text \<open>
  The lines of an update hunk. \<open>update_chunks\<close> is the part of \<open>process_line\<close> that runs with the
  mutable borrow of the last hunk's \<open>move_path\<close> and \<open>chunks\<close>; it returns their new values. A
  line that starts the first chunk pushes a default chunk first (\<open>open_chunk\<close>).
\<close>

definition open_chunk :: "update_file_chunk list \<Rightarrow> update_file_chunk list" where
  "open_chunk chunks = (if chunks = [] then [default_chunk] else chunks)"

definition is_context_marker :: "ustring \<Rightarrow> bool" where
  "is_context_marker update_line \<longleftrightarrow>
     update_line = EMPTY_CHANGE_CONTEXT_MARKER \<or> prefix CHANGE_CONTEXT_MARKER update_line"

definition update_chunks ::
  "nat \<Rightarrow> ustring \<Rightarrow> ustring option \<Rightarrow> update_file_chunk list \<Rightarrow>
   (ustring option \<times> update_file_chunk list, parse_error) result" where
  "update_chunks line_no line move_path chunks =
     (let update_line = trim_end line in
      if is_some_and (last_opt chunks) is_end_of_file \<and> update_line = [] then Ok (move_path, chunks)
      else if is_some_and (last_opt chunks) is_end_of_file \<and> \<not> is_context_marker update_line
      then Err (InvalidHunkError (expected_context_message line) line_no)
      else if chunks = [] \<and> move_path = None \<and> prefix MOVE_TO_MARKER update_line
      then Ok (strip_prefix MOVE_TO_MARKER update_line, chunks)
      else if is_context_marker update_line \<and> is_some_and (last_opt chunks) chunk_is_empty
      then Err (InvalidHunkError (unexpected_line_message line) line_no)
      else if update_line = EMPTY_CHANGE_CONTEXT_MARKER then Ok (move_path, chunks @ [default_chunk])
      else (case strip_prefix CHANGE_CONTEXT_MARKER update_line of
        Some ctx \<Rightarrow> Ok (move_path, chunks @ [default_chunk\<lparr>change_context := Some ctx\<rparr>])
      | None \<Rightarrow>
      if update_line = EOF_MARKER then
        if is_some_and (last_opt chunks) chunk_is_empty
        then Err (InvalidHunkError no_lines_message line_no)
        else Ok (move_path, modify_last (\<lambda>c. c\<lparr>is_end_of_file := True\<rparr>) chunks)
      else if line = [] then
        Ok (move_path, modify_last (push_context_line []) (open_chunk chunks))
      else (case strip_prefix (str '' '') line of
        Some l \<Rightarrow> Ok (move_path, modify_last (push_context_line l) (open_chunk chunks))
      | None \<Rightarrow> (case strip_prefix (str ''+'') line of
        Some l \<Rightarrow>
          Ok (move_path, modify_last (\<lambda>c. c\<lparr>new_lines := new_lines c @ [l]\<rparr>) (open_chunk chunks))
      | None \<Rightarrow> (case strip_prefix (str ''-'') line of
        Some l \<Rightarrow>
          Ok (move_path, modify_last (\<lambda>c. c\<lparr>old_lines := old_lines c @ [l]\<rparr>) (open_chunk chunks))
      | None \<Rightarrow>
      if is_some_and (last_opt chunks) (\<lambda>c. \<not> chunk_is_empty c)
      then Err (InvalidHunkError (expected_context_message line) line_no)
      else Err (InvalidHunkError (unexpected_line_message line) line_no))))))"

definition process_line ::
  "streaming_patch_parser \<Rightarrow> ustring \<Rightarrow> (streaming_patch_parser, parse_error) result" where
  "process_line p line =
     (let trimmed = trim line;
          invalid_header = Err (InvalidHunkError (invalid_header_message trimmed) (line_number p))
      in case mode (state p) of
        NotStarted \<Rightarrow>
          if trimmed = BEGIN_PATCH_MARKER then Ok (set_mode StartedPatch p)
          else Err (InvalidPatchError first_line_message)
      | StartedPatch \<Rightarrow>
          result_bind (handle_hunk_headers_and_end_patch p trimmed)
            (\<lambda>(p', handled). if handled then Ok p' else invalid_header)
      | InAddFile \<Rightarrow>
          result_bind (handle_hunk_headers_and_end_patch p trimmed)
            (\<lambda>(p', handled).
               if handled then Ok p'
               else (case (strip_prefix (str ''+'') line, last_opt (hunks (state p))) of
                       (Some line_to_add, Some (AddFile path contents)) \<Rightarrow>
                         Ok (set_hunks (butlast (hunks (state p)) @
                                [AddFile path (contents @ line_to_add @ [LF])]) p)
                     | _ \<Rightarrow> invalid_header))
      | InDeleteFile \<Rightarrow>
          result_bind (handle_hunk_headers_and_end_patch p trimmed)
            (\<lambda>(p', handled). if handled then Ok p' else invalid_header)
      | InUpdateFile hunk_line_number \<Rightarrow>
          result_bind (handle_hunk_headers_and_end_patch p (trim_end line))
            (\<lambda>(p', handled).
               if handled then Ok p'
               else (case last_opt (hunks (state p)) of
                       Some (UpdateFile path move_path chunks) \<Rightarrow>
                         result_bind (update_chunks (line_number p) line move_path chunks)
                           (\<lambda>(move_path', chunks').
                              Ok (set_hunks (butlast (hunks (state p)) @
                                     [UpdateFile path move_path' chunks']) p))
                     | _ \<Rightarrow>
                         Err (InvalidHunkError (unexpected_line_message line) (line_number p))))
      | EndedPatch \<Rightarrow>
          if trimmed = [] then Ok p else Err (InvalidPatchError last_line_message))"

text \<open>
  \<open>push_delta\<close> and \<open>finish\<close> take \<open>&mut self\<close>: they return the parser as they leave it beside
  their result, also when the result is an error.
\<close>

definition end_line :: "streaming_patch_parser \<Rightarrow> streaming_patch_parser" where
  "end_line p = p\<lparr>line_buffer := [], line_number := line_number p + 1\<rparr>"

fun push_chars ::
  "streaming_patch_parser \<Rightarrow> ustring \<Rightarrow> streaming_patch_parser \<times> (unit, parse_error) result" where
  "push_chars p [] = (p, Ok ())"
| "push_chars p (ch # delta) =
     (if ch = LF then
        (case process_line (end_line p) (strip_cr (line_buffer p)) of
           Err e \<Rightarrow> (end_line p, Err e)
         | Ok p' \<Rightarrow> push_chars p' delta)
      else push_chars (p\<lparr>line_buffer := line_buffer p @ [ch]\<rparr>) delta)"

definition push_delta ::
  "streaming_patch_parser \<Rightarrow> ustring \<Rightarrow> streaming_patch_parser \<times> (hunk list, parse_error) result" where
  "push_delta p delta =
     (case push_chars p delta of
        (p', Err e) \<Rightarrow> (p', Err e)
      | (p', Ok _) \<Rightarrow> (p', Ok (hunks (state p'))))"

definition finish_line ::
  "streaming_patch_parser \<Rightarrow> streaming_patch_parser \<times> (unit, parse_error) result" where
  "finish_line p =
     (if line_buffer p = [] then (p, Ok ())
      else
        (let line = line_buffer p; p1 = end_line p
         in if trim line = END_PATCH_MARKER then
              (case ensure_update_hunk_is_not_empty p1 (trim line) of
                 Err e \<Rightarrow> (p1, Err e)
               | Ok _ \<Rightarrow> (set_mode EndedPatch p1, Ok ()))
            else
              (case process_line p1 line of
                 Err e \<Rightarrow> (p1, Err e)
               | Ok p2 \<Rightarrow> (p2, Ok ()))))"

definition finish ::
  "streaming_patch_parser \<Rightarrow> streaming_patch_parser \<times> (hunk list, parse_error) result" where
  "finish p =
     (case finish_line p of
        (p', Err e) \<Rightarrow> (p', Err e)
      | (p', Ok _) \<Rightarrow>
          if mode (state p') \<noteq> EndedPatch then (p', Err (InvalidPatchError last_line_message))
          else (p', Ok (hunks (state p'))))"

section \<open>The batch parser (parser.rs)\<close>

record apply_patch_args =
  args_patch :: ustring
  args_hunks :: "hunk list"
  args_workdir :: "ustring option"
  args_environment_id :: "ustring option"

datatype parse_mode = Strict | Lenient

definition PARSE_IN_STRICT_MODE :: bool where
  "PARSE_IN_STRICT_MODE = False"

definition check_start_and_end_lines_strict ::
  "ustring option \<Rightarrow> ustring option \<Rightarrow> (unit, parse_error) result" where
  "check_start_and_end_lines_strict first_line last_line =
     (case (map_option trim first_line, map_option trim last_line) of
        (Some f, l) \<Rightarrow>
          if f = BEGIN_PATCH_MARKER \<and> l = Some END_PATCH_MARKER then Ok ()
          else if f \<noteq> BEGIN_PATCH_MARKER then Err (InvalidPatchError first_line_message)
          else Err (InvalidPatchError last_line_message)
      | (None, _) \<Rightarrow> Err (InvalidPatchError last_line_message))"

definition check_patch_boundaries_strict ::
  "ustring list \<Rightarrow> (ustring list, parse_error) result" where
  "check_patch_boundaries_strict ls =
     result_bind (check_start_and_end_lines_strict (first_opt ls) (last_opt ls)) (\<lambda>_. Ok ls)"

definition is_heredoc_start :: "ustring \<Rightarrow> bool" where
  "is_heredoc_start l \<longleftrightarrow>
     l = str ''<<EOF'' \<or> l = str ''<<'' @ quoted (str ''EOF'') \<or> l = str ''<<\"EOF\"''"

definition check_patch_boundaries_lenient ::
  "ustring list \<Rightarrow> (ustring list, parse_error) result" where
  "check_patch_boundaries_lenient original_lines =
     (case check_patch_boundaries_strict original_lines of
        Ok ls \<Rightarrow> Ok ls
      | Err original_parse_error \<Rightarrow>
          if length original_lines \<ge> 2 then
            if is_heredoc_start (hd original_lines) \<and> suffix (str ''EOF'') (last original_lines) \<and>
               length original_lines \<ge> 4
            then check_patch_boundaries_strict (butlast (tl original_lines))
            else Err original_parse_error
          else Err original_parse_error)"

definition parse_patch_text ::
  "ustring \<Rightarrow> parse_mode \<Rightarrow> (apply_patch_args, parse_error) result" where
  "parse_patch_text patch0 md =
     result_bind
       (case md of
          Strict \<Rightarrow> check_patch_boundaries_strict (lines (trim patch0))
        | Lenient \<Rightarrow> check_patch_boundaries_lenient (lines (trim patch0)))
       (\<lambda>patch_lines.
          let patch = join [LF] patch_lines in
          case push_delta default_parser patch of
            (p, Err e) \<Rightarrow> Err e
          | (p, Ok _) \<Rightarrow>
              (case finish p of
                 (p', Err e) \<Rightarrow> Err e
               | (p', Ok hs) \<Rightarrow>
                   Ok \<lparr>args_patch = patch, args_hunks = hs, args_workdir = None,
                       args_environment_id = environment_id (state p')\<rparr>))"

definition parse_patch :: "ustring \<Rightarrow> (apply_patch_args, parse_error) result" where
  "parse_patch patch =
     parse_patch_text patch (if PARSE_IN_STRICT_MODE then Strict else Lenient)"

section \<open>Chunks and hunks that the parser can produce\<close>

definition context_ok :: "update_file_chunk \<Rightarrow> bool" where
  "context_ok c \<longleftrightarrow>
     sorted_wrt (\<lambda>x y. fst x < fst y \<and> snd x < snd y) (context_line_indices c) \<and>
     (\<forall>(i, j) \<in> set (context_line_indices c).
        i < length (old_lines c) \<and> j < length (new_lines c) \<and> old_lines c ! i = new_lines c ! j)"

definition path_ok :: "ustring \<Rightarrow> bool" where
  "path_ok p \<longleftrightarrow> p \<noteq> [] \<and> \<not> is_whitespace (last p) \<and> LF \<notin> set p"

definition wf_chunk :: "update_file_chunk \<Rightarrow> bool" where
  "wf_chunk c \<longleftrightarrow> context_ok c \<and> \<not> chunk_is_empty c"

fun wf_hunk :: "hunk \<Rightarrow> bool" where
  "wf_hunk (AddFile path contents) = path_ok path"
| "wf_hunk (DeleteFile path) = path_ok path"
| "wf_hunk (UpdateFile path move_path chunks) =
     (path_ok path \<and> (\<forall>q. move_path = Some q \<longrightarrow> path_ok q) \<and>
      chunks \<noteq> [] \<and> (\<forall>c \<in> set chunks. wf_chunk c))"

text \<open>The chunks of the hunk being read: only the last one may still be empty.\<close>

definition open_chunks_ok :: "update_file_chunk list \<Rightarrow> bool" where
  "open_chunks_ok cs \<longleftrightarrow> (\<forall>c \<in> set cs. context_ok c) \<and> (\<forall>c \<in> set (butlast cs). \<not> chunk_is_empty c)"

lemma context_ok_default [simp]: "context_ok default_chunk"
  "context_ok (default_chunk\<lparr>change_context := x\<rparr>)"
  by (simp_all add: context_ok_def default_chunk_def)

lemma chunk_is_empty_default [simp]: "chunk_is_empty default_chunk"
  "chunk_is_empty (default_chunk\<lparr>change_context := x\<rparr>)"
  by (simp_all add: chunk_is_empty_def default_chunk_def)

lemma context_ok_push_context_line [simp]:
  "context_ok c \<Longrightarrow> context_ok (push_context_line l c)"
  by (auto simp: context_ok_def push_context_line_def sorted_wrt_append nth_append)

lemma context_ok_extend [simp]:
  "context_ok c \<Longrightarrow> context_ok (c\<lparr>new_lines := new_lines c @ ls\<rparr>)"
  "context_ok c \<Longrightarrow> context_ok (c\<lparr>old_lines := old_lines c @ ls\<rparr>)"
  "context_ok (c\<lparr>is_end_of_file := b\<rparr>) = context_ok c"
  by (auto simp: context_ok_def nth_append)

lemma not_empty_extend [simp]:
  "\<not> chunk_is_empty (push_context_line l c)"
  "\<not> chunk_is_empty (c\<lparr>new_lines := new_lines c @ [l]\<rparr>)"
  "\<not> chunk_is_empty (c\<lparr>old_lines := old_lines c @ [l]\<rparr>)"
  "chunk_is_empty (c\<lparr>is_end_of_file := b\<rparr>) = chunk_is_empty c"
  by (simp_all add: chunk_is_empty_def push_context_line_def)

lemma open_chunks_ok_modify_last:
  assumes "open_chunks_ok cs" "\<And>c. context_ok c \<Longrightarrow> context_ok (f c)"
  shows "open_chunks_ok (modify_last f cs)"
  using assms by (cases cs rule: rev_cases) (auto simp: open_chunks_ok_def)

lemma open_chunks_ok_open_chunk: "open_chunks_ok cs \<Longrightarrow> open_chunks_ok (open_chunk cs)"
  by (auto simp: open_chunks_ok_def open_chunk_def)

lemma open_chunks_ok_snoc:
  "open_chunks_ok cs \<Longrightarrow> \<not> is_some_and (last_opt cs) chunk_is_empty \<Longrightarrow> context_ok c \<Longrightarrow>
   open_chunks_ok (cs @ [c])"
  by (cases cs rule: rev_cases) (auto simp: open_chunks_ok_def butlast_append)

lemma update_chunks_open_ok:
  assumes "update_chunks n l mv cs = Ok (mv', cs')" "open_chunks_ok cs"
  shows "open_chunks_ok cs'"
  using assms
  by (auto simp: update_chunks_def Let_def is_context_marker_def strip_prefix_def
      intro!: open_chunks_ok_modify_last open_chunks_ok_open_chunk open_chunks_ok_snoc
      split: if_splits option.splits)

lemma path_ok_strip_prefix:
  assumes "strip_prefix m s = Some p" "m \<noteq> []" "is_whitespace (last m)" "s = [] \<or> \<not> is_whitespace (last s)"
    "LF \<notin> set s"
  shows "path_ok p"
  using assms by (cases "p = []") (auto simp: strip_prefix_Some path_ok_def)

lemma marker_space:
  "ADD_FILE_MARKER \<noteq> []" "is_whitespace (last ADD_FILE_MARKER)"
  "DELETE_FILE_MARKER \<noteq> []" "is_whitespace (last DELETE_FILE_MARKER)"
  "UPDATE_FILE_MARKER \<noteq> []" "is_whitespace (last UPDATE_FILE_MARKER)"
  "MOVE_TO_MARKER \<noteq> []" "is_whitespace (last MOVE_TO_MARKER)"
  by (simp_all add: lit_defs is_whitespace_def)

lemma update_chunks_move_ok:
  assumes "update_chunks n l mv cs = Ok (Some q, cs')" "LF \<notin> set l" "\<forall>q. mv = Some q \<longrightarrow> path_ok q"
  shows "path_ok q"
proof -
  have "path_ok q" if "strip_prefix MOVE_TO_MARKER (trim_end l) = Some q"
    by (rule path_ok_strip_prefix [OF that])
       (use assms(2) set_trim_end trim_end_last marker_space in auto)
  then show ?thesis
    using assms(1,3)
    by (auto simp: update_chunks_def Let_def split: if_splits option.splits)
qed

section \<open>The parser invariant\<close>

text \<open>
  Between two lines: all hunks but the last are well-formed; the last one has the kind its mode
  asks for, and only an update hunk that is still being read may be without chunks or with an empty
  last chunk.
\<close>

fun open_hunk :: "streaming_parser_mode \<Rightarrow> hunk \<Rightarrow> bool" where
  "open_hunk InAddFile (AddFile path _) = path_ok path"
| "open_hunk InDeleteFile (DeleteFile path) = path_ok path"
| "open_hunk (InUpdateFile _) (UpdateFile path mv cs) =
     (path_ok path \<and> (\<forall>q. mv = Some q \<longrightarrow> path_ok q) \<and> open_chunks_ok cs)"
| "open_hunk EndedPatch h = wf_hunk h"
| "open_hunk _ _ = False"

definition env_ok :: "ustring option \<Rightarrow> bool" where
  "env_ok e \<longleftrightarrow> (\<forall>i. e = Some i \<longrightarrow> i \<noteq> [] \<and> trim i = i)"

definition last_hunk_ok :: "streaming_parser_mode \<Rightarrow> hunk list \<Rightarrow> bool" where
  "last_hunk_ok m hs \<longleftrightarrow>
     (case last_opt hs of
        None \<Rightarrow> m \<in> {NotStarted, StartedPatch, EndedPatch}
      | Some h \<Rightarrow> open_hunk m h)"

definition parser_inv :: "streaming_patch_parser \<Rightarrow> bool" where
  "parser_inv p \<longleftrightarrow>
     LF \<notin> set (line_buffer p) \<and> env_ok (environment_id (state p)) \<and>
     (\<forall>h \<in> set (butlast (hunks (state p))). wf_hunk h) \<and>
     last_hunk_ok (mode (state p)) (hunks (state p))"

lemma last_hunk_ok_simps [simp]:
  "last_hunk_ok m [] = (m \<in> {NotStarted, StartedPatch, EndedPatch})"
  "last_hunk_ok m (hs @ [h]) = open_hunk m h"
  by (simp_all add: last_hunk_ok_def)

lemma open_hunk_cases:
  assumes "open_hunk m h"
  obtains (add) path contents where "m = InAddFile" "h = AddFile path contents" "path_ok path"
  | (delete) path where "m = InDeleteFile" "h = DeleteFile path" "path_ok path"
  | (update) n path mv cs where "m = InUpdateFile n" "h = UpdateFile path mv cs" "path_ok path"
      "\<forall>q. mv = Some q \<longrightarrow> path_ok q" "open_chunks_ok cs"
  | (ended) "m = EndedPatch" "wf_hunk h"
  using assms by (cases "(m, h)" rule: open_hunk.cases) auto

lemma ensure_closes_hunk:
  assumes "ensure_update_hunk_is_not_empty p line = Ok ()" "last_opt (hunks (state p)) = Some h"
    "open_hunk (mode (state p)) h"
  shows "wf_hunk h"
  using assms(3)
proof (cases rule: open_hunk_cases)
  case (update n path mv cs)
  with assms(1,2) have "cs \<noteq> []" "\<not> is_some_and (last_opt cs) chunk_is_empty"
    by (auto simp: ensure_update_hunk_is_not_empty_def split: if_splits list.splits)
  with update show ?thesis
    by (cases cs rule: rev_cases) (auto simp: open_chunks_ok_def wf_chunk_def)
qed auto

lemma parser_inv_push_hunk:
  assumes inv: "parser_inv p" and ens: "ensure_update_hunk_is_not_empty p line = Ok ()"
    and h: "open_hunk m h"
  shows "parser_inv (set_mode m (set_hunks (hunks (state p) @ [h]) p))"
proof -
  have "wf_hunk g" if "g \<in> set (hunks (state p))" for g
  proof (cases "hunks (state p)" rule: rev_cases)
    case (snoc ys y)
    with inv that ensure_closes_hunk [OF ens, of y] show ?thesis
      by (auto simp: parser_inv_def)
  qed (use that in simp)
  with inv h show ?thesis by (auto simp: parser_inv_def)
qed

lemma parser_inv_end:
  assumes inv: "parser_inv p" and ens: "ensure_update_hunk_is_not_empty p line = Ok ()"
  shows "parser_inv (set_mode EndedPatch p)"
  using inv ensure_closes_hunk [OF ens]
  by (auto simp: parser_inv_def last_hunk_ok_def split: option.splits)

lemma path_ok_header:
  assumes "strip_prefix m s = Some path" "m \<in> {ADD_FILE_MARKER, DELETE_FILE_MARKER, UPDATE_FILE_MARKER}"
    "s = [] \<or> \<not> is_whitespace (last s)" "LF \<notin> set s"
  shows "path_ok path"
  by (rule path_ok_strip_prefix [OF assms(1)]) (use assms(2-4) marker_space in auto)

lemma handle_headers_cases:
  assumes "handle_hunk_headers_and_end_patch p s = Ok (p', b)"
  obtains (env) i where "b" "mode (state p) = StartedPatch" "environment_id (state p) = None"
      "strip_prefix ENVIRONMENT_ID_MARKER s = Some i" "trim i \<noteq> []"
      "p' = p\<lparr>state := (state p)\<lparr>environment_id := Some (trim i)\<rparr>\<rparr>"
  | (finish) "b" "s = END_PATCH_MARKER" "ensure_update_hunk_is_not_empty p s = Ok ()"
      "p' = set_mode EndedPatch p"
  | (add) path where "b" "strip_prefix ADD_FILE_MARKER s = Some path"
      "ensure_update_hunk_is_not_empty p s = Ok ()"
      "p' = set_mode InAddFile (set_hunks (hunks (state p) @ [AddFile path []]) p)"
  | (delete) path where "b" "strip_prefix DELETE_FILE_MARKER s = Some path"
      "ensure_update_hunk_is_not_empty p s = Ok ()"
      "p' = set_mode InDeleteFile (set_hunks (hunks (state p) @ [DeleteFile path]) p)"
  | (update) path where "b" "strip_prefix UPDATE_FILE_MARKER s = Some path"
      "ensure_update_hunk_is_not_empty p s = Ok ()"
      "p' = set_mode (InUpdateFile (line_number p)) (set_hunks (hunks (state p) @ [UpdateFile path None []]) p)"
  | (none) "\<not> b" "p' = p"
proof (cases "if mode (state p) = StartedPatch then strip_prefix ENVIRONMENT_ID_MARKER s else None")
  case (Some i)
  with assms have "mode (state p) = StartedPatch" "strip_prefix ENVIRONMENT_ID_MARKER s = Some i"
    "environment_id (state p) = None" "trim i \<noteq> []" "b"
    "p' = p\<lparr>state := (state p)\<lparr>environment_id := Some (trim i)\<rparr>\<rparr>"
    by (auto simp: handle_hunk_headers_and_end_patch_def Let_def split: if_splits)
  then show ?thesis by (intro env)
next
  case None
  have "(s = END_PATCH_MARKER \<and> ensure_update_hunk_is_not_empty p s = Ok () \<and> p' = set_mode EndedPatch p \<and> b) \<or>
    (\<exists>path. strip_prefix ADD_FILE_MARKER s = Some path \<and> ensure_update_hunk_is_not_empty p s = Ok () \<and>
       p' = set_mode InAddFile (set_hunks (hunks (state p) @ [AddFile path []]) p) \<and> b) \<or>
    (\<exists>path. strip_prefix DELETE_FILE_MARKER s = Some path \<and> ensure_update_hunk_is_not_empty p s = Ok () \<and>
       p' = set_mode InDeleteFile (set_hunks (hunks (state p) @ [DeleteFile path]) p) \<and> b) \<or>
    (\<exists>path. strip_prefix UPDATE_FILE_MARKER s = Some path \<and> ensure_update_hunk_is_not_empty p s = Ok () \<and>
       p' = set_mode (InUpdateFile (line_number p)) (set_hunks (hunks (state p) @ [UpdateFile path None []]) p) \<and> b) \<or>
    (\<not> b \<and> p' = p)"
    using assms None
    by (auto simp: handle_hunk_headers_and_end_patch_def result_bind_Ok split: if_splits option.splits)
  then show ?thesis using finish add delete update none by blast
qed

lemma handle_headers_inv:
  assumes "handle_hunk_headers_and_end_patch p s = Ok (p', b)" "parser_inv p"
    "s = [] \<or> \<not> is_whitespace (last s)" "LF \<notin> set s"
  shows "parser_inv p'"
  using assms(1)
proof (cases rule: handle_headers_cases)
  case (env i)
  with assms(2) show ?thesis by (auto simp: parser_inv_def env_ok_def)
next
  case finish
  with assms(2) show ?thesis by (auto intro: parser_inv_end)
next
  case (add path)
  with assms path_ok_header [OF add(2)] show ?thesis
    unfolding add(4) by (intro parser_inv_push_hunk [OF assms(2) add(3)]) (simp add: open_chunks_ok_def)
next
  case (delete path)
  with assms path_ok_header [OF delete(2)] show ?thesis
    unfolding delete(4) by (intro parser_inv_push_hunk [OF assms(2) delete(3)]) (simp add: open_chunks_ok_def)
next
  case (update path)
  with assms path_ok_header [OF update(2)] show ?thesis
    unfolding update(4) by (intro parser_inv_push_hunk [OF assms(2) update(3)]) (simp add: open_chunks_ok_def)
next
  case none
  with assms(2) show ?thesis by simp
qed

lemma process_line_cases:
  assumes "process_line p line = Ok p'"
  obtains (start) "mode (state p) = NotStarted" "trim line = BEGIN_PATCH_MARKER"
      "p' = set_mode StartedPatch p"
  | (header) s where "mode (state p) \<notin> {NotStarted, EndedPatch}" "s = trim line \<or> s = trim_end line"
      "handle_hunk_headers_and_end_patch p s = Ok (p', True)"
  | (add_line) path contents l where "mode (state p) = InAddFile" "line = str ''+'' @ l"
      "last_opt (hunks (state p)) = Some (AddFile path contents)"
      "p' = set_hunks (butlast (hunks (state p)) @ [AddFile path (contents @ l @ [LF])]) p"
  | (update_line) n path mv cs mv' cs' where "mode (state p) = InUpdateFile n"
      "last_opt (hunks (state p)) = Some (UpdateFile path mv cs)"
      "update_chunks (line_number p) line mv cs = Ok (mv', cs')"
      "p' = set_hunks (butlast (hunks (state p)) @ [UpdateFile path mv' cs']) p"
  | (blank) "mode (state p) = EndedPatch" "trim line = []" "p' = p"
proof (cases "mode (state p)")
  case NotStarted
  with assms show ?thesis
    by (intro start) (auto simp: process_line_def Let_def split: if_splits)
next
  case StartedPatch
  with assms have "handle_hunk_headers_and_end_patch p (trim line) = Ok (p', True)"
    by (auto simp: process_line_def Let_def result_bind_Ok split: if_splits)
  with StartedPatch show ?thesis by (intro header) auto
next
  case InAddFile
  with assms obtain q b where h: "handle_hunk_headers_and_end_patch p (trim line) = Ok (q, b)"
    by (auto simp: process_line_def Let_def result_bind_Ok)
  show ?thesis
  proof (cases b)
    case True
    with assms InAddFile h show ?thesis by (intro header) (auto simp: process_line_def Let_def)
  next
    case False
    with assms InAddFile h obtain l path contents where "strip_prefix (str ''+'') line = Some l"
      "last_opt (hunks (state p)) = Some (AddFile path contents)"
      "p' = set_hunks (butlast (hunks (state p)) @ [AddFile path (contents @ l @ [LF])]) p"
      by (auto simp: process_line_def Let_def split: option.splits hunk.splits)
    with InAddFile show ?thesis by (intro add_line) (auto simp: strip_prefix_Some)
  qed
next
  case InDeleteFile
  with assms have "handle_hunk_headers_and_end_patch p (trim line) = Ok (p', True)"
    by (auto simp: process_line_def Let_def result_bind_Ok split: if_splits)
  with InDeleteFile show ?thesis by (intro header) auto
next
  case (InUpdateFile n)
  with assms obtain q b where h: "handle_hunk_headers_and_end_patch p (trim_end line) = Ok (q, b)"
    by (auto simp: process_line_def Let_def result_bind_Ok)
  show ?thesis
  proof (cases b)
    case True
    with assms InUpdateFile h show ?thesis by (intro header) (auto simp: process_line_def Let_def)
  next
    case False
    with assms InUpdateFile h show ?thesis
      by (auto simp: process_line_def Let_def result_bind_Ok
          intro: update_line split: option.splits hunk.splits)
  qed
next
  case EndedPatch
  with assms show ?thesis by (intro blank) (auto simp: process_line_def split: if_splits)
qed

lemma process_line_inv:
  assumes "process_line p line = Ok p'" and inv: "parser_inv p" and lf: "LF \<notin> set line"
  shows "parser_inv p'"
  using assms(1)
proof (cases rule: process_line_cases)
  case start
  with inv show ?thesis by (auto simp: parser_inv_def last_hunk_ok_def split: option.splits)
next
  case (header s)
  moreover have "s = [] \<or> \<not> is_whitespace (last s)" "LF \<notin> set s"
    using header(2) lf set_trim set_trim_end trim_last trim_end_last by blast+
  ultimately show ?thesis using handle_headers_inv inv by blast
next
  case (add_line path contents l)
  with inv show ?thesis by (auto simp: parser_inv_def last_opt_eq_Some)
next
  case (update_line n path mv cs mv' cs')
  with inv have "open_chunks_ok cs'" "\<forall>q. mv' = Some q \<longrightarrow> path_ok q"
    by (auto simp: parser_inv_def last_opt_eq_Some update_chunks_open_ok
        intro: update_chunks_move_ok [OF _ lf])
  with update_line inv show ?thesis by (auto simp: parser_inv_def last_opt_eq_Some)
qed (use inv in simp)

section \<open>Runs of the parser\<close>

lemma end_line_inv: "parser_inv p \<Longrightarrow> parser_inv (end_line p)"
  by (simp add: parser_inv_def end_line_def)

lemma default_parser_inv: "parser_inv default_parser"
  by (simp add: parser_inv_def default_parser_def env_ok_def)

lemma parser_inv_buffer: "parser_inv p \<Longrightarrow> LF \<notin> set (line_buffer p)"
  by (simp add: parser_inv_def)

lemma push_chars_inv: "push_chars p delta = (p', r) \<Longrightarrow> parser_inv p \<Longrightarrow> parser_inv p'"
proof (induction p delta rule: push_chars.induct)
  case (2 p ch delta)
  show ?case
  proof (cases "ch = LF")
    case True
    have lf: "LF \<notin> set (strip_cr (line_buffer p))"
      using "2.prems" parser_inv_buffer set_strip_cr by blast
    show ?thesis
    proof (cases "process_line (end_line p) (strip_cr (line_buffer p))")
      case (Inl e)
      with True "2.prems" show ?thesis by (auto intro: end_line_inv)
    next
      case (Inr q)
      with True "2.prems" have "push_chars q delta = (p', r)" by simp
      moreover have "parser_inv q"
        using process_line_inv [OF Inr end_line_inv lf] "2.prems"(2) by simp
      ultimately show ?thesis using "2.IH"(1) True Inr by blast
    qed
  next
    case False
    with "2.prems" have "parser_inv (p\<lparr>line_buffer := line_buffer p @ [ch]\<rparr>)"
      by (auto simp: parser_inv_def)
    with False "2.IH"(2) "2.prems" show ?thesis by auto
  qed
qed simp

lemma push_chars_append:
  "push_chars p (a @ b) =
     (case push_chars p a of (p', Err e) \<Rightarrow> (p', Err e) | (p', Ok _) \<Rightarrow> push_chars p' b)"
  by (induction p a rule: push_chars.induct) (auto split: sum.splits)

lemma push_delta_append:
  "push_delta p (a @ b) =
     (case push_delta p a of (p', Err e) \<Rightarrow> (p', Err e) | (p', Ok _) \<Rightarrow> push_delta p' b)"
  by (auto simp: push_delta_def push_chars_append split: prod.splits sum.splits)

lemma finish_line_inv: "finish_line p = (p', r) \<Longrightarrow> parser_inv p \<Longrightarrow> parser_inv p'"
  by (auto simp: finish_line_def Let_def
      intro: end_line_inv parser_inv_end [OF end_line_inv]
             process_line_inv [OF _ end_line_inv parser_inv_buffer]
      split: if_splits sum.splits)

lemma finish_wf:
  assumes "finish p = (p', Ok hs)" "parser_inv p"
  shows "\<forall>h \<in> set hs. wf_hunk h" "env_ok (environment_id (state p'))" "hs = hunks (state p')"
proof -
  from assms(1) have fl: "finish_line p = (p', Ok ())" and m: "mode (state p') = EndedPatch"
    and hs: "hs = hunks (state p')"
    by (auto simp: finish_def split: prod.splits sum.splits if_splits)
  from finish_line_inv [OF fl assms(2)] m show "\<forall>h \<in> set hs. wf_hunk h"
    unfolding hs by (cases "hunks (state p')" rule: rev_cases) (auto simp: parser_inv_def)
  from finish_line_inv [OF fl assms(2)] show "env_ok (environment_id (state p'))"
    by (simp add: parser_inv_def)
  show "hs = hunks (state p')" by (rule hs)
qed

lemma parse_patch_text_run:
  assumes "parse_patch_text s md = Ok a"
  obtains p r p' where "push_delta default_parser (args_patch a) = (p, Ok r)"
    "finish p = (p', Ok (args_hunks a))" "args_environment_id a = environment_id (state p')"
    "args_workdir a = None"
proof -
  from assms obtain ls where *: "(let patch = join [LF] ls in
          case push_delta default_parser patch of
            (p, Err e) \<Rightarrow> Err e
          | (p, Ok _) \<Rightarrow>
              (case finish p of
                 (p', Err e) \<Rightarrow> Err e
               | (p', Ok hs) \<Rightarrow>
                   Ok \<lparr>args_patch = patch, args_hunks = hs, args_workdir = None,
                       args_environment_id = environment_id (state p')\<rparr>)) = Ok a"
    unfolding parse_patch_text_def result_bind_Ok by blast
  obtain p r where pd: "push_delta default_parser (join [LF] ls) = (p, r)" by fastforce
  obtain p' r' where fin: "finish p = (p', r')" by fastforce
  from * pd fin obtain r0 where "r = Ok r0" by (cases r) auto
  moreover from * pd fin this obtain hs where "r' = Ok hs" by (cases r') auto
  ultimately show thesis using * pd fin by (intro that [of p r0 p']) auto
qed

text \<open>
  C10: every hunk of a patch that parses is well-formed: its paths are non-empty and have no
  trailing whitespace or line feed, an update hunk has chunks and every chunk has lines, the
  recorded context positions are strictly increasing on both sides and point at equal lines of the
  old and the new side; an environment id is trimmed and not empty.
\<close>

theorem parse_patch_wf:
  assumes "parse_patch s = Ok a"
  shows "(\<forall>h \<in> set (args_hunks a). wf_hunk h) \<and> env_ok (args_environment_id a)"
proof -
  from assms obtain p r p' where pd: "push_delta default_parser (args_patch a) = (p, Ok r)"
    and fin: "finish p = (p', Ok (args_hunks a))" "args_environment_id a = environment_id (state p')"
    unfolding parse_patch_def by (elim parse_patch_text_run)
  from pd have "parser_inv p"
    by (auto simp: push_delta_def split: prod.splits sum.splits intro: push_chars_inv default_parser_inv)
  with finish_wf [OF fin(1)] fin(2) show ?thesis by simp
qed

definition sample_patch :: ustring where
  "sample_patch = join [LF]
     [str ''*** Begin Patch'', str ''*** Environment ID: local'', str ''*** Add File: a.txt'', str ''+hello'',
      str ''*** Update File: src/b.txt'', str ''*** Move to: src/c.txt'', str ''@@ fn main'',
      str '' keep'', str ''-old'', str ''+new'', str ''*** End of File'',
      str ''*** Delete File: d.txt'', str ''*** End Patch'']"

theorem parse_patch_wf_witness:
  "is_ok (parse_patch sample_patch) \<and>
   length (args_hunks (projr (parse_patch sample_patch))) = 3 \<and>
   list_all wf_hunk (args_hunks (projr (parse_patch sample_patch))) \<and>
   env_ok (args_environment_id (projr (parse_patch sample_patch)))"
proof -
  have "is_ok (parse_patch sample_patch)" by code_simp
  then have "parse_patch sample_patch = Ok (projr (parse_patch sample_patch))"
    by (cases "parse_patch sample_patch") simp_all
  moreover have "length (args_hunks (projr (parse_patch sample_patch))) = 3" by code_simp
  ultimately show ?thesis
    using parse_patch_wf [of sample_patch "projr (parse_patch sample_patch)"]
      \<open>is_ok (parse_patch sample_patch)\<close> unfolding list_all_iff by blast
qed

fun push_deltas ::
  "streaming_patch_parser \<Rightarrow> ustring list \<Rightarrow> streaming_patch_parser \<times> (hunk list, parse_error) result" where
  "push_deltas p [] = (p, Ok (hunks (state p)))"
| "push_deltas p (d # ds) =
     (case push_delta p d of (p', Err e) \<Rightarrow> (p', Err e) | (p', Ok _) \<Rightarrow> push_deltas p' ds)"


end
