(* ===== verification/Patch_Progress.thy ===== *)
theory Patch_Progress
  imports Patch_Parser
begin

text \<open>
  What a client that streams a patch sees: the hunk lists that \<open>push_delta\<close> returns
  (\<open>codex-rs/apply-patch/src/streaming_parser.rs\<close>) only grow, and the modes of the parser follow
  a fixed step relation. The interface \<open>growth\<close> holds the laws of a growing element and lifts
  them to lists; it is interpreted for chunks and for hunks.
\<close>

section \<open>Progress events are never retracted\<close>

definition list_extends :: "('a \<Rightarrow> 'a \<Rightarrow> bool) \<Rightarrow> 'a list \<Rightarrow> 'a list \<Rightarrow> bool" where
  "list_extends R xs ys \<longleftrightarrow> xs = [] \<or> (\<exists>y zs. ys = butlast xs @ y # zs \<and> R (last xs) y)"

text \<open>
  A relation of growth is a preorder; the lists whose finished elements are kept and whose last one
  may grow are again ordered by growth.
\<close>

locale growth =
  fixes R :: "'a \<Rightarrow> 'a \<Rightarrow> bool"
  assumes grow_refl: "R x x"
    and grow_trans: "R x y \<Longrightarrow> R y z \<Longrightarrow> R x z"
begin

lemma extends_refl: "list_extends R xs xs"
  by (cases xs rule: rev_cases) (auto simp: list_extends_def grow_refl)

lemma extends_append: "list_extends R xs (xs @ ys)"
  by (cases xs rule: rev_cases) (auto simp: list_extends_def grow_refl)

lemma extends_last: "R x y \<Longrightarrow> list_extends R (xs @ [x]) (xs @ [y])"
  by (simp add: list_extends_def)

lemma extends_modify_last: "(\<And>x. R x (f x)) \<Longrightarrow> list_extends R xs (modify_last f xs)"
  by (cases xs rule: rev_cases) (simp_all add: list_extends_def)

lemma extends_trans:
  assumes "list_extends R xs ys" "list_extends R ys zs"
  shows "list_extends R xs zs"
proof (cases "xs = []")
  case False
  with assms(1) obtain y us where ys: "ys = butlast xs @ y # us" "R (last xs) y"
    by (auto simp: list_extends_def)
  with assms(2) obtain z ws where zs: "zs = butlast ys @ z # ws" "R (last ys) z"
    by (auto simp: list_extends_def)
  show ?thesis
  proof (cases us rule: rev_cases)
    case Nil
    with ys zs have "zs = butlast xs @ z # ws" "R (last xs) z"
      using grow_trans by (auto simp: butlast_append)
    then show ?thesis by (auto simp: list_extends_def)
  next
    case (snoc vs v)
    with ys have "butlast ys = butlast xs @ y # vs" by (simp add: butlast_append)
    with ys zs show ?thesis by (auto simp: list_extends_def)
  qed
qed (simp add: list_extends_def)

end

definition chunk_extends :: "update_file_chunk \<Rightarrow> update_file_chunk \<Rightarrow> bool" where
  "chunk_extends c d \<longleftrightarrow>
     change_context d = change_context c \<and> prefix (old_lines c) (old_lines d) \<and>
     prefix (new_lines c) (new_lines d) \<and>
     prefix (context_line_indices c) (context_line_indices d) \<and>
     (is_end_of_file c \<longrightarrow> is_end_of_file d)"

fun hunk_extends :: "hunk \<Rightarrow> hunk \<Rightarrow> bool" where
  "hunk_extends (AddFile p c) (AddFile q d) = (p = q \<and> prefix c d)"
| "hunk_extends (DeleteFile p) (DeleteFile q) = (p = q)"
| "hunk_extends (UpdateFile p m cs) (UpdateFile q n ds) =
     (p = q \<and> (m \<noteq> None \<longrightarrow> n = m) \<and> list_extends chunk_extends cs ds)"
| "hunk_extends _ _ = False"

interpretation chunk_growth: growth chunk_extends
  by unfold_locales (auto simp: chunk_extends_def)

interpretation hunk_growth: growth hunk_extends
proof
  show "hunk_extends h h" for h
    by (cases h) (auto intro: chunk_growth.extends_refl)
  show "hunk_extends x y \<Longrightarrow> hunk_extends y z \<Longrightarrow> hunk_extends x z" for x y z
    by (cases x; cases y; cases z) (auto intro: chunk_growth.extends_trans)
qed

lemma update_chunks_grow:
  assumes "update_chunks n l mv cs = Ok (mv', cs')"
  shows "mv = Some q \<Longrightarrow> mv' = Some q" and "list_extends chunk_extends cs cs'"
proof -
  have "list_extends chunk_extends cs (modify_last f (open_chunk cs))"
    if "\<And>c. chunk_extends c (f c)" for f
    using that chunk_growth.extends_modify_last [of f cs]
    by (auto simp: open_chunk_def list_extends_def)
  then show "list_extends chunk_extends cs cs'"
    using assms
    by (auto simp: update_chunks_def Let_def
        intro!: chunk_growth.extends_refl chunk_growth.extends_append chunk_growth.extends_modify_last
        simp: chunk_extends_def push_context_line_def
        split: if_splits option.splits)
  show "mv = Some q \<Longrightarrow> mv' = Some q"
    using assms by (auto simp: update_chunks_def Let_def split: if_splits option.splits)
qed

lemma handle_headers_grow:
  assumes "handle_hunk_headers_and_end_patch p s = Ok (p', b)"
  shows "list_extends hunk_extends (hunks (state p)) (hunks (state p'))"
  using assms
  by (cases rule: handle_headers_cases) (auto intro: hunk_growth.extends_refl hunk_growth.extends_append)

lemma process_line_grow:
  assumes "process_line p l = Ok p'"
  shows "list_extends hunk_extends (hunks (state p)) (hunks (state p'))"
  using assms
proof (cases rule: process_line_cases)
  case (update_line n path mv cs mv' cs')
  then have "hunk_extends (UpdateFile path mv cs) (UpdateFile path mv' cs')"
    using update_chunks_grow [OF update_line(3)] by auto
  from hunk_growth.extends_last [OF this] update_line(2,4) show ?thesis
    by (auto simp: last_opt_eq_Some simp del: hunk_extends.simps)
qed (auto simp: last_opt_eq_Some
      intro!: hunk_growth.extends_refl hunk_growth.extends_last intro: handle_headers_grow)

lemma push_chars_grow:
  "push_chars p delta = (p', r) \<Longrightarrow> list_extends hunk_extends (hunks (state p)) (hunks (state p'))"
proof (induction p delta rule: push_chars.induct)
  case (2 p ch delta)
  have [simp]: "hunks (state (end_line p)) = hunks (state p)" by (simp add: end_line_def)
  from 2 show ?case
    by (auto split: if_splits sum.splits
        intro: hunk_growth.extends_refl hunk_growth.extends_trans dest!: process_line_grow)
qed (auto intro: hunk_growth.extends_refl)

text \<open>
  the progress a streaming client sees only grows: after a delta, also one that ends in an
  error, the hunks reported before are a prefix of the new ones up to the last, and the last one was
  extended only (more file contents, more chunks, more lines in the last chunk, a move target set
  once).
\<close>

theorem push_delta_grow:
  "push_delta p delta = (p', r) \<Longrightarrow> list_extends hunk_extends (hunks (state p)) (hunks (state p'))"
  by (auto simp: push_delta_def push_chars_grow split: prod.splits sum.splits)

theorem push_delta_grow_witness:
  "hunks (state (fst (push_delta default_parser sample_patch))) \<noteq> [] \<and>
   list_extends hunk_extends (hunks (state default_parser))
     (hunks (state (fst (push_delta default_parser sample_patch))))"
proof -
  have "hunks (state (fst (push_delta default_parser sample_patch))) \<noteq> []" by code_simp
  with push_delta_grow [of default_parser sample_patch, OF prod.collapse [symmetric]] show ?thesis
    by simp
qed

inductive mode_step :: "streaming_parser_mode \<Rightarrow> streaming_parser_mode \<Rightarrow> bool" where
  begin_patch: "mode_step NotStarted StartedPatch"
| environment: "mode_step StartedPatch StartedPatch"
| header: "m \<notin> {NotStarted, EndedPatch} \<Longrightarrow> m' \<notin> {NotStarted, StartedPatch, EndedPatch} \<Longrightarrow> mode_step m m'"
| end_patch: "m \<notin> {NotStarted, EndedPatch} \<Longrightarrow> mode_step m EndedPatch"
| hunk_line: "m \<notin> {NotStarted, StartedPatch, EndedPatch} \<Longrightarrow> mode_step m m"
| blank_after_end: "mode_step EndedPatch EndedPatch"

lemma process_line_mode_step:
  assumes "process_line p l = Ok p'"
  shows "mode_step (mode (state p)) (mode (state p'))"
  using assms
proof (cases rule: process_line_cases)
  case (header s)
  from header(3) show ?thesis
    by (cases rule: handle_headers_cases) (use header(1) in \<open>auto intro: mode_step.intros\<close>)
qed (auto intro: mode_step.intros)

lemma push_chars_modes:
  "push_chars p delta = (p', r) \<Longrightarrow> mode_step\<^sup>*\<^sup>* (mode (state p)) (mode (state p'))"
proof (induction p delta rule: push_chars.induct)
  case (2 p ch delta)
  have [simp]: "mode (state (end_line p)) = mode (state p)" by (simp add: end_line_def)
  from 2 show ?case
    by (auto split: if_splits sum.splits dest!: process_line_mode_step
        intro: converse_rtranclp_into_rtranclp)
qed auto

inductive_cases mode_step_endedE: "mode_step EndedPatch m"
inductive_cases mode_step_to_startE: "mode_step m NotStarted"
inductive_cases mode_step_from_startE: "mode_step NotStarted m"

lemma ended_stays: "mode_step\<^sup>*\<^sup>* m m' \<Longrightarrow> m = EndedPatch \<Longrightarrow> m' = EndedPatch"
  by (induction rule: rtranclp_induct) (auto elim: mode_step_endedE)

lemma never_restarts: "mode_step\<^sup>*\<^sup>* m m' \<Longrightarrow> m \<noteq> NotStarted \<Longrightarrow> m' \<noteq> NotStarted"
  by (induction rule: rtranclp_induct) (auto elim: mode_step_to_startE)

text \<open>
  the modes of the streaming parser follow its state machine: any delta takes it along
  \<open>mode_step\<close> steps only, so a patch that has ended stays ended and one that has begun never
  returns to the state before the begin marker.
\<close>

theorem push_delta_modes:
  assumes "push_delta p delta = (p', r)"
  shows "mode_step\<^sup>*\<^sup>* (mode (state p)) (mode (state p')) \<and>
    (mode (state p) = EndedPatch \<longrightarrow> mode (state p') = EndedPatch) \<and>
    (mode (state p) \<noteq> NotStarted \<longrightarrow> mode (state p') \<noteq> NotStarted)"
proof -
  have "mode_step\<^sup>*\<^sup>* (mode (state p)) (mode (state p'))"
    using assms by (auto simp: push_delta_def push_chars_modes split: prod.splits sum.splits)
  with ended_stays never_restarts show ?thesis by blast
qed

theorem push_delta_modes_witness:
  "mode (state (fst (push_delta default_parser sample_patch))) = InDeleteFile \<and>
   mode_step\<^sup>*\<^sup>* NotStarted InDeleteFile"
proof -
  have m: "mode (state (fst (push_delta default_parser sample_patch))) = InDeleteFile" by code_simp
  have "mode (state default_parser) = NotStarted" by (simp add: default_parser_def)
  with m push_delta_modes [of default_parser sample_patch, OF prod.collapse [symmetric]] show ?thesis
    by simp
qed

end
