(* ===== verification/Patch_Seek.thy ===== *)
theory Patch_Seek
  imports Patch_Parser
begin

text \<open>
  Locating the lines of a chunk in a file: \<open>codex-rs/apply-patch/src/seek_sequence.rs\<close>. The four
  passes of the search (verbatim, without trailing whitespace, without surrounding whitespace, with
  typographic punctuation mapped to ASCII) are instances of one pass with a line normaliser.
\<close>

section \<open>Finding a sequence of lines (seek\_sequence.rs)\<close>

datatype update_mode = NormalizeToLf | PreserveLineEndings

definition normalise_char :: "uchar \<Rightarrow> uchar" where
  "normalise_char c =
     (if c \<in> {0x2010, 0x2011, 0x2012, 0x2013, 0x2014, 0x2015, 0x2212} then 45
      else if c \<in> {0x2018, 0x2019, 0x201A, 0x201B} then 39
      else if c \<in> {0x201C, 0x201D, 0x201E, 0x201F} then 34
      else if c \<in> {0x00A0, 0x2002, 0x2003, 0x2004, 0x2005, 0x2006, 0x2007, 0x2008, 0x2009, 0x200A,
                   0x202F, 0x205F, 0x3000} then 32
      else c)"

definition normalise :: "ustring \<Rightarrow> ustring" where
  "normalise s = map normalise_char (trim s)"

text \<open>
  One pass of the search: the first index from \<open>search_start\<close> to \<open>lines.len() - pattern.len()\<close> at
  which every line of the pattern agrees with the file after \<open>f\<close>.
\<close>

definition matches_at :: "(ustring \<Rightarrow> ustring) \<Rightarrow> ustring list \<Rightarrow> ustring list \<Rightarrow> nat \<Rightarrow> bool" where
  "matches_at f ls pattern i \<longleftrightarrow>
     list_all2 (\<lambda>l pat. f l = f pat) (take (length pattern) (drop i ls)) pattern"

definition seek_pass :: "(ustring \<Rightarrow> ustring) \<Rightarrow> ustring list \<Rightarrow> ustring list \<Rightarrow> nat \<Rightarrow> nat option" where
  "seek_pass f ls pattern search_start =
     List.find (matches_at f ls pattern) [search_start ..< Suc (length ls - length pattern)]"

definition search_start :: "ustring list \<Rightarrow> ustring list \<Rightarrow> nat \<Rightarrow> bool \<Rightarrow> update_mode \<Rightarrow> nat" where
  "search_start ls pattern start eof md =
     (if eof \<and> length ls \<ge> length pattern then
        (let eof_start = length ls - length pattern
         in case md of NormalizeToLf \<Rightarrow> eof_start | PreserveLineEndings \<Rightarrow> max eof_start start)
      else start)"

definition seek_sequence ::
  "ustring list \<Rightarrow> ustring list \<Rightarrow> nat \<Rightarrow> bool \<Rightarrow> update_mode \<Rightarrow> nat option" where
  "seek_sequence ls pattern start eof md =
     (if pattern = [] then Some start
      else if length pattern > length ls then None
      else
        (let s = search_start ls pattern start eof md
         in case seek_pass id ls pattern s of Some i \<Rightarrow> Some i
          | None \<Rightarrow> (case seek_pass trim_end ls pattern s of Some i \<Rightarrow> Some i
          | None \<Rightarrow> (case seek_pass trim ls pattern s of Some i \<Rightarrow> Some i
          | None \<Rightarrow> seek_pass normalise ls pattern s))))"

lemma seek_pass_Some:
  "seek_pass f ls pat s = Some i \<longleftrightarrow>
     s \<le> i \<and> i \<le> length ls - length pat \<and> matches_at f ls pat i \<and>
     (\<forall>j. s \<le> j \<and> j < i \<longrightarrow> \<not> matches_at f ls pat j)"
  unfolding seek_pass_def find_upt_Some by (auto simp: less_Suc_eq_le)

lemma seek_pass_None:
  "seek_pass f ls pat s = None \<longleftrightarrow>
     (\<forall>i. s \<le> i \<and> i \<le> length ls - length pat \<longrightarrow> \<not> matches_at f ls pat i)"
  unfolding seek_pass_def find_upt_None by (auto simp: less_Suc_eq_le)

lemma matches_at_mono:
  "matches_at f ls pat i \<Longrightarrow> (\<And>a b. f a = f b \<Longrightarrow> g a = g b) \<Longrightarrow> matches_at g ls pat i"
  unfolding matches_at_def by (erule list_all2_mono)

lemma matches_at_trim_end: "matches_at id ls pat i \<Longrightarrow> matches_at trim_end ls pat i"
  by (erule matches_at_mono) simp

lemma matches_at_trim: "matches_at trim_end ls pat i \<Longrightarrow> matches_at trim ls pat i"
  by (erule matches_at_mono) (metis trim_trim_end)

lemma matches_at_normalise: "matches_at trim ls pat i \<Longrightarrow> matches_at normalise ls pat i"
  by (erule matches_at_mono) (simp add: normalise_def)

lemmas matches_at_weaken = matches_at_trim_end matches_at_trim matches_at_normalise

lemma matches_at_id: "matches_at id ls pat i \<longleftrightarrow> take (length pat) (drop i ls) = pat"
  by (simp add: matches_at_def list.rel_eq)

lemma seek_sequence_sound:
  assumes "seek_sequence ls pat start eof md = Some i" "pat \<noteq> []"
  shows "i + length pat \<le> length ls" "search_start ls pat start eof md \<le> i"
    "matches_at normalise ls pat i"
proof -
  have len: "length pat \<le> length ls"
    using assms by (auto simp: seek_sequence_def split: if_splits)
  have "\<exists>f. seek_pass f ls pat (search_start ls pat start eof md) = Some i \<and>
      (matches_at f ls pat i \<longrightarrow> matches_at normalise ls pat i)"
    using assms matches_at_weaken
    by (auto simp: seek_sequence_def Let_def split: if_splits option.splits)
  then show "i + length pat \<le> length ls" "search_start ls pat start eof md \<le> i"
    "matches_at normalise ls pat i"
    using len by (auto simp: seek_pass_Some)
qed



text \<open>
  a pattern marked as end of file is only ever found at the very end of the file: if it is not
  there, the search fails although the pattern may occur at or after \<open>start\<close> (the comment above the
  function promises to fall back to a search from \<open>start\<close>).
\<close>

theorem seek_sequence_eof_no_fallback:
  "seek_sequence ls pat start True md = Some i \<Longrightarrow> pat \<noteq> [] \<Longrightarrow> i = length ls - length pat"
proof -
  assume s: "seek_sequence ls pat start True md = Some i" "pat \<noteq> []"
  note snd = seek_sequence_sound [OF s]
  then have "length ls - length pat \<le> search_start ls pat start True md"
    by (auto simp: search_start_def Let_def split: update_mode.splits)
  with snd show ?thesis by simp
qed

theorem seek_sequence_eof_no_fallback_witness:
  "seek_sequence [str ''a'', str ''b''] [str ''b''] 0 True NormalizeToLf = Some (2 - 1) \<and>
   seek_sequence [str ''a'', str ''b''] [str ''a''] 0 True NormalizeToLf = None \<and>
   seek_sequence [str ''a'', str ''b''] [str ''a''] 0 False NormalizeToLf = Some 0"
proof -
  have r: "seek_sequence [str ''a'', str ''b''] [str ''b''] 0 True NormalizeToLf = Some 1" by code_simp
  have "seek_sequence [str ''a'', str ''b''] [str ''a''] 0 True NormalizeToLf = None"
    "seek_sequence [str ''a'', str ''b''] [str ''a''] 0 False NormalizeToLf = Some 0" by code_simp+
  with r seek_sequence_eof_no_fallback [OF r] show ?thesis by simp
qed

end
