(* ===== verification/Patch_Text.thy ===== *)
theory Patch_Text
  imports Patch_Seek
begin

text \<open>
  Files as lines: the abstract edit by replacements that both update modes implement, the source
  file with its line endings (\<open>codex-rs/apply-patch/src/text_file.rs\<close>), and the in-place edit of a
  vector of lines (\<open>apply_replacements\<close> of \<open>file_update.rs\<close>). The locale \<open>line_editor\<close> is what
  the patch engine needs of either; both are instances.
\<close>

section \<open>Line edits\<close>

type_synonym 'a replacement = "nat \<times> nat \<times> 'a list"

text \<open>
  The abstract edit that both update modes implement: replacements in source order, each one taking
  \<open>old_len\<close> elements away at its start index and putting its segment there.
\<close>

fun splice_lines :: "nat \<Rightarrow> 'a list \<Rightarrow> 'a replacement list \<Rightarrow> 'a list" where
  "splice_lines i xs [] = xs"
| "splice_lines i xs ((s, k, seg) # reps) = take (s - i) xs @ seg @ splice_lines (s + k) (drop (s + k - i) xs) reps"

abbreviation rep_end :: "'a replacement \<Rightarrow> nat" where
  "rep_end r \<equiv> fst r + fst (snd r)"

fun valid_reps :: "nat \<Rightarrow> nat \<Rightarrow> 'a replacement list \<Rightarrow> bool" where
  "valid_reps i n [] \<longleftrightarrow> i \<le> n"
| "valid_reps i n ((s, k, seg) # reps) \<longleftrightarrow> i \<le> s \<and> valid_reps (s + k) n reps"

lemma valid_reps_le: "valid_reps i n reps \<Longrightarrow> i \<le> n"
  by (induction i n reps rule: valid_reps.induct) auto

lemma valid_reps_append:
  "valid_reps i n reps \<Longrightarrow> valid_reps n m reps' \<Longrightarrow> valid_reps i m (reps @ reps')"
proof (induction i n reps rule: valid_reps.induct)
  case (1 i n)
  then show ?case by (cases reps') auto
qed auto

lemma valid_reps_mono: "valid_reps j n reps \<Longrightarrow> i \<le> j \<Longrightarrow> n \<le> m \<Longrightarrow> valid_reps i m reps"
  by (induction j n reps arbitrary: i rule: valid_reps.induct) auto

lemma splice_map:
  "splice_lines i (map f xs) (map (\<lambda>(s, k, seg). (s, k, map f seg)) reps) = map f (splice_lines i xs reps)"
  by (induction i xs reps rule: splice_lines.induct) (auto simp: take_map drop_map)

section \<open>Files with their line endings (text\_file.rs)\<close>

datatype line_ending = Lf | CrLf | Cr

fun ending_str :: "line_ending \<Rightarrow> ustring" where
  "ending_str Lf = [LF]"
| "ending_str CrLf = [CR, LF]"
| "ending_str Cr = [CR]"

record source_line =
  sl_text :: ustring
  sl_ending :: "line_ending option"

record source_file =
  sf_lines :: "source_line list"
  preferred_ending :: line_ending

definition get_or_insert :: "'a option \<Rightarrow> 'a \<Rightarrow> 'a option" where
  "get_or_insert x d = (case x of None \<Rightarrow> Some d | Some y \<Rightarrow> Some y)"

text \<open>
  The scan of \<open>parse\<close>: \<open>cur\<close> is the slice from \<open>line_start\<close> to \<open>cursor\<close>. The bytes it looks for are
  ASCII, so scanning code points finds the same places as scanning bytes.
\<close>

function parse_loop ::
  "source_line list \<Rightarrow> line_ending option \<Rightarrow> ustring \<Rightarrow> ustring \<Rightarrow>
   source_line list \<times> line_ending option \<times> ustring" where
  "parse_loop ls pref cur [] = (ls, pref, cur)"
| "parse_loop ls pref cur (c # cs) =
     (if c = CR \<and> first_opt cs = Some LF then
        parse_loop (ls @ [\<lparr>sl_text = cur, sl_ending = Some CrLf\<rparr>]) (get_or_insert pref CrLf) [] (tl cs)
      else if c = CR then
        parse_loop (ls @ [\<lparr>sl_text = cur, sl_ending = Some Cr\<rparr>]) (get_or_insert pref Cr) [] cs
      else if c = LF then
        parse_loop (ls @ [\<lparr>sl_text = cur, sl_ending = Some Lf\<rparr>]) (get_or_insert pref Lf) [] cs
      else parse_loop ls pref (cur @ [c]) cs)"
  by pat_completeness auto
termination
  by (relation "measure (\<lambda>(ls, pref, cur, rest). length rest)") (auto simp: less_Suc_eq_le)

definition sf_parse :: "ustring \<Rightarrow> source_file" where
  "sf_parse contents =
     (case parse_loop [] None [] contents of
        (ls, pref, cur) \<Rightarrow>
          \<lparr>sf_lines = ls @ (if cur \<noteq> [] then [\<lparr>sl_text = cur, sl_ending = None\<rparr>] else []),
           preferred_ending = (case pref of None \<Rightarrow> Lf | Some e \<Rightarrow> e)\<rparr>)"

definition line_texts :: "source_file \<Rightarrow> ustring list" where
  "line_texts f = map sl_text (sf_lines f)"

text \<open>
  The replacement loop; a start index below the lines already consumed is a failed assertion (an
  underflowing subtraction in the code), here \<open>None\<close>.
\<close>

fun replace_loop ::
  "line_ending \<Rightarrow> nat \<Rightarrow> source_line list \<Rightarrow> ustring replacement list \<Rightarrow> source_line list option" where
  "replace_loop pref source_index src [] = Some src"
| "replace_loop pref source_index src ((start_idx, old_len, new_segment) # reps) =
     (if start_idx < source_index then None
      else
        (let rest = drop (start_idx - source_index) src
         in map_option
              (\<lambda>out. take (start_idx - source_index) src @
                 map (\<lambda>t. \<lparr>sl_text = t, sl_ending = Some pref\<rparr>) new_segment @ out)
              (replace_loop pref (start_idx + old_len) (drop old_len rest) reps)))"

definition sf_apply_replacements :: "source_file \<Rightarrow> ustring replacement list \<Rightarrow> source_file option" where
  "sf_apply_replacements f reps =
     map_option
       (\<lambda>ls. f\<lparr>sf_lines :=
          map (\<lambda>l. l\<lparr>sl_ending := get_or_insert (sl_ending l) (preferred_ending f)\<rparr>) ls\<rparr>)
       (replace_loop (preferred_ending f) 0 (sf_lines f) reps)"

definition line_str :: "source_line \<Rightarrow> ustring" where
  "line_str l = sl_text l @ (case sl_ending l of None \<Rightarrow> [] | Some e \<Rightarrow> ending_str e)"

definition into_contents :: "source_file \<Rightarrow> ustring" where
  "into_contents f = concat (map line_str (sf_lines f))"

lemma parse_loop_contents:
  "parse_loop ls pref cur s = (ls', pref', cur') \<Longrightarrow>
   concat (map line_str ls') @ cur' = concat (map line_str ls) @ cur @ s"
proof (induction ls pref cur s rule: parse_loop.induct)
  case (2 ls pref cur c cs)
  then show ?case by (cases cs) (auto simp: line_str_def split: if_splits)
qed simp

lemma parse_loop_texts:
  assumes "parse_loop ls pref cur s = (ls', pref', cur')"
    and "\<forall>l \<in> set ls. LF \<notin> set (sl_text l) \<and> CR \<notin> set (sl_text l) \<and> sl_ending l \<noteq> None"
    and "LF \<notin> set cur" "CR \<notin> set cur"
  shows "(\<forall>l \<in> set ls'. LF \<notin> set (sl_text l) \<and> CR \<notin> set (sl_text l) \<and> sl_ending l \<noteq> None) \<and>
    LF \<notin> set cur' \<and> CR \<notin> set cur'"
  using assms
proof (induction ls pref cur s rule: parse_loop.induct)
  case (2 ls pref cur c cs)
  then show ?case by (auto split: if_splits)
qed simp

text \<open>
  splitting a file into lines with their endings and writing it back is the identity; no line
  text holds a line break, and only the last line may lack an ending.
\<close>

theorem sf_parse_round_trip:
  "into_contents (sf_parse s) = s \<and>
   (\<forall>t \<in> set (line_texts (sf_parse s)). LF \<notin> set t \<and> CR \<notin> set t) \<and>
   (\<forall>l \<in> set (butlast (sf_lines (sf_parse s))). sl_ending l \<noteq> None)"
proof -
  obtain ls pref cur where p: "parse_loop [] None [] s = (ls, pref, cur)" by (metis prod_cases3)
  from parse_loop_contents [OF p] parse_loop_texts [OF p] p show ?thesis
    by (auto simp: sf_parse_def into_contents_def line_texts_def line_str_def dest: in_set_butlastD)
qed

theorem sf_parse_round_trip_witness:
  "line_texts (sf_parse (str ''a'' @ [CR, LF] @ str ''b'')) = [str ''a'', str ''b''] \<and>
   into_contents (sf_parse (str ''a'' @ [CR, LF] @ str ''b'')) = str ''a'' @ [CR, LF] @ str ''b''"
proof -
  have "line_texts (sf_parse (str ''a'' @ [CR, LF] @ str ''b'')) = [str ''a'', str ''b'']" by code_simp
  with sf_parse_round_trip [of "str ''a'' @ [CR, LF] @ str ''b''"] show ?thesis by simp
qed

text \<open>The replacement loop is the abstract edit on lines that carry endings.\<close>

lemma replace_loop_splice:
  assumes "valid_reps i n reps" "length src = n - i"
  shows "replace_loop pref i src reps =
    Some (splice_lines i src (map (\<lambda>(s, k, seg). (s, k, map (\<lambda>t. \<lparr>sl_text = t, sl_ending = Some pref\<rparr>) seg)) reps))"
  using assms
proof (induction i n reps arbitrary: src rule: valid_reps.induct)
  case (2 i n s k seg reps)
  then have le: "s + k \<le> n" using valid_reps_le by auto
  have "drop k (drop (s - i) src) = drop (s + k - i) src"
    using "2.prems" by (simp add: add.commute)
  with 2 le show ?case by (simp add: Let_def)
qed simp

section \<open>Updating a file (file\_update.rs)\<close>

text \<open>\<open>apply_replacements\<close> edits the vector of lines in place, from the last replacement to the first.\<close>

fun remove_lines :: "nat \<Rightarrow> nat \<Rightarrow> 'a list \<Rightarrow> 'a list" where
  "remove_lines 0 start_idx ls = ls"
| "remove_lines (Suc n) start_idx ls =
     remove_lines n start_idx
       (if start_idx < length ls then take start_idx ls @ drop (Suc start_idx) ls else ls)"

fun insert_lines :: "nat \<Rightarrow> 'a list \<Rightarrow> 'a list \<Rightarrow> 'a list option" where
  "insert_lines idx [] ls = Some ls"
| "insert_lines idx (x # xs) ls =
     (if idx > length ls then None \<comment> \<open>\<open>Vec::insert\<close> panics\<close>
      else insert_lines (Suc idx) xs (take idx ls @ x # drop idx ls))"

fun apply_rev :: "'a list \<Rightarrow> 'a replacement list \<Rightarrow> 'a list option" where
  "apply_rev ls [] = Some ls"
| "apply_rev ls ((start_idx, old_len, new_segment) # reps) =
     Option.bind (insert_lines start_idx new_segment (remove_lines old_len start_idx ls))
       (\<lambda>ls'. apply_rev ls' reps)"

definition apply_replacements :: "'a list \<Rightarrow> 'a replacement list \<Rightarrow> 'a list option" where
  "apply_replacements ls reps = apply_rev ls (rev reps)"

lemma remove_lines_eq: "remove_lines n i ls = take i ls @ drop (i + n) ls"
proof (induction n i ls rule: remove_lines.induct)
  case (2 n i ls)
  show ?case
  proof (cases "i < length ls")
    case True
    then have "remove_lines n i (take i ls @ drop (Suc i) ls) =
        take i (take i ls @ drop (Suc i) ls) @ drop (i + n) (take i ls @ drop (Suc i) ls)"
      using 2 by simp
    with True show ?thesis by (simp add: add.commute)
  next
    case False
    with 2 show ?thesis by simp
  qed
qed simp

lemma insert_lines_eq: "i \<le> length ls \<Longrightarrow> insert_lines i xs ls = Some (take i ls @ xs @ drop i ls)"
  by (induction i xs ls rule: insert_lines.induct) auto

lemma apply_rev_append:
  "apply_rev ls (xs @ ys) = Option.bind (apply_rev ls xs) (\<lambda>ls'. apply_rev ls' ys)"
  by (induction ls xs rule: apply_rev.induct) (auto split: bind_splits)

lemma apply_replacements_Cons:
  "apply_replacements ls (r # reps) = Option.bind (apply_replacements ls reps) (\<lambda>ls'. apply_rev ls' [r])"
  by (simp add: apply_replacements_def apply_rev_append)

lemma apply_rev_one:
  "s \<le> length ls \<Longrightarrow> apply_rev ls [(s, k, seg)] = Some (take s ls @ seg @ drop (s + k) ls)"
  by (simp add: remove_lines_eq insert_lines_eq)

lemma apply_replacements_take_splice:
  assumes "valid_reps i (length ls) reps"
  shows "apply_replacements ls reps = Some (take i ls @ splice_lines i (drop i ls) reps)"
  using assms
proof (induction reps arbitrary: i)
  case Nil
  then show ?case by (simp add: apply_replacements_def)
next
  case (Cons r reps)
  obtain s k seg where r: "r = (s, k, seg)" by (cases r)
  with Cons have v: "i \<le> s" "valid_reps (s + k) (length ls) reps" by auto
  then have le: "s + k \<le> length ls" using valid_reps_le by blast
  have "apply_replacements ls reps = Some (take (s + k) ls @ splice_lines (s + k) (drop (s + k) ls) reps)"
    using Cons.IH v by blast
  then have "apply_replacements ls (r # reps) =
      Some (take s ls @ seg @ splice_lines (s + k) (drop (s + k) ls) reps)"
    using le by (simp add: apply_replacements_Cons r apply_rev_one del: apply_rev.simps)
  moreover have "take s ls = take i ls @ take (s - i) (drop i ls)"
    using v(1) by (metis le_add_diff_inverse take_add)
  ultimately show ?case using v(1) by (simp add: r)
qed

text \<open>
  for replacements in source order that do not overlap, the in-place edit that runs backwards
  over the vector of lines computes the abstract edit, and never inserts out of bounds.
\<close>

theorem apply_replacements_splice:
  assumes "valid_reps 0 (length ls) reps"
  shows "apply_replacements ls reps = Some (splice_lines 0 ls reps)"
  using apply_replacements_take_splice [OF assms] by simp

theorem apply_replacements_splice_witness:
  "apply_replacements [1, 2, 3, 4 :: nat] [(0, 1, [10, 11]), (2, 2, [])] = Some [10, 11, 2]"
  using apply_replacements_splice [of "[1, 2, 3, 4 :: nat]" "[(0, 1, [10, 11]), (2, 2, [])]"] by simp

lemma splice_prefix:
  assumes "valid_reps i n reps" "length xs = n - i" "\<forall>r \<in> set reps. i + k \<le> fst r"
  shows "take k (splice_lines i xs reps) = take k xs"
proof (cases reps)
  case (Cons r reps')
  obtain s l seg where r: "r = (s, l, seg)" by (cases r)
  have "s + l \<le> n" using assms(1) valid_reps_le by (auto simp: Cons r)
  then have "min (length xs) (s - i) = s - i" "k \<le> s - i" using assms by (auto simp: Cons r)
  then show ?thesis by (simp add: Cons r min_absorb1)
qed simp

lemma splice_suffix:
  assumes "valid_reps i n reps" "length xs = n - i" "\<forall>r \<in> set reps. rep_end r \<le> i + k" "i + k \<le> n"
  shows "\<exists>pre. splice_lines i xs reps = pre @ drop k xs"
  using assms
proof (induction i n reps arbitrary: xs k rule: valid_reps.induct)
  case (1 i n)
  then show ?case by (metis append_take_drop_id splice_lines.simps(1))
next
  case (2 i n s l seg reps)
  have le: "i \<le> s" "s + l \<le> i + k" using "2.prems" by auto
  have "\<exists>pre. splice_lines (s + l) (drop (s + l - i) xs) reps = pre @ drop (k - (s + l - i)) (drop (s + l - i) xs)"
    using "2.prems" le by (intro "2.IH") auto
  moreover have "drop (k - (s + l - i)) (drop (s + l - i) xs) = drop k xs" using le by simp
  ultimately show ?case by (metis append.assoc splice_lines.simps(2))
qed

lemma splice_length:
  assumes "valid_reps i n reps" "length xs = n - i"
  shows "length (splice_lines i xs reps) + sum_list (map (\<lambda>(s, k, seg). k) reps) =
    length xs + sum_list (map (\<lambda>(s, k, seg). length seg) reps)"
  using assms
proof (induction i n reps arbitrary: xs rule: valid_reps.induct)
  case (2 i n s k seg reps)
  then have le: "i \<le> s" "s + k \<le> n" using valid_reps_le by auto
  have "length (splice_lines (s + k) (drop (s + k - i) xs) reps) + sum_list (map (\<lambda>(s, k, seg). k) reps) =
      length (drop (s + k - i) xs) + sum_list (map (\<lambda>(s, k, seg). length seg) reps)"
    using "2.prems" le by (intro "2.IH") auto
  then show ?case using "2.prems" le by simp
qed simp

section \<open>Line editors\<close>

text \<open>
  The interface that both update modes offer to the patch engine: a file seen as a list of line
  texts, and an edit that carries out replacements that are in order and in range.
\<close>

locale line_editor =
  fixes texts :: "'f \<Rightarrow> ustring list"
    and edit :: "'f \<Rightarrow> ustring replacement list \<Rightarrow> 'f option"
  assumes edit_splice:
    "valid_reps 0 (length (texts f)) reps \<Longrightarrow>
     \<exists>f'. edit f reps = Some f' \<and> texts f' = splice_lines 0 (texts f) reps"
begin

lemma edit_defined:
  assumes "valid_reps 0 (length (texts f)) reps" shows "edit f reps \<noteq> None"
  using edit_splice [OF assms] by auto

lemma edit_texts:
  assumes "valid_reps 0 (length (texts f)) reps" "edit f reps = Some f'"
  shows "texts f' = splice_lines 0 (texts f) reps"
  using edit_splice [OF assms(1)] assms(2) by auto

lemma edit_prefix:
  assumes "valid_reps 0 (length (texts f)) reps" "edit f reps = Some f'"
    "\<forall>r \<in> set reps. k \<le> fst r"
  shows "take k (texts f') = take k (texts f)"
  using edit_texts [OF assms(1,2)] assms(3) splice_prefix [of 0 "length (texts f)" reps "texts f" k] assms(1)
  by simp

lemma edit_suffix:
  assumes "valid_reps 0 (length (texts f)) reps" "edit f reps = Some f'"
    "\<forall>r \<in> set reps. rep_end r \<le> k" "k \<le> length (texts f)"
  shows "\<exists>pre. texts f' = pre @ drop k (texts f)"
  using edit_texts [OF assms(1,2)] splice_suffix [of 0 "length (texts f)" reps "texts f" k] assms
  by simp

lemma edit_length:
  assumes "valid_reps 0 (length (texts f)) reps" "edit f reps = Some f'"
  shows "length (texts f') + sum_list (map (\<lambda>(s, k, seg). k) reps) =
    length (texts f) + sum_list (map (\<lambda>(s, k, seg). length seg) reps)"
  using edit_texts [OF assms] splice_length [of 0 "length (texts f)" reps "texts f"] assms(1) by simp

end


lemma sf_apply_replacements_splice:
  assumes "valid_reps 0 (length (sf_lines f)) reps"
  shows "sf_apply_replacements f reps = Some (f\<lparr>sf_lines :=
    map (\<lambda>l. l\<lparr>sl_ending := get_or_insert (sl_ending l) (preferred_ending f)\<rparr>)
      (splice_lines 0 (sf_lines f) (map (\<lambda>(s, k, seg).
         (s, k, map (\<lambda>t. \<lparr>sl_text = t, sl_ending = Some (preferred_ending f)\<rparr>) seg)) reps))\<rparr>)"
  using replace_loop_splice [OF assms, of "sf_lines f"] by (simp add: sf_apply_replacements_def)

lemma line_texts_splice:
  "map sl_text (splice_lines i ls (map (\<lambda>(s, k, seg). (s, k, map (\<lambda>t. \<lparr>sl_text = t, sl_ending = e\<rparr>) seg)) reps)) =
   splice_lines i (map sl_text ls) reps"
proof -
  have "map (\<lambda>(s, k, seg). (s, k, map sl_text seg))
      (map (\<lambda>(s, k, seg). (s, k, map (\<lambda>t. \<lparr>sl_text = t, sl_ending = e\<rparr>) seg)) reps) = reps"
    by (induction reps) (auto simp: comp_def)
  then show ?thesis by (metis splice_map)
qed

interpretation vec_editor: line_editor id apply_replacements
  by unfold_locales (use apply_replacements_take_splice [of 0] in simp)

interpretation file_editor: line_editor line_texts sf_apply_replacements
proof
  fix f :: source_file and reps :: "ustring replacement list"
  assume "valid_reps 0 (length (line_texts f)) reps"
  then have "valid_reps 0 (length (sf_lines f)) reps" by (simp add: line_texts_def)
  from sf_apply_replacements_splice [OF this]
  show "\<exists>f'. sf_apply_replacements f reps = Some f' \<and> line_texts f' = splice_lines 0 (line_texts f) reps"
    by (simp add: line_texts_def comp_def line_texts_splice)
qed

end
