(* ===== verification/Patch_Update.thy ===== *)
theory Patch_Update
  imports Patch_Text
begin

text \<open>
  Turning the chunks of an update hunk into the new contents of a file:
  \<open>codex-rs/apply-patch/src/file_update.rs\<close>. \<open>compute_chunk\<close> is the body of the loop of
  \<open>compute_replacements\<close>. Lemmas: the replacements are in order and in range, no step panics, and
  keeping the context lines in place gives the text the chunk asks for.
\<close>

section \<open>Computing the replacements\<close>

text \<open>
  In the mode that preserves endings, the context lines of a chunk stay in place: only the runs of
  lines between them are replaced. \<open>None\<close> stands for a slice or a subtraction that panics.
\<close>

fun context_runs ::
  "nat \<Rightarrow> nat \<Rightarrow> ustring list \<Rightarrow> nat \<Rightarrow> nat \<Rightarrow> (nat \<times> nat) list \<Rightarrow> ustring replacement list option" where
  "context_runs start_idx plen new_slice old_start new_start [] =
     (if old_start \<noteq> plen \<or> new_start \<noteq> length new_slice then
        if plen < old_start \<or> length new_slice < new_start then None
        else Some [(start_idx + old_start, plen - old_start, drop new_start new_slice)]
      else Some [])"
| "context_runs start_idx plen new_slice old_start new_start ((old_context, new_context) # ctx) =
     (if old_context \<ge> plen \<or> new_context \<ge> length new_slice
      then context_runs start_idx plen new_slice old_start new_start [] \<comment> \<open>\<open>break\<close>\<close>
      else
        Option.bind
          (if old_start \<noteq> old_context \<or> new_start \<noteq> new_context then
             if old_context < old_start \<or> new_context < new_start then None
             else Some [(start_idx + old_start, old_context - old_start,
                         take (new_context - new_start) (drop new_start new_slice))]
           else Some [])
          (\<lambda>r. map_option ((@) r)
             (context_runs start_idx plen new_slice (old_context + 1) (new_context + 1) ctx)))"

definition is_empty_str :: "ustring \<Rightarrow> bool" where
  "is_empty_str s \<longleftrightarrow> s = []"

datatype patch_error =
  ParseError parse_error
| IoError ustring ustring \<comment> \<open>context and rendered source\<close>
| ComputeReplacements ustring
| PathUri ustring
| ImplicitInvocation
| Panicked \<comment> \<open>not an error value of the code: an unwinding panic\<close>

definition insertion_idx :: "ustring list \<Rightarrow> update_mode \<Rightarrow> nat" where
  "insertion_idx original_lines md =
     (case md of
        NormalizeToLf \<Rightarrow>
          if is_some_and (last_opt original_lines) is_empty_str
          then length original_lines - 1 else length original_lines
      | PreserveLineEndings \<Rightarrow> length original_lines)"

text \<open>The position after the context line of a chunk, if it has one.\<close>

definition seek_context ::
  "ustring list \<Rightarrow> ustring \<Rightarrow> update_file_chunk \<Rightarrow> update_mode \<Rightarrow> nat \<Rightarrow> (nat, patch_error) result" where
  "seek_context original_lines path chunk md line_index =
     (case change_context chunk of
        None \<Rightarrow> Ok line_index
      | Some ctx_line \<Rightarrow>
          (case seek_sequence original_lines [ctx_line] line_index False md of
             Some idx \<Rightarrow> Ok (idx + 1)
           | None \<Rightarrow> Err (ComputeReplacements
               (str ''Failed to find context '' @ quoted ctx_line @ str '' in '' @ path))))"

text \<open>
  The place of the old lines: the pattern that was found, the new lines that replace it, and where.
  The second attempt drops an empty line at the end of the pattern (and of the new lines).
\<close>

definition locate_old_lines ::
  "ustring list \<Rightarrow> update_file_chunk \<Rightarrow> update_mode \<Rightarrow> nat \<Rightarrow> ustring list \<times> ustring list \<times> nat option" where
  "locate_old_lines original_lines chunk md line_index =
     (let pattern = old_lines chunk; new_slice = new_lines chunk;
          found = seek_sequence original_lines pattern line_index (is_end_of_file chunk) md
      in if found = None \<and> is_some_and (last_opt pattern) is_empty_str then
           (let pattern' = butlast pattern;
                new_slice' =
                  (if is_some_and (last_opt new_slice) is_empty_str then butlast new_slice else new_slice)
            in (pattern', new_slice',
                seek_sequence original_lines pattern' line_index (is_end_of_file chunk) md))
         else (pattern, new_slice, found))"

definition compute_chunk ::
  "ustring list \<Rightarrow> ustring \<Rightarrow> update_file_chunk \<Rightarrow> update_mode \<Rightarrow> nat \<Rightarrow>
   (ustring replacement list \<times> nat, patch_error) result" where
  "compute_chunk original_lines path chunk md line_index0 =
     result_bind (seek_context original_lines path chunk md line_index0)
       (\<lambda>line_index.
          if old_lines chunk = [] then
            Ok ([(insertion_idx original_lines md, 0, new_lines chunk)], line_index)
          else
            (case locate_old_lines original_lines chunk md line_index of
               (pattern, new_slice, None) \<Rightarrow>
                 Err (ComputeReplacements
                   (str ''Failed to find expected lines in '' @ path @ str '':'' @ [LF] @
                    join [LF] (old_lines chunk)))
             | (pattern, new_slice, Some start_idx) \<Rightarrow>
                 (case (case md of
                          NormalizeToLf \<Rightarrow> Some [(start_idx, length pattern, new_slice)]
                        | PreserveLineEndings \<Rightarrow>
                            context_runs start_idx (length pattern) new_slice 0 0
                              (context_line_indices chunk)) of
                    None \<Rightarrow> Err Panicked
                  | Some reps \<Rightarrow> Ok (reps, start_idx + length pattern))))"

fun compute_loop ::
  "ustring list \<Rightarrow> ustring \<Rightarrow> update_mode \<Rightarrow> nat \<Rightarrow> ustring replacement list \<Rightarrow>
   update_file_chunk list \<Rightarrow> (ustring replacement list, patch_error) result" where
  "compute_loop original_lines path md line_index replacements [] = Ok replacements"
| "compute_loop original_lines path md line_index replacements (chunk # chunks) =
     result_bind (compute_chunk original_lines path chunk md line_index)
       (\<lambda>(reps, line_index').
          compute_loop original_lines path md line_index' (replacements @ reps) chunks)"

definition compute_replacements ::
  "ustring list \<Rightarrow> ustring \<Rightarrow> update_file_chunk list \<Rightarrow> update_mode \<Rightarrow>
   (ustring replacement list, patch_error) result" where
  "compute_replacements original_lines path chunks md =
     result_bind (compute_loop original_lines path md 0 [] chunks)
       (\<lambda>replacements. Ok (sort_key fst replacements))"

definition panic_or :: "'a option \<Rightarrow> ('a, patch_error) result" where
  "panic_or x = (case x of None \<Rightarrow> Err Panicked | Some a \<Rightarrow> Ok a)"

text \<open>
  The lines of the LF mode: split at line feeds, without the empty piece after a final one.
\<close>

definition lf_lines :: "ustring \<Rightarrow> ustring list" where
  "lf_lines contents =
     (let ls = split_char LF contents
      in if is_some_and (last_opt ls) is_empty_str then butlast ls else ls)"

definition lf_contents :: "ustring list \<Rightarrow> ustring" where
  "lf_contents ls = join [LF] (if is_some_and (last_opt ls) is_empty_str then ls else ls @ [[]])"

text \<open>The part of \<open>derive_new_contents_from_chunks\<close> after the file was read.\<close>

definition new_contents_from_chunks ::
  "ustring \<Rightarrow> ustring \<Rightarrow> update_file_chunk list \<Rightarrow> update_mode \<Rightarrow> (ustring, patch_error) result" where
  "new_contents_from_chunks original_contents path chunks md =
     (case md of
        NormalizeToLf \<Rightarrow>
          (let original_lines = lf_lines original_contents
           in result_bind (compute_replacements original_lines path chunks md)
                (\<lambda>reps. result_bind (panic_or (apply_replacements original_lines reps))
                   (\<lambda>new_lines. Ok (lf_contents new_lines))))
      | PreserveLineEndings \<Rightarrow>
          (let source_file = sf_parse original_contents
           in result_bind (compute_replacements (line_texts source_file) path chunks md)
                (\<lambda>reps. result_bind (panic_or (sf_apply_replacements source_file reps))
                   (\<lambda>f. Ok (into_contents f)))))"

section \<open>The replacements are in order and in range\<close>

lemma seek_sequence_bound:
  assumes "seek_sequence ls pat start eof md = Some i" "start \<le> length ls"
  shows "i + length pat \<le> length ls"
  using assms seek_sequence_sound(1) [OF assms(1)]
  by (cases "pat = []") (auto simp: seek_sequence_def)

lemma search_start_ge:
  "md = PreserveLineEndings \<or> \<not> eof \<Longrightarrow> start \<le> search_start ls pat start eof md"
  by (auto simp: search_start_def Let_def split: update_mode.splits)

lemma seek_sequence_ge:
  assumes "seek_sequence ls pat start eof md = Some i" "md = PreserveLineEndings \<or> \<not> eof"
  shows "start \<le> i"
  using assms seek_sequence_sound(2) [OF assms(1)] search_start_ge [OF assms(2)]
  by (cases "pat = []") (auto simp: seek_sequence_def intro: order_trans)

lemma seek_context_bound:
  assumes "seek_context ls path c md i = Ok j" "i \<le> length ls"
  shows "i \<le> j" "j \<le> length ls"
  using assms seek_sequence_bound seek_sequence_ge
  by (fastforce simp: seek_context_def split: option.splits)+

lemma locate_old_lines_bound:
  assumes "locate_old_lines ls c md i = (pat, new, Some j)" "i \<le> length ls"
  shows "j + length pat \<le> length ls" "md = PreserveLineEndings \<Longrightarrow> i \<le> j"
proof -
  from assms(1) have "seek_sequence ls pat i (is_end_of_file c) md = Some j"
    by (auto simp: locate_old_lines_def Let_def split: if_splits)
  then show "j + length pat \<le> length ls" "md = PreserveLineEndings \<Longrightarrow> i \<le> j"
    using assms(2) seek_sequence_bound seek_sequence_ge by blast+
qed

lemma locate_old_lines_length:
  assumes "locate_old_lines ls c md i = (pat, new, f)"
  shows "length pat \<le> length (old_lines c)" "length new \<le> length (new_lines c)"
  using assms by (auto simp: locate_old_lines_def Let_def split: if_splits)

definition ctx_sorted :: "nat \<Rightarrow> nat \<Rightarrow> (nat \<times> nat) list \<Rightarrow> bool" where
  "ctx_sorted i j ctx \<longleftrightarrow>
     sorted_wrt (\<lambda>x y. fst x < fst y \<and> snd x < snd y) ctx \<and> (\<forall>(a, b) \<in> set ctx. i \<le> a \<and> j \<le> b)"

lemma context_runs_valid:
  assumes "ctx_sorted i j ctx" "i \<le> plen" "j \<le> length new"
  shows "\<exists>reps. context_runs s plen new i j ctx = Some reps \<and> valid_reps (s + i) (s + plen) reps"
  using assms
proof (induction s plen new i j ctx rule: context_runs.induct)
  case (2 s plen new i j a b ctx)
  show ?case
  proof (cases "a \<ge> plen \<or> b \<ge> length new")
    case True
    with "2.IH"(1) "2.prems" show ?thesis by (simp add: ctx_sorted_def)
  next
    case False
    have le: "i \<le> a" "j \<le> b" using "2.prems"(1) by (auto simp: ctx_sorted_def)
    have "ctx_sorted (a + 1) (b + 1) ctx" using "2.prems"(1) by (auto simp: ctx_sorted_def)
    with "2.IH"(2) [OF False] False le obtain reps where
      reps: "context_runs s plen new (a + 1) (b + 1) ctx = Some reps"
        "valid_reps (s + (a + 1)) (s + plen) reps"
      by (cases "i \<noteq> a \<or> j \<noteq> b") (auto simp: Suc_le_eq)
    have "valid_reps (s + i) (s + plen) reps" "valid_reps (s + a) (s + plen) reps"
      using valid_reps_mono [OF reps(2)] le by auto
    with False reps le show ?thesis by (auto simp: add.assoc)
  qed
qed auto

lemma valid_reps_iff:
  "valid_reps i n reps \<longleftrightarrow>
     i \<le> n \<and> sorted_wrt (\<lambda>x y. rep_end x \<le> fst y) reps \<and> (\<forall>r \<in> set reps. i \<le> fst r \<and> rep_end r \<le> n)"
proof (induction i n reps rule: valid_reps.induct)
  case (2 i n s k seg reps)
  then show ?case by fastforce
qed simp

text \<open>
  What the order of the chunks gives: whichever way two replacements are sorted, they do not
  overlap. Sorting by start index, which keeps the order of equal indices, then makes the list valid.
\<close>

definition compat :: "'a replacement \<Rightarrow> 'a replacement \<Rightarrow> bool" where
  "compat x y \<longleftrightarrow> (fst x \<le> fst y \<longrightarrow> rep_end x \<le> fst y) \<and> (fst y < fst x \<longrightarrow> rep_end y \<le> fst x)"

lemma sorted_wrt_insort:
  assumes "sorted_wrt (\<lambda>x y. rep_end x \<le> fst y) ys" "\<forall>y \<in> set ys. compat x y"
  shows "sorted_wrt (\<lambda>x y. rep_end x \<le> fst y) (insort_key fst x ys)"
  using assms
proof (induction ys)
  case (Cons y ys)
  then have le: "\<forall>z \<in> set ys. fst y \<le> fst z" by auto
  show ?case
  proof (cases "fst x \<le> fst y")
    case True
    with Cons.prems le show ?thesis by (auto simp: compat_def)
  next
    case False
    with Cons show ?thesis by (auto simp: compat_def set_insort_key)
  qed
qed simp

lemma sort_compat:
  "sorted_wrt compat reps \<Longrightarrow> sorted_wrt (\<lambda>x y. rep_end x \<le> fst y) (sort_key fst reps)"
  by (induction reps) (auto intro: sorted_wrt_insort)

definition loop_inv :: "nat \<Rightarrow> nat \<Rightarrow> 'a replacement list \<Rightarrow> bool" where
  "loop_inv n i reps \<longleftrightarrow> i \<le> n \<and> sorted_wrt compat reps \<and>
     (\<forall>r \<in> set reps. rep_end r \<le> i \<or> (fst r = n \<and> fst (snd r) = 0))"

lemma loop_inv_step:
  assumes "loop_inv n i reps" "valid_reps i j new" "j \<le> n"
  shows "loop_inv n j (reps @ new)"
proof -
  have new: "sorted_wrt (\<lambda>x y. rep_end x \<le> fst y) new" "\<forall>r \<in> set new. i \<le> fst r \<and> rep_end r \<le> j" "i \<le> j"
    using assms(2) by (auto simp: valid_reps_iff)
  have "sorted_wrt compat new"
    using new(1) by (rule sorted_wrt_mono_rel [rotated]) (auto simp: compat_def)
  with assms new show ?thesis
    by (fastforce simp: loop_inv_def compat_def sorted_wrt_append)
qed

lemma loop_inv_insert:
  assumes "loop_inv n i reps" "i \<le> j" "j \<le> n"
  shows "loop_inv n j (reps @ [(n, 0, seg)])"
  using assms by (fastforce simp: loop_inv_def compat_def sorted_wrt_append)

lemma context_ok_sorted: "context_ok c \<Longrightarrow> ctx_sorted 0 0 (context_line_indices c)"
  by (auto simp: context_ok_def ctx_sorted_def)

lemma compute_chunk_preserve:
  assumes "compute_chunk ls path c PreserveLineEndings i = Ok (new, j)" "context_ok c"
    "loop_inv (length ls) i reps"
  shows "loop_inv (length ls) j (reps @ new)"
proof -
  have i: "i \<le> length ls" using assms(3) by (simp add: loop_inv_def)
  from assms(1) obtain k where k: "seek_context ls path c PreserveLineEndings i = Ok k"
    by (auto simp: compute_chunk_def result_bind_Ok)
  note kb = seek_context_bound [OF k i]
  have inv: "loop_inv (length ls) k reps"
    using loop_inv_step [of "length ls" i reps k "[]"] assms(3) kb by simp
  show ?thesis
  proof (cases "old_lines c = []")
    case True
    with assms(1) k have "new = [(length ls, 0, new_lines c)]" "j = k"
      by (auto simp: compute_chunk_def insertion_idx_def)
    then show ?thesis using loop_inv_insert [OF inv] kb by simp
  next
    case False
    obtain pat nw f where loc: "locate_old_lines ls c PreserveLineEndings k = (pat, nw, f)"
      by (cases "locate_old_lines ls c PreserveLineEndings k")
    with assms(1) k False obtain s where f: "f = Some s"
      and runs: "context_runs s (length pat) nw 0 0 (context_line_indices c) = Some new"
      and j: "j = s + length pat"
      by (auto simp: compute_chunk_def split: option.splits)
    note b = locate_old_lines_bound [OF loc [unfolded f] kb(2)]
    from context_runs_valid [OF context_ok_sorted [OF assms(2)], of "length pat" nw s] runs
    have "valid_reps s j new" by (simp add: j)
    then have "valid_reps k j new" using valid_reps_mono b(2) by blast
    then show ?thesis using loop_inv_step [OF inv] b(1) j by simp
  qed
qed

lemma compute_chunk_no_panic:
  assumes "context_ok c" shows "compute_chunk ls path c md i \<noteq> Err Panicked"
proof (cases "seek_context ls path c md i")
  case (Inl e)
  then have "e \<noteq> Panicked" by (auto simp: seek_context_def split: option.splits)
  with Inl show ?thesis by (simp add: compute_chunk_def)
next
  case (Inr k)
  obtain pat nw f where loc: "locate_old_lines ls c md k = (pat, nw, f)"
    by (cases "locate_old_lines ls c md k")
  have "\<exists>reps. context_runs s (length pat) nw 0 0 (context_line_indices c) = Some reps" for s
    using context_runs_valid [OF context_ok_sorted [OF assms], of "length pat" nw s] by auto
  then obtain runs where runs: "context_runs s (length pat) nw 0 0 (context_line_indices c) = Some (runs s)" for s
    by metis
  show ?thesis
    using Inr loc runs by (cases f; cases md) (simp_all add: compute_chunk_def)
qed

lemma compute_loop_preserve:
  assumes "compute_loop ls path PreserveLineEndings i reps cs = Ok out" "\<forall>c \<in> set cs. context_ok c"
    "loop_inv (length ls) i reps"
  shows "\<exists>j. loop_inv (length ls) j out"
  using assms
proof (induction cs arbitrary: i reps)
  case (Cons c cs)
  then obtain new j where "compute_chunk ls path c PreserveLineEndings i = Ok (new, j)"
    "compute_loop ls path PreserveLineEndings j (reps @ new) cs = Ok out"
    by (auto simp: result_bind_Ok)
  with Cons compute_chunk_preserve show ?case by (metis list.set_intros)
qed auto

lemma compute_replacements_valid:
  assumes "compute_replacements ls path cs PreserveLineEndings = Ok reps" "\<forall>c \<in> set cs. context_ok c"
  shows "valid_reps 0 (length ls) reps"
proof -
  from assms(1) obtain out where out: "compute_loop ls path PreserveLineEndings 0 [] cs = Ok out"
    "reps = sort_key fst out"
    by (auto simp: compute_replacements_def result_bind_Ok)
  from compute_loop_preserve [OF out(1) assms(2)] obtain j where inv: "loop_inv (length ls) j out"
    by (auto simp: loop_inv_def)
  then have "\<forall>r \<in> set out. rep_end r \<le> length ls" by (auto simp: loop_inv_def)
  with inv show ?thesis unfolding valid_reps_iff out(2)
    by (auto simp: loop_inv_def intro: sort_compat)
qed

section \<open>Updates never panic\<close>

lemma apply_rev_defined:
  assumes "sorted_wrt (\<lambda>x y. fst y \<le> fst x) reps" "\<forall>r \<in> set reps. fst r \<le> length ls"
  shows "\<exists>out. apply_rev ls reps = Some out"
  using assms
proof (induction reps arbitrary: ls)
  case (Cons r reps)
  obtain s k seg where r: "r = (s, k, seg)" by (cases r)
  let ?ls = "take s ls @ seg @ drop (s + k) ls"
  have s: "s \<le> length ls" using Cons.prems(2) by (simp add: r)
  have "\<forall>q \<in> set reps. fst q \<le> length ?ls" using Cons.prems s by (auto simp: r)
  with Cons.IH [of ?ls] Cons.prems(1) obtain out where "apply_rev ?ls reps = Some out" by auto
  then show ?case using s by (simp add: r remove_lines_eq insert_lines_eq min_absorb1)
qed simp

lemma compute_chunk_range:
  assumes "compute_chunk ls path c md i = Ok (new, j)" "context_ok c" "i \<le> length ls"
  shows "j \<le> length ls" "\<forall>r \<in> set new. fst r \<le> length ls"
proof -
  from assms(1) obtain k where k: "seek_context ls path c md i = Ok k"
    by (auto simp: compute_chunk_def result_bind_Ok)
  note kb = seek_context_bound [OF k assms(3)]
  have "j \<le> length ls \<and> (\<forall>r \<in> set new. fst r \<le> length ls)"
  proof (cases "old_lines c = []")
    case True
    with assms(1) k have "new = [(insertion_idx ls md, 0, new_lines c)]" "j = k"
      by (auto simp: compute_chunk_def)
    moreover have "insertion_idx ls md \<le> length ls"
      by (auto simp: insertion_idx_def split: update_mode.splits)
    ultimately show ?thesis using kb by simp
  next
    case False
    obtain pat nw f where loc: "locate_old_lines ls c md k = (pat, nw, f)"
      by (cases "locate_old_lines ls c md k")
    with assms(1) k False obtain s where f: "f = Some s" and j: "j = s + length pat"
      by (auto simp: compute_chunk_def split: option.splits)
    note b = locate_old_lines_bound(1) [OF loc [unfolded f] kb(2)]
    show ?thesis
    proof (cases md)
      case NormalizeToLf
      with assms(1) k False loc f j b show ?thesis by (auto simp: compute_chunk_def)
    next
      case PreserveLineEndings
      with assms(1) k False loc f
      have runs: "context_runs s (length pat) nw 0 0 (context_line_indices c) = Some new"
        by (auto simp: compute_chunk_def split: option.splits)
      from context_runs_valid [OF context_ok_sorted [OF assms(2)], of "length pat" nw s] runs
      have "valid_reps s j new" by (simp add: j)
      with b j show ?thesis by (fastforce simp: valid_reps_iff)
    qed
  qed
  then show "j \<le> length ls" "\<forall>r \<in> set new. fst r \<le> length ls" by auto
qed

lemma compute_loop_range:
  assumes "compute_loop ls path md i reps cs = Ok out" "\<forall>c \<in> set cs. context_ok c" "i \<le> length ls"
    "\<forall>r \<in> set reps. fst r \<le> length ls"
  shows "\<forall>r \<in> set out. fst r \<le> length ls"
  using assms
proof (induction cs arbitrary: i reps)
  case (Cons c cs)
  then obtain new j where c: "compute_chunk ls path c md i = Ok (new, j)"
    and l: "compute_loop ls path md j (reps @ new) cs = Ok out"
    by (auto simp: result_bind_Ok)
  note b = compute_chunk_range [OF c]
  show ?case
    by (rule Cons.IH [OF l]) (use Cons.prems b in auto)
qed auto

lemma compute_replacements_range:
  assumes "compute_replacements ls path cs md = Ok reps" "\<forall>c \<in> set cs. context_ok c"
  shows "sorted_wrt (\<lambda>x y. fst x \<le> fst y) reps" "\<forall>r \<in> set reps. fst r \<le> length ls"
proof -
  from assms(1) obtain out where out: "compute_loop ls path md 0 [] cs = Ok out" "reps = sort_key fst out"
    by (auto simp: compute_replacements_def result_bind_Ok)
  show "sorted_wrt (\<lambda>x y. fst x \<le> fst y) reps"
    using sorted_sort_key [of fst out] by (simp add: out(2) sorted_map)
  show "\<forall>r \<in> set reps. fst r \<le> length ls"
    using compute_loop_range [OF out(1) assms(2)] by (simp add: out(2))
qed

lemma compute_loop_no_panic:
  "\<forall>c \<in> set cs. context_ok c \<Longrightarrow> compute_loop ls path md i reps cs \<noteq> Err Panicked"
proof (induction cs arbitrary: i reps)
  case (Cons c cs)
  show ?case
  proof (cases "compute_chunk ls path c md i")
    case (Inl e)
    with Cons.prems compute_chunk_no_panic [of c ls path md i] show ?thesis by simp
  next
    case (Inr r)
    with Cons show ?thesis by (cases r) simp
  qed
qed simp

lemma compute_replacements_no_panic:
  "\<forall>c \<in> set cs. context_ok c \<Longrightarrow> compute_replacements ls path cs md \<noteq> Err Panicked"
  using compute_loop_no_panic [of cs ls path md 0 "[]"]
  by (cases "compute_loop ls path md 0 [] cs") (auto simp: compute_replacements_def)



section \<open>What an update does to the text\<close>

lemma splice_lines_skip:
  assumes "valid_reps (Suc i) n reps"
  shows "splice_lines i (x # xs) reps = x # splice_lines (Suc i) xs reps"
proof (cases reps)
  case (Cons r reps')
  obtain s k seg where r: "r = (s, k, seg)" by (cases r)
  have "s - i = Suc (s - Suc i)" "s + k - i = Suc (s + k - Suc i)"
    using assms by (auto simp: Cons r)
  then show ?thesis by (simp add: Cons r)
qed simp

lemma splice_lines_append:
  assumes "valid_reps i m r1" "valid_reps m n r2" "length xs = n - i"
  shows "splice_lines i xs (r1 @ r2) = splice_lines i (take (m - i) xs) r1 @ splice_lines m (drop (m - i) xs) r2"
  using assms
proof (induction i m r1 arbitrary: xs rule: valid_reps.induct)
  case (1 i m)
  show ?case
  proof (cases r2)
    case (Cons r r2')
    obtain s k seg where r: "r = (s, k, seg)" by (cases r)
    have le: "i \<le> m" "m \<le> s" using 1 by (auto simp: Cons r)
    then have "take (s - i) xs = take (m - i) xs @ take (s - m) (drop (m - i) xs)"
      by (metis Nat.add_diff_assoc2 add.commute le_add_diff_inverse take_add)
    then show ?thesis using le by (simp add: Cons r)
  qed simp
next
  case (2 i m s k seg reps)
  then have le: "i \<le> s" "s + k \<le> m" using valid_reps_le by auto
  have "splice_lines (s + k) (drop (s + k - i) xs) (reps @ r2) =
      splice_lines (s + k) (take (m - (s + k)) (drop (s + k - i) xs)) reps @
      splice_lines m (drop (m - (s + k)) (drop (s + k - i) xs)) r2"
    using 2 le by (intro "2.IH") auto
  moreover have "take (m - (s + k)) (drop (s + k - i) xs) = drop (s + k - i) (take (m - i) xs)"
    using le by (simp add: drop_take)
  ultimately show ?case using le by (simp add: min_absorb1)
qed

text \<open>
  The runs between the context lines rewrite the old lines into the new ones, provided the context
  lines of the file are the ones of the chunk.
\<close>

lemma context_runs_splice:
  assumes "ctx_sorted i j ctx" "i \<le> plen" "j \<le> length new" "plen = length pat"
    "\<forall>(a, b) \<in> set ctx. a < plen \<and> b < length new \<longrightarrow> pat ! a = new ! b"
    "context_runs s plen new i j ctx = Some reps"
  shows "splice_lines (s + i) (drop i pat) reps = drop j new"
  using assms
proof (induction s plen new i j ctx arbitrary: reps rule: context_runs.induct)
  case (1 s plen new i j)
  then show ?case by (auto split: if_splits)
next
  case (2 s plen new i j a b ctx)
  show ?case
  proof (cases "a \<ge> plen \<or> b \<ge> length new")
    case True
    with "2.IH"(1) [OF True] "2.prems" show ?thesis by (auto simp: ctx_sorted_def)
  next
    case False
    have le: "i \<le> a" "j \<le> b" using "2.prems"(1) by (auto simp: ctx_sorted_def)
    have srt: "ctx_sorted (a + 1) (b + 1) ctx" using "2.prems"(1) by (auto simp: ctx_sorted_def)
    define r where "r = (if i \<noteq> a \<or> j \<noteq> b then [(s + i, a - i, take (b - j) (drop j new))] else [])"
    from context_runs_valid [OF srt, of plen new s] False
    obtain reps' where reps': "context_runs s plen new (a + 1) (b + 1) ctx = Some reps'"
      and v: "valid_reps (Suc (s + a)) (s + plen) reps'" by auto
    have "(if i \<noteq> a \<or> j \<noteq> b then if a < i \<or> b < j then None
        else Some [(s + i, a - i, take (b - j) (drop j new))] else Some []) = Some r"
      using le by (auto simp: r_def)
    note step = "2.IH"(2) [OF False this srt]
    have "\<forall>(a, b) \<in> set ctx. a < plen \<and> b < length new \<longrightarrow> pat ! a = new ! b"
      using "2.prems"(5) by auto
    with step False "2.prems"(4) reps'
    have IH: "splice_lines (s + (a + 1)) (drop (a + 1) pat) reps' = drop (b + 1) new" by simp
    have reps: "reps = r @ reps'" using "2.prems"(6) False le reps' by (auto simp: r_def split: if_splits)
    have "splice_lines (s + a) (drop a pat) reps' = drop b new"
    proof -
      have "drop a pat = pat ! a # drop (Suc a) pat" "drop b new = new ! b # drop (Suc b) new"
        using False "2.prems"(4) by (simp_all add: Cons_nth_drop_Suc)
      with splice_lines_skip [OF v] IH False "2.prems"(5) show ?thesis by simp
    qed
    moreover have "take (b - j) (drop j new) @ drop b new = drop j new"
      using le by (metis append_take_drop_id drop_drop le_add_diff_inverse2)
    ultimately show ?thesis using le by (auto simp: reps r_def)
  qed
qed

text \<open>
  One chunk whose old lines occur verbatim, nothing equal to them starting earlier: both modes
  schedule replacements that exchange exactly this occurrence for the new lines.
\<close>

lemma seek_sequence_first:
  assumes "pat \<noteq> []" "\<not> (\<exists>j < length pre. take (length pat) (drop j (pre @ pat @ post)) = pat)"
  shows "seek_sequence (pre @ pat @ post) pat 0 False md = Some (length pre)"
proof -
  have "seek_pass id (pre @ pat @ post) pat 0 = Some (length pre)"
    using assms(2) by (auto simp: seek_pass_Some matches_at_id)
  then show ?thesis using assms(1) by (simp add: seek_sequence_def search_start_def)
qed

lemma splice_lines_region:
  assumes "valid_reps (length pre) (length pre + length pat) reps"
  shows "splice_lines 0 (pre @ pat @ post) reps = pre @ splice_lines (length pre) pat reps @ post"
proof -
  let ?n = "length (pre @ pat @ post)"
  have "splice_lines 0 (pre @ pat @ post) ([] @ reps) =
      splice_lines 0 pre [] @ splice_lines (length pre) (pat @ post) reps"
    using splice_lines_append [of 0 "length pre" "[]" ?n reps "pre @ pat @ post"]
      valid_reps_mono [OF assms] by simp
  moreover have "splice_lines (length pre) (pat @ post) (reps @ []) = splice_lines (length pre) pat reps @ post"
    using splice_lines_append [OF assms, of ?n "[]" "pat @ post"] by simp
  ultimately show ?thesis by simp
qed

definition first_verbatim :: "ustring list \<Rightarrow> ustring list \<Rightarrow> ustring list \<Rightarrow> bool" where
  "first_verbatim pre pat post \<longleftrightarrow>
     pat \<noteq> [] \<and> \<not> (\<exists>j < length pre. take (length pat) (drop j (pre @ pat @ post)) = pat)"

lemma compute_replacements_single:
  assumes "first_verbatim pre (old_lines c) post" "context_ok c" "change_context c = None"
    "\<not> is_end_of_file c"
  shows "\<exists>reps. compute_replacements (pre @ old_lines c @ post) path [c] md = Ok reps \<and>
    valid_reps 0 (length (pre @ old_lines c @ post)) reps \<and>
    splice_lines 0 (pre @ old_lines c @ post) reps = pre @ new_lines c @ post"
proof -
  let ?ls = "pre @ old_lines c @ post"
  let ?n = "length pre"
  have seek: "seek_sequence ?ls (old_lines c) 0 False md = Some ?n"
    using assms(1) by (intro seek_sequence_first) (auto simp: first_verbatim_def)
  from context_runs_valid [OF context_ok_sorted [OF assms(2)], of "length (old_lines c)" "new_lines c" ?n]
  obtain runs where runs: "context_runs ?n (length (old_lines c)) (new_lines c) 0 0 (context_line_indices c) = Some runs"
    and v: "valid_reps ?n (?n + length (old_lines c)) runs" by auto
  define reps where "reps = (case md of NormalizeToLf \<Rightarrow> [(?n, length (old_lines c), new_lines c)] | PreserveLineEndings \<Rightarrow> runs)"
  have loop: "compute_loop ?ls path md 0 [] [c] = Ok reps"
    using assms seek runs
    by (simp add: compute_chunk_def seek_context_def locate_old_lines_def first_verbatim_def reps_def
        split: update_mode.splits)
  have valid: "valid_reps ?n (?n + length (old_lines c)) reps"
    using v by (simp add: reps_def split: update_mode.splits)
  have "splice_lines ?n (old_lines c) runs = new_lines c"
    using context_runs_splice [OF context_ok_sorted [OF assms(2)] _ _ _ _ runs] assms(2)
    by (auto simp: context_ok_def)
  then have "splice_lines ?n (old_lines c) reps = new_lines c"
    by (simp add: reps_def split: update_mode.splits)
  then have spl: "splice_lines 0 ?ls reps = pre @ new_lines c @ post"
    using splice_lines_region [OF valid] by simp
  have srt: "sort_key fst reps = reps"
    using valid by (intro sort_key_id_if_sorted) (auto simp: valid_reps_iff sorted_map elim: sorted_wrt_mono_rel [rotated])
  from loop srt spl valid_reps_mono [OF valid] show ?thesis
    by (auto simp: compute_replacements_def)
qed

text \<open>
  in the LF mode, a chunk whose old lines occur in the file, with no equal run of lines
  starting earlier, changes the first occurrence into the new lines and nothing else; the result
  ends in a line feed.
\<close>

theorem update_lf_single:
  assumes "first_verbatim pre (old_lines c) post" "context_ok c" "change_context c = None"
    "\<not> is_end_of_file c" "lf_lines s = pre @ old_lines c @ post"
  shows "new_contents_from_chunks s path [c] NormalizeToLf = Ok (lf_contents (pre @ new_lines c @ post))"
proof -
  from compute_replacements_single [OF assms(1-4), of path NormalizeToLf]
  obtain reps where reps: "compute_replacements (lf_lines s) path [c] NormalizeToLf = Ok reps"
    "valid_reps 0 (length (lf_lines s)) reps"
    "splice_lines 0 (lf_lines s) reps = pre @ new_lines c @ post"
    unfolding assms(5) by blast
  from vec_editor.edit_splice [of "lf_lines s" reps] reps show ?thesis
    by (auto simp: new_contents_from_chunks_def panic_or_def)
qed

text \<open>The edit that keeps the endings of untouched lines.\<close>

definition spliced_file :: "source_file \<Rightarrow> ustring replacement list \<Rightarrow> source_file" where
  "spliced_file f reps =
     f\<lparr>sf_lines :=
         map (\<lambda>l. l\<lparr>sl_ending := get_or_insert (sl_ending l) (preferred_ending f)\<rparr>)
           (splice_lines 0 (sf_lines f)
              (map (\<lambda>(i, k, seg).
                 (i, k, map (\<lambda>t. \<lparr>sl_text = t, sl_ending = Some (preferred_ending f)\<rparr>) seg)) reps))\<rparr>"

lemma sf_apply_spliced_file:
  "valid_reps 0 (length (line_texts f)) reps \<Longrightarrow> sf_apply_replacements f reps = Some (spliced_file f reps)"
  using sf_apply_replacements_splice [of f reps] by (simp add: spliced_file_def line_texts_def)

text \<open>
  in the mode that preserves line endings the same chunk changes the same lines: the file is
  the one in which the chunk's changed runs were replaced, every other line with its text and its own
  ending, the lines that were added (and a last line that had none) with the ending the file uses
  first; as text, the first occurrence of the old lines became the new lines.
\<close>

theorem update_preserve_single:
  assumes "first_verbatim pre (old_lines c) post" "context_ok c" "change_context c = None"
    "\<not> is_end_of_file c" "line_texts (sf_parse s) = pre @ old_lines c @ post"
  shows "\<exists>reps. compute_replacements (line_texts (sf_parse s)) path [c] PreserveLineEndings = Ok reps \<and>
    new_contents_from_chunks s path [c] PreserveLineEndings =
      Ok (into_contents (spliced_file (sf_parse s) reps)) \<and>
    line_texts (spliced_file (sf_parse s) reps) = pre @ new_lines c @ post"
proof -
  let ?f = "sf_parse s"
  from compute_replacements_single [OF assms(1-4), of path PreserveLineEndings]
  obtain reps where reps: "compute_replacements (line_texts ?f) path [c] PreserveLineEndings = Ok reps"
    "valid_reps 0 (length (line_texts ?f)) reps"
    "splice_lines 0 (line_texts ?f) reps = pre @ new_lines c @ post"
    unfolding assms(5) by blast
  note ed = sf_apply_spliced_file [OF reps(2)]
  have "line_texts (spliced_file ?f reps) = pre @ new_lines c @ post"
    using file_editor.edit_texts [OF reps(2) ed] reps(3) by simp
  moreover have "new_contents_from_chunks s path [c] PreserveLineEndings = Ok (into_contents (spliced_file ?f reps))"
    using reps(1) ed by (simp add: new_contents_from_chunks_def panic_or_def Let_def)
  ultimately show ?thesis using reps(1) by blast
qed

text \<open>
  C11: any number of chunks in the mode that preserves line endings: an update that succeeds is the
  splice of replacements that are ordered, disjoint and within the file.
\<close>

theorem update_preserve_splice:
  assumes "\<forall>c \<in> set cs. context_ok c" "new_contents_from_chunks s path cs PreserveLineEndings = Ok out"
  shows "\<exists>reps. compute_replacements (line_texts (sf_parse s)) path cs PreserveLineEndings = Ok reps \<and>
    valid_reps 0 (length (line_texts (sf_parse s))) reps \<and>
    out = into_contents (spliced_file (sf_parse s) reps)"
proof -
  from assms(2) obtain reps where
    reps: "compute_replacements (line_texts (sf_parse s)) path cs PreserveLineEndings = Ok reps"
    by (auto simp: new_contents_from_chunks_def Let_def result_bind_Ok)
  note v = compute_replacements_valid [OF reps assms(1)]
  from assms(2) reps sf_apply_spliced_file [OF v] v show ?thesis
    by (auto simp: new_contents_from_chunks_def panic_or_def Let_def)
qed

definition eof_chunk :: "ustring \<Rightarrow> ustring \<Rightarrow> bool \<Rightarrow> update_file_chunk" where
  "eof_chunk old new eof =
     \<lparr>change_context = None, old_lines = [old], new_lines = [new], context_line_indices = [],
      is_end_of_file = eof\<rparr>"


definition sample_update_chunk :: update_file_chunk where
  "sample_update_chunk =
     \<lparr>change_context = None, old_lines = [str ''keep'', str ''old''], new_lines = [str ''keep'', str ''new''],
      context_line_indices = [(0, 0)], is_end_of_file = False\<rparr>"

lemma sample_update_chunk_ok:
  "context_ok sample_update_chunk" "change_context sample_update_chunk = None"
  "\<not> is_end_of_file sample_update_chunk" "old_lines sample_update_chunk = [str ''keep'', str ''old'']"
  "new_lines sample_update_chunk = [str ''keep'', str ''new'']"
  "first_verbatim [str ''a''] [str ''keep'', str ''old''] [str ''z'']"
  by (auto simp: sample_update_chunk_def context_ok_def first_verbatim_def str_def)

theorem update_lf_single_witness:
  "lf_lines (join [LF] [str ''a'', str ''keep'', str ''old'', str ''z'', []]) =
     [str ''a'', str ''keep'', str ''old'', str ''z''] \<and>
   new_contents_from_chunks (join [LF] [str ''a'', str ''keep'', str ''old'', str ''z'', []]) (str ''f'')
     [sample_update_chunk] NormalizeToLf =
   Ok (join [LF] [str ''a'', str ''keep'', str ''new'', str ''z'', []])"
proof -
  have l: "lf_lines (join [LF] [str ''a'', str ''keep'', str ''old'', str ''z'', []]) =
      [str ''a'', str ''keep'', str ''old'', str ''z'']" by code_simp
  have "lf_contents [str ''a'', str ''keep'', str ''new'', str ''z''] =
      join [LF] [str ''a'', str ''keep'', str ''new'', str ''z'', []]" by code_simp
  with l update_lf_single [of "[str ''a'']" sample_update_chunk "[str ''z'']"
      "join [LF] [str ''a'', str ''keep'', str ''old'', str ''z'', []]" "str ''f''"]
    sample_update_chunk_ok
  show ?thesis by simp
qed

definition sample_crlf_file :: ustring where
  "sample_crlf_file =
     str ''a'' @ [LF] @ str ''keep'' @ [LF] @ str ''old'' @ [CR, LF] @ str ''z''"

theorem update_preserve_single_witness:
  "line_texts (sf_parse sample_crlf_file) = [str ''a'', str ''keep'', str ''old'', str ''z''] \<and>
   (\<exists>reps. new_contents_from_chunks sample_crlf_file (str ''f'') [sample_update_chunk] PreserveLineEndings =
      Ok (into_contents (spliced_file (sf_parse sample_crlf_file) reps)) \<and>
    line_texts (spliced_file (sf_parse sample_crlf_file) reps) = [str ''a'', str ''keep'', str ''new'', str ''z''])"
proof -
  have l: "line_texts (sf_parse sample_crlf_file) = [str ''a'', str ''keep'', str ''old'', str ''z'']"
    by code_simp
  with update_preserve_single [of "[str ''a'']" sample_update_chunk "[str ''z'']" sample_crlf_file "str ''f''"]
    sample_update_chunk_ok
  show ?thesis by auto
qed

theorem update_preserve_splice_witness:
  "\<exists>reps. valid_reps 0 4 reps \<and>
     new_contents_from_chunks sample_crlf_file (str ''f'') [sample_update_chunk] PreserveLineEndings =
       Ok (into_contents (spliced_file (sf_parse sample_crlf_file) reps))"
proof -
  have l: "length (line_texts (sf_parse sample_crlf_file)) = 4" by code_simp
  obtain out where "new_contents_from_chunks sample_crlf_file (str ''f'') [sample_update_chunk] PreserveLineEndings = Ok out"
  proof
    show "new_contents_from_chunks sample_crlf_file (str ''f'') [sample_update_chunk] PreserveLineEndings =
        Ok (str ''a'' @ [LF] @ str ''keep'' @ [LF] @ str ''new'' @ [LF] @ str ''z'' @ [LF])"
      by code_simp
  qed
  with update_preserve_splice [of "[sample_update_chunk]" sample_crlf_file "str ''f''" out]
    sample_update_chunk_ok l
  show ?thesis by auto
qed

end
