(* ===== verification/File_System.thy ===== *)
theory File_System
  imports Rust_Prelude "HOL-Library.List_Lexorder"
begin

text \<open>
  The file-system interface of \<open>codex-rs/file-system/src/lib.rs\<close>. The trait
  \<open>ExecutorFileSystem\<close> is implemented by the operating system or a remote executor, so a file
  system is a parameter: a record of the trait's operations over an abstract world \<open>'w\<close> and abstract
  path URIs \<open>'p\<close>. An operation that may write returns the world it leaves, also when it fails. The
  lexical operations of path URIs (crate path-uri, built on the url library) are a second record.

  The bounded breadth-first walk that the trait provides on top of these operations is modelled in
  full; lemmas: it terminates, and it respects its limits on entries, directories and response size.
\<close>

section \<open>The trait\<close>

datatype io_error_kind = NotFound | AlreadyExists | InvalidInput | InvalidData | OtherKind nat

record io_error =
  io_kind :: io_error_kind
  io_message :: ustring

record file_metadata =
  is_directory :: bool
  is_file :: bool
  is_symlink :: bool
  size_bytes :: nat
  created_at_ms :: int
  modified_at_ms :: int

record remove_options =
  ro_recursive :: bool
  ro_force :: bool

record read_directory_entry =
  file_name :: ustring
  entry_is_directory :: bool
  entry_is_file :: bool

record ('w, 'p) file_system =
  canonicalize :: "'w \<Rightarrow> 'p \<Rightarrow> ('p, io_error) result"
  read_file_text :: "'w \<Rightarrow> 'p \<Rightarrow> (ustring, io_error) result"
  write_file :: "'w \<Rightarrow> 'p \<Rightarrow> ustring \<Rightarrow> 'w \<times> (unit, io_error) result"
  create_directory :: "'w \<Rightarrow> 'p \<Rightarrow> bool \<Rightarrow> 'w \<times> (unit, io_error) result" \<comment> \<open>flag \<open>recursive\<close>\<close>
  get_metadata :: "'w \<Rightarrow> 'p \<Rightarrow> (file_metadata, io_error) result"
  read_directory :: "'w \<Rightarrow> 'p \<Rightarrow> (read_directory_entry list, io_error) result"
  fs_remove :: "'w \<Rightarrow> 'p \<Rightarrow> remove_options \<Rightarrow> 'w \<times> (unit, io_error) result"

text \<open>
  Path URIs (\<open>codex-rs/utils/path-uri/src/lib.rs\<close>); a parse error is its message. The path
  convention of a URI decides how native path text is split into segments.
\<close>

datatype path_convention = Posix | Windows

definition is_separator :: "path_convention \<Rightarrow> uchar \<Rightarrow> bool" where
  "is_separator c ch \<longleftrightarrow> (case c of Posix \<Rightarrow> ch = 47 | Windows \<Rightarrow> ch = 47 \<or> ch = 92)"

definition path_segments :: "path_convention \<Rightarrow> ustring \<Rightarrow> ustring list" where
  "path_segments c path = split_pred (is_separator c) path"

record 'p path_ops =
  uri_join :: "'p \<Rightarrow> ustring \<Rightarrow> ('p, ustring) result"
  uri_parent :: "'p \<Rightarrow> 'p option"
  inferred_native_path_string :: "'p \<Rightarrow> ustring"
  uri_to_string :: "'p \<Rightarrow> ustring"
  infer_path_convention :: "'p \<Rightarrow> path_convention option"

section \<open>The bounded walk\<close>

record walk_options =
  max_depth :: nat
  max_directories :: nat
  max_entries :: nat
  follow_directory_symlinks :: bool
  prune_hidden_directories :: bool

datatype walk_entry_kind = WalkDirectory | WalkFile

record 'p walk_entry =
  we_path :: 'p
  we_kind :: walk_entry_kind

record 'p walk_error =
  werr_path :: 'p
  werr_message :: ustring

record 'p walk_outcome =
  wo_entries :: "'p walk_entry list"
  wo_errors :: "'p walk_error list"
  wo_truncated :: bool

definition MAX_WALK_DEPTH :: nat where "MAX_WALK_DEPTH = 64"
definition MAX_WALK_DIRECTORIES :: nat where "MAX_WALK_DIRECTORIES = 10000"
definition MAX_WALK_ENTRIES :: nat where "MAX_WALK_ENTRIES = 50000"
definition MAX_WALK_RESPONSE_BYTES :: nat where "MAX_WALK_RESPONSE_BYTES = 4 * 1024 * 1024"
definition WALK_RESPONSE_ITEM_OVERHEAD_BYTES :: nat where "WALK_RESPONSE_ITEM_OVERHEAD_BYTES = 64"

definition default_outcome :: "'p walk_outcome" where
  "default_outcome = \<lparr>wo_entries = [], wo_errors = [], wo_truncated = False\<rparr>"

text \<open>The mutable variables of the walk.\<close>

record 'p walk_state =
  outcome :: "'p walk_outcome"
  queue :: "('p \<times> nat) list"
  visited_directories :: "'p list"
  directory_count :: nat
  entry_count :: nat
  response_bytes :: nat

definition reserve_walk_response_bytes :: "'p walk_state \<Rightarrow> nat \<Rightarrow> 'p walk_state \<times> bool" where
  "reserve_walk_response_bytes st content_bytes =
     (let item_bytes = saturating_add content_bytes WALK_RESPONSE_ITEM_OVERHEAD_BYTES;
          total_bytes = response_bytes st + item_bytes
      in if total_bytes > USIZE_MAX \<or> total_bytes > MAX_WALK_RESPONSE_BYTES
         then (st\<lparr>outcome := (outcome st)\<lparr>wo_truncated := True\<rparr>\<rparr>, False)
         else (st\<lparr>response_bytes := total_bytes\<rparr>, True))"

definition push_walk_error :: "'p path_ops \<Rightarrow> 'p walk_state \<Rightarrow> 'p \<Rightarrow> ustring \<Rightarrow> 'p walk_state \<times> bool" where
  "push_walk_error po st path message =
     (let item_bytes = saturating_add (byte_len (uri_to_string po path)) (byte_len message)
      in case reserve_walk_response_bytes st item_bytes of
           (st', False) \<Rightarrow> (st', False)
         | (st', True) \<Rightarrow>
             (st'\<lparr>outcome := (outcome st')\<lparr>wo_errors :=
                wo_errors (outcome st') @ [\<lparr>werr_path = path, werr_message = message\<rparr>]\<rparr>\<rparr>, True))"

text \<open>
  One directory entry. The flag of the result tells whether the walk goes on (\<open>continue\<close> or the end
  of the loop body) or returns its outcome.
\<close>

definition enqueue_directory ::
  "walk_options \<Rightarrow> 'p walk_state \<Rightarrow> 'p \<Rightarrow> 'p \<Rightarrow> nat \<Rightarrow> 'p walk_state" where
  "enqueue_directory options st path directory_identity depth =
     (if directory_identity \<in> set (visited_directories st) then st
      else
        (let st = st\<lparr>visited_directories := directory_identity # visited_directories st\<rparr>
         in if directory_count st = max_directories options
            then st\<lparr>outcome := (outcome st)\<lparr>wo_truncated := True\<rparr>\<rparr>
            else st\<lparr>directory_count := directory_count st + 1, queue := queue st @ [(path, depth + 1)]\<rparr>))"

definition walk_found ::
  "('w, 'p) file_system \<Rightarrow> 'p path_ops \<Rightarrow> 'w \<Rightarrow> walk_options \<Rightarrow> nat \<Rightarrow> 'p walk_state \<Rightarrow>
   ustring \<Rightarrow> 'p \<Rightarrow> walk_entry_kind \<Rightarrow> 'p walk_state \<times> bool" where
  "walk_found fs po w options depth st name path kind =
     (case reserve_walk_response_bytes st (byte_len (uri_to_string po path)) of
        (st, False) \<Rightarrow> (st, False)
      | (st, True) \<Rightarrow>
          (let st = st\<lparr>outcome := (outcome st)\<lparr>wo_entries :=
                 wo_entries (outcome st) @ [\<lparr>we_path = path, we_kind = kind\<rparr>]\<rparr>\<rparr>
           in if kind = WalkDirectory \<and> depth < max_depth options then
                if prune_hidden_directories options \<and> prefix (str ''.'') name then (st, True)
                else if follow_directory_symlinks options then
                  (case canonicalize fs w path of
                     Ok directory_identity \<Rightarrow>
                       (enqueue_directory options st path directory_identity depth, True)
                   | Err error \<Rightarrow> push_walk_error po st path (io_message error))
                else (enqueue_directory options st path path depth, True)
              else (st, True)))"

definition walk_entry_step ::
  "('w, 'p) file_system \<Rightarrow> 'p path_ops \<Rightarrow> 'w \<Rightarrow> walk_options \<Rightarrow> 'p \<Rightarrow> nat \<Rightarrow>
   'p walk_state \<Rightarrow> read_directory_entry \<Rightarrow> 'p walk_state \<times> bool" where
  "walk_entry_step fs po w options directory depth st entry =
     (if entry_count st = max_entries options
      then (st\<lparr>outcome := (outcome st)\<lparr>wo_truncated := True\<rparr>\<rparr>, False)
      else
        (let st = st\<lparr>entry_count := entry_count st + 1\<rparr>
         in case uri_join po directory (file_name entry) of
              Err error \<Rightarrow> push_walk_error po st directory error
            | Ok path \<Rightarrow>
                (case get_metadata fs w path of
                   Err error \<Rightarrow> push_walk_error po st path (io_message error)
                 | Ok metadata \<Rightarrow>
                     if is_symlink metadata \<and>
                        (\<not> follow_directory_symlinks options \<or> \<not> is_directory metadata)
                     then (st, True)
                     else if is_directory metadata
                     then walk_found fs po w options depth st (file_name entry) path WalkDirectory
                     else if is_file metadata
                     then walk_found fs po w options depth st (file_name entry) path WalkFile
                     else (st, True))))"

fun walk_entries ::
  "('w, 'p) file_system \<Rightarrow> 'p path_ops \<Rightarrow> 'w \<Rightarrow> walk_options \<Rightarrow> 'p \<Rightarrow> nat \<Rightarrow>
   'p walk_state \<Rightarrow> read_directory_entry list \<Rightarrow> 'p walk_state \<times> bool" where
  "walk_entries fs po w options directory depth st [] = (st, True)"
| "walk_entries fs po w options directory depth st (entry # entries) =
     (case walk_entry_step fs po w options directory depth st entry of
        (st', False) \<Rightarrow> (st', False)
      | (st', True) \<Rightarrow> walk_entries fs po w options directory depth st' entries)"

text \<open>
  The loop over the queue. Entries are sorted by name, for which the order of UTF-8 bytes is the
  order of code points. The result \<open>None\<close> would be a walk that does not end.
\<close>

partial_function (option) walk_loop ::
  "('w, 'p) file_system \<Rightarrow> 'p path_ops \<Rightarrow> 'w \<Rightarrow> walk_options \<Rightarrow> 'p walk_state \<Rightarrow> 'p walk_outcome option" where
  "walk_loop fs po w options st =
     (case queue st of
        [] \<Rightarrow> Some (outcome st)
      | (directory, depth) # rest \<Rightarrow>
          (case read_directory fs w directory of
             Err error \<Rightarrow>
               (case push_walk_error po (st\<lparr>queue := rest\<rparr>) directory (io_message error) of
                  (st', go) \<Rightarrow> if go then walk_loop fs po w options st' else Some (outcome st'))
           | Ok entries \<Rightarrow>
               (case walk_entries fs po w options directory depth (st\<lparr>queue := rest\<rparr>)
                       (sort_key file_name entries) of
                  (st', go) \<Rightarrow> if go then walk_loop fs po w options st' else Some (outcome st'))))"

declare walk_loop.simps [code]

definition walk_limits_message :: ustring where
  "walk_limits_message = str ''filesystem walk limits must be greater than zero''"

definition walk_maximums_message :: ustring where
  "walk_maximums_message =
     str ''filesystem walk limits exceed maximums: depth='' @ show_nat MAX_WALK_DEPTH @
     str '', directories='' @ show_nat MAX_WALK_DIRECTORIES @
     str '', entries='' @ show_nat MAX_WALK_ENTRIES"

definition walk_via_directory_reads ::
  "('w, 'p) file_system \<Rightarrow> 'p path_ops \<Rightarrow> 'w \<Rightarrow> 'p \<Rightarrow> walk_options \<Rightarrow>
   ('p walk_outcome, io_error) result option" where
  "walk_via_directory_reads fs po w root options =
     (if max_directories options = 0 \<or> max_entries options = 0
      then Some (Err \<lparr>io_kind = InvalidInput, io_message = walk_limits_message\<rparr>)
      else if max_depth options > MAX_WALK_DEPTH \<or> max_directories options > MAX_WALK_DIRECTORIES \<or>
              max_entries options > MAX_WALK_ENTRIES
      then Some (Err \<lparr>io_kind = InvalidInput, io_message = walk_maximums_message\<rparr>)
      else
        (case get_metadata fs w root of
           Err e \<Rightarrow> Some (Err e)
         | Ok root_metadata \<Rightarrow>
             if \<not> is_directory root_metadata \<or>
                (is_symlink root_metadata \<and> \<not> follow_directory_symlinks options)
             then Some (Ok default_outcome)
             else
               (case (if follow_directory_symlinks options then canonicalize fs w root else Ok root) of
                  Err e \<Rightarrow> Some (Err e)
                | Ok root_identity \<Rightarrow>
                    map_option Ok
                      (walk_loop fs po w options
                         \<lparr>outcome = default_outcome, queue = [(root, 0)],
                          visited_directories = [root_identity], directory_count = 1,
                          entry_count = 0, response_bytes = 0\<rparr>))))"

section \<open>The walk respects its limits\<close>

definition entry_bytes :: "'p path_ops \<Rightarrow> 'p walk_entry \<Rightarrow> nat" where
  "entry_bytes po e = byte_len (uri_to_string po (we_path e)) + WALK_RESPONSE_ITEM_OVERHEAD_BYTES"

definition error_bytes :: "'p path_ops \<Rightarrow> 'p walk_error \<Rightarrow> nat" where
  "error_bytes po e =
     byte_len (uri_to_string po (werr_path e)) + byte_len (werr_message e) + WALK_RESPONSE_ITEM_OVERHEAD_BYTES"

definition outcome_bytes :: "'p path_ops \<Rightarrow> 'p walk_outcome \<Rightarrow> nat" where
  "outcome_bytes po o' =
     sum_list (map (entry_bytes po) (wo_entries o')) + sum_list (map (error_bytes po) (wo_errors o'))"

definition walk_inv :: "'p path_ops \<Rightarrow> walk_options \<Rightarrow> 'p walk_state \<Rightarrow> bool" where
  "walk_inv po options st \<longleftrightarrow>
     entry_count st \<le> max_entries options \<and>
     length (wo_entries (outcome st)) \<le> entry_count st \<and>
     outcome_bytes po (outcome st) = response_bytes st \<and>
     response_bytes st \<le> MAX_WALK_RESPONSE_BYTES \<and>
     directory_count st \<le> max_directories options"

text \<open>What is left to do: directories that wait, and directories that may still be added.\<close>

definition walk_measure :: "walk_options \<Rightarrow> 'p walk_state \<Rightarrow> nat" where
  "walk_measure options st = (max_directories options - directory_count st) + length (queue st)"

lemma saturating_add_exact: "saturating_add a b \<le> MAX_WALK_RESPONSE_BYTES \<Longrightarrow> saturating_add a b = a + b"
  by (auto simp: saturating_add_def USIZE_MAX_def MAX_WALK_RESPONSE_BYTES_def min_def split: if_splits)

lemma reserve_ok:
  assumes "reserve_walk_response_bytes st n = (st', True)"
  shows "st' = st\<lparr>response_bytes := response_bytes st + n + WALK_RESPONSE_ITEM_OVERHEAD_BYTES\<rparr>"
    "response_bytes st' \<le> MAX_WALK_RESPONSE_BYTES"
    "n + WALK_RESPONSE_ITEM_OVERHEAD_BYTES \<le> MAX_WALK_RESPONSE_BYTES"
  using assms saturating_add_exact [of n WALK_RESPONSE_ITEM_OVERHEAD_BYTES]
  by (auto simp: reserve_walk_response_bytes_def Let_def split: if_splits)

lemma reserve_full:
  assumes "reserve_walk_response_bytes st n = (st', False)"
  shows "st' = st\<lparr>outcome := (outcome st)\<lparr>wo_truncated := True\<rparr>\<rparr>"
  using assms by (auto simp: reserve_walk_response_bytes_def Let_def split: if_splits)

lemma push_walk_error_inv:
  assumes "push_walk_error po st path m = (st', go)" "walk_inv po options st"
  shows "walk_inv po options st'" "walk_measure options st' = walk_measure options st"
proof -
  let ?n = "saturating_add (byte_len (uri_to_string po path)) (byte_len m)"
  obtain st1 b where r: "reserve_walk_response_bytes st ?n = (st1, b)" by (cases "reserve_walk_response_bytes st ?n")
  have "walk_inv po options st' \<and> walk_measure options st' = walk_measure options st"
  proof (cases b)
    case True
    then have r': "reserve_walk_response_bytes st ?n = (st1, True)" using r by simp
    note ok = reserve_ok [OF r']
    then have "?n = byte_len (uri_to_string po path) + byte_len m"
      by (intro saturating_add_exact) simp
    with ok assms r' show ?thesis
      by (auto simp: push_walk_error_def Let_def walk_inv_def walk_measure_def outcome_bytes_def error_bytes_def)
  next
    case False
    then have r': "reserve_walk_response_bytes st ?n = (st1, False)" using r by simp
    from reserve_full [OF r'] assms r' show ?thesis
      by (auto simp: push_walk_error_def Let_def walk_inv_def walk_measure_def outcome_bytes_def)
  qed
  then show "walk_inv po options st'" "walk_measure options st' = walk_measure options st" by auto
qed

lemma enqueue_directory_inv:
  assumes "walk_inv po options st"
  shows "walk_inv po options (enqueue_directory options st p i d)"
    "walk_measure options (enqueue_directory options st p i d) = walk_measure options st"
  using assms
  by (auto simp: enqueue_directory_def Let_def walk_inv_def walk_measure_def outcome_bytes_def)

lemma walk_found_inv:
  assumes "walk_found fs po w options depth st name path kind = (st', go)" "walk_inv po options st"
    "length (wo_entries (outcome st)) < entry_count st"
  shows "walk_inv po options st' \<and> walk_measure options st' = walk_measure options st"
proof -
  let ?n = "byte_len (uri_to_string po path)"
  obtain st1 b where r: "reserve_walk_response_bytes st ?n = (st1, b)" by (cases "reserve_walk_response_bytes st ?n")
  show ?thesis
  proof (cases b)
    case False
    then have r': "reserve_walk_response_bytes st ?n = (st1, False)" using r by simp
    from reserve_full [OF r'] assms r' show ?thesis
      by (auto simp: walk_found_def walk_inv_def walk_measure_def outcome_bytes_def)
  next
    case True
    then have r': "reserve_walk_response_bytes st ?n = (st1, True)" using r by simp
    let ?st = "st1\<lparr>outcome := (outcome st1)\<lparr>wo_entries := wo_entries (outcome st1) @ [\<lparr>we_path = path, we_kind = kind\<rparr>]\<rparr>\<rparr>"
    note ok = reserve_ok [OF r']
    have inv: "walk_inv po options ?st" and m: "walk_measure options ?st = walk_measure options st"
      using ok assms(2,3) by (auto simp: walk_inv_def walk_measure_def outcome_bytes_def entry_bytes_def)
    have "st' = ?st \<or> (\<exists>i. st' = enqueue_directory options ?st path i depth) \<or>
        (\<exists>e. push_walk_error po ?st path e = (st', go))"
      using assms(1) r' by (auto simp: walk_found_def Let_def split: if_splits sum.splits)
    with inv m enqueue_directory_inv [OF inv] push_walk_error_inv [OF _ inv] show ?thesis by metis
  qed
qed

lemma walk_entry_step_inv:
  assumes "walk_entry_step fs po w options dir depth st e = (st', go)" "walk_inv po options st"
  shows "walk_inv po options st' \<and> walk_measure options st' = walk_measure options st"
proof (cases "entry_count st = max_entries options")
  case True
  with assms show ?thesis
    by (auto simp: walk_entry_step_def walk_inv_def walk_measure_def outcome_bytes_def)
next
  case False
  let ?st = "st\<lparr>entry_count := entry_count st + 1\<rparr>"
  have inv: "walk_inv po options ?st" "length (wo_entries (outcome ?st)) < entry_count ?st"
    and m: "walk_measure options ?st = walk_measure options st"
    using assms(2) False by (auto simp: walk_inv_def walk_measure_def)
  have "st' = ?st \<or> (\<exists>p e. push_walk_error po ?st p e = (st', go)) \<or>
      (\<exists>n p k. walk_found fs po w options depth ?st n p k = (st', go))"
    using assms(1) False by (auto simp: walk_entry_step_def Let_def split: if_splits sum.splits)
  with inv m push_walk_error_inv [OF _ inv(1)] walk_found_inv [OF _ inv] show ?thesis by metis
qed

lemma walk_entries_inv:
  "walk_entries fs po w options dir depth st es = (st', go) \<Longrightarrow> walk_inv po options st \<Longrightarrow>
   walk_inv po options st' \<and> walk_measure options st' = walk_measure options st"
proof (induction es arbitrary: st)
  case (Cons e es)
  obtain st1 b where s: "walk_entry_step fs po w options dir depth st e = (st1, b)"
    by (cases "walk_entry_step fs po w options dir depth st e")
  note inv = walk_entry_step_inv [OF s Cons.prems(2)]
  show ?case
  proof (cases b)
    case True
    with Cons s have "walk_entries fs po w options dir depth st1 es = (st', go)" by simp
    with Cons.IH inv show ?thesis by metis
  next
    case False
    with Cons.prems s inv show ?thesis by simp
  qed
qed simp

lemma walk_loop_total:
  "walk_inv po options st \<Longrightarrow>
   \<exists>st'. walk_loop fs po w options st = Some (outcome st') \<and> walk_inv po options st'"
proof (induction "walk_measure options st" arbitrary: st rule: less_induct)
  case less
  show ?case
  proof (cases "queue st")
    case Nil
    then show ?thesis using less.prems by (subst walk_loop.simps) auto
  next
    case (Cons d rest)
    obtain directory depth where d: "d = (directory, depth)" by (cases d)
    let ?st = "st\<lparr>queue := rest\<rparr>"
    have inv: "walk_inv po options ?st" using less.prems by (simp add: walk_inv_def)
    have m: "walk_measure options ?st < walk_measure options st"
      using Cons by (simp add: walk_measure_def)
    have step: "\<exists>st'. (if go then walk_loop fs po w options st1 else Some (outcome st1)) = Some (outcome st') \<and>
        walk_inv po options st'"
      if "walk_inv po options st1" "walk_measure options st1 = walk_measure options ?st" for st1 go
      using less.hyps [of st1] that m by auto
    show ?thesis
    proof (cases "read_directory fs w directory")
      case (Inl e)
      obtain st1 go where r: "push_walk_error po ?st directory (io_message e) = (st1, go)"
        by (cases "push_walk_error po ?st directory (io_message e)")
      from step [OF push_walk_error_inv [OF r inv]] show ?thesis
        by (subst walk_loop.simps) (simp add: Cons d Inl r)
    next
      case (Inr es)
      obtain st1 go where r: "walk_entries fs po w options directory depth ?st (sort_key file_name es) = (st1, go)"
        by (cases "walk_entries fs po w options directory depth ?st (sort_key file_name es)")
      from step walk_entries_inv [OF r inv] show ?thesis
        by (subst walk_loop.simps) (simp add: Cons d Inr r)
    qed
  qed
qed

lemma walk_total: "\<exists>r. walk_via_directory_reads fs po w root options = Some r"
proof -
  have "\<exists>o'. walk_loop fs po w options
      \<lparr>outcome = default_outcome, queue = [(root, 0)], visited_directories = [i], directory_count = 1,
       entry_count = 0, response_bytes = 0\<rparr> = Some o'"
    if "max_directories options \<noteq> 0" for i
    using that walk_loop_total [of po options
        "\<lparr>outcome = default_outcome, queue = [(root, 0)], visited_directories = [i], directory_count = 1,
          entry_count = 0, response_bytes = 0\<rparr>" fs w]
    by (auto simp: walk_inv_def default_outcome_def outcome_bytes_def)
  then show ?thesis
    by (auto simp: walk_via_directory_reads_def split: sum.splits)
qed

lemma walk_ok_bounds:
  assumes "walk_via_directory_reads fs po w root options = Some (Ok o')"
  shows "length (wo_entries o') \<le> max_entries options \<and> max_entries options \<le> MAX_WALK_ENTRIES \<and>
    outcome_bytes po o' \<le> MAX_WALK_RESPONSE_BYTES"
proof -
  let ?st = "\<lambda>i. \<lparr>outcome = default_outcome, queue = [(root, 0)], visited_directories = [i],
      directory_count = 1, entry_count = 0, response_bytes = 0\<rparr>"
  have lim: "max_entries options \<le> MAX_WALK_ENTRIES" "max_directories options \<noteq> 0"
    using assms by (auto simp: walk_via_directory_reads_def split: if_splits)
  have "o' = default_outcome \<or> (\<exists>i. walk_loop fs po w options (?st i) = Some o')"
    using assms by (auto simp: walk_via_directory_reads_def split: if_splits sum.splits)
  moreover have "walk_inv po options (?st i)" for i
    using lim by (auto simp: walk_inv_def default_outcome_def outcome_bytes_def)
  ultimately have "o' = default_outcome \<or> (\<exists>st. o' = outcome st \<and> walk_inv po options st)"
    using walk_loop_total [of po options _ fs w] by (metis option.inject)
  then show ?thesis using lim
    by (auto simp: walk_inv_def default_outcome_def outcome_bytes_def)
qed

text \<open>
  C15: the bounded walk ends on every file system, also one with symlink cycles or directories that
  change their contents between reads, and what it returns is bounded: never more entries than
  \<open>max_entries\<close>, and paths and messages that with their per-item overhead stay within the response
  limit of four mebibytes.
\<close>

theorem walk_bounded:
  "\<exists>r. walk_via_directory_reads fs po w root options = Some r \<and>
     (case r of
        Ok o' \<Rightarrow> length (wo_entries o') \<le> max_entries options \<and> max_entries options \<le> MAX_WALK_ENTRIES \<and>
          outcome_bytes po o' \<le> MAX_WALK_RESPONSE_BYTES
      | Err e \<Rightarrow> True)"
proof -
  from walk_total [of fs po w root options]
  obtain r where "walk_via_directory_reads fs po w root options = Some r" by blast
  moreover have "case r of Ok o' \<Rightarrow> length (wo_entries o') \<le> max_entries options \<and>
      max_entries options \<le> MAX_WALK_ENTRIES \<and> outcome_bytes po o' \<le> MAX_WALK_RESPONSE_BYTES
    | Err e \<Rightarrow> True"
    using calculation walk_ok_bounds [of fs po w root options] by (simp split: sum.split)
  ultimately show ?thesis by blast
qed

end
