(* ===== verification/Patch_Apply.thy ===== *)
theory Patch_Apply
  imports Patch_Update File_System
begin

text \<open>
  Applying a parsed patch to a file system: \<open>codex-rs/apply-patch/src/lib.rs\<close>. The file system and
  the path URIs are parameters (\<open>File_System\<close>). Every step returns the world it leaves; the delta
  that the caller receives beside a result or a failure is threaded as in the code.

  Lemmas: when the delta is marked exact, replaying its changes on the old files gives the new
  files, and undoing them backwards gives the old files again, also when applying failed half-way.
\<close>

section \<open>Errors, deltas and results\<close>

text \<open>
  An \<open>anyhow::Error\<close>: what it displays, and the \<open>io::Error\<close> that \<open>downcast_ref\<close> finds in it.
\<close>

record any_error =
  any_display :: ustring
  any_io :: "io_error option"

definition io_with_context :: "ustring \<Rightarrow> io_error \<Rightarrow> any_error" where
  "io_with_context context e = \<lparr>any_display = context, any_io = Some e\<rparr>"

fun display_parse_error :: "parse_error \<Rightarrow> ustring" where
  "display_parse_error (InvalidPatchError m) = str ''invalid patch: '' @ m"
| "display_parse_error (InvalidHunkError m n) =
     str ''invalid hunk at line '' @ show_nat n @ str '', '' @ m"

fun display_patch_error :: "patch_error \<Rightarrow> ustring" where
  "display_patch_error (ParseError e) = display_parse_error e"
| "display_patch_error (IoError context source) = context @ str '': '' @ source"
| "display_patch_error (ComputeReplacements m) = m"
| "display_patch_error (PathUri m) = m"
| "display_patch_error ImplicitInvocation =
     str ''patch detected without explicit call to apply_patch. Rerun as [\"apply_patch\", \"<patch>\"]''"
| "display_patch_error Panicked = []"

definition any_of_patch_error :: "patch_error \<Rightarrow> any_error" where
  "any_of_patch_error e = \<lparr>any_display = display_patch_error e, any_io = None\<rparr>"

definition any_of_message :: "ustring \<Rightarrow> any_error" where
  "any_of_message m = \<lparr>any_display = m, any_io = None\<rparr>"

datatype 'p applied_patch_file_change =
  AppliedAdd ustring "ustring option" \<comment> \<open>\<open>content\<close>, \<open>overwritten_content\<close>\<close>
| AppliedDelete ustring
| AppliedUpdate "'p option" ustring "ustring option" ustring
    \<comment> \<open>\<open>move_path\<close>, \<open>old_content\<close>, \<open>overwritten_move_content\<close>, \<open>new_content\<close>\<close>

record 'p applied_patch_change =
  apc_path :: 'p
  apc_change :: "'p applied_patch_file_change"

record 'p applied_patch_delta =
  changes :: "'p applied_patch_change list"
  exact :: bool

definition empty_delta :: "'p applied_patch_delta" where
  "empty_delta = \<lparr>changes = [], exact = True\<rparr>"

definition delta_append ::
  "'p applied_patch_delta \<Rightarrow> 'p applied_patch_delta \<Rightarrow> 'p applied_patch_delta" where
  "delta_append d other = \<lparr>changes = changes d @ changes other, exact = (exact d \<and> exact other)\<rparr>"

abbreviation push_change ::
  "'p \<Rightarrow> 'p applied_patch_file_change \<Rightarrow> 'p applied_patch_delta \<Rightarrow> 'p applied_patch_delta" where
  "push_change p c d \<equiv> d\<lparr>changes := changes d @ [\<lparr>apc_path = p, apc_change = c\<rparr>]\<rparr>"

record 'p apply_patch_failure =
  failure_error :: patch_error
  failure_delta :: "'p applied_patch_delta"

record affected_paths =
  added :: "ustring list"
  modified :: "ustring list"
  deleted :: "ustring list"

section \<open>File-system helpers\<close>

definition ensure_not_directory :: "('w, 'p) file_system \<Rightarrow> 'w \<Rightarrow> 'p \<Rightarrow> (unit, io_error) result" where
  "ensure_not_directory fs w path =
     result_bind (get_metadata fs w path)
       (\<lambda>metadata.
          if is_directory metadata
          then Err \<lparr>io_kind = InvalidInput, io_message = str ''path is a directory''\<rparr>
          else Ok ())"

definition remove_failure_was_side_effect_free ::
  "('w, 'p) file_system \<Rightarrow> 'w \<Rightarrow> 'p \<Rightarrow> ustring option \<Rightarrow> bool" where
  "remove_failure_was_side_effect_free fs w path expected_content =
     (case expected_content of
        Some expected \<Rightarrow> read_file_text fs w path = Ok expected
      | None \<Rightarrow> False)"

definition note_existing_path_delta_support ::
  "('w, 'p) file_system \<Rightarrow> 'w \<Rightarrow> 'p \<Rightarrow> bool \<Rightarrow> bool" where
  "note_existing_path_delta_support fs w path exact0 =
     (case get_metadata fs w path of
        Ok metadata \<Rightarrow> if is_file metadata \<and> \<not> is_symlink metadata then exact0 else False
      | Err source \<Rightarrow> if io_kind source = NotFound then exact0 else False)"

definition read_optional_file_text_for_delta ::
  "('w, 'p) file_system \<Rightarrow> 'w \<Rightarrow> 'p \<Rightarrow> bool \<Rightarrow> ustring option \<times> bool" where
  "read_optional_file_text_for_delta fs w path exact0 =
     (let exact1 = note_existing_path_delta_support fs w path exact0
      in case read_file_text fs w path of
           Ok content \<Rightarrow> (Some content, exact1)
         | Err source \<Rightarrow> if io_kind source = NotFound then (None, exact1) else (None, False))"

definition failed_to_write :: "'p path_ops \<Rightarrow> 'p \<Rightarrow> ustring" where
  "failed_to_write po path = str ''Failed to write file '' @ inferred_native_path_string po path"

definition write_file_with_missing_parent_retry ::
  "('w, 'p) file_system \<Rightarrow> 'p path_ops \<Rightarrow> 'w \<Rightarrow> 'p \<Rightarrow> ustring \<Rightarrow> 'w \<times> (unit, any_error) result" where
  "write_file_with_missing_parent_retry fs po w path contents =
     (case write_file fs w path contents of
        (w1, Ok _) \<Rightarrow> (w1, Ok ())
      | (w1, Err err) \<Rightarrow>
          if io_kind err = NotFound then
            (case (case uri_parent po path of
                     Some parent \<Rightarrow> create_directory fs w1 parent True
                   | None \<Rightarrow> (w1, Ok ())) of
               (w2, Err e) \<Rightarrow>
                 (w2, Err (io_with_context
                   (str ''Failed to create parent directories for '' @ inferred_native_path_string po path) e))
             | (w2, Ok _) \<Rightarrow>
                 (case write_file fs w2 path contents of
                    (w3, Ok _) \<Rightarrow> (w3, Ok ())
                  | (w3, Err e) \<Rightarrow> (w3, Err (io_with_context (failed_to_write po path) e))))
          else (w1, Err (io_with_context (failed_to_write po path) err)))"

text \<open>\<open>derive_new_contents_from_chunks\<close> of file\_update.rs: the original and the new contents.\<close>

definition derive_new_contents_from_chunks ::
  "('w, 'p) file_system \<Rightarrow> 'p path_ops \<Rightarrow> 'w \<Rightarrow> 'p \<Rightarrow> update_file_chunk list \<Rightarrow> update_mode \<Rightarrow>
   (ustring \<times> ustring, patch_error) result" where
  "derive_new_contents_from_chunks fs po w path chunks md =
     result_bind
       (map_err (\<lambda>err. IoError (str ''Failed to read file to update '' @ inferred_native_path_string po path)
            (io_message err))
          (read_file_text fs w path))
       (\<lambda>original_contents.
          result_bind (new_contents_from_chunks original_contents (inferred_native_path_string po path) chunks md)
            (\<lambda>new_contents. Ok (original_contents, new_contents)))"

fun hunk_source_path :: "hunk \<Rightarrow> ustring" where
  "hunk_source_path (UpdateFile path _ _) = path"
| "hunk_source_path h = hunk_path h"

definition resolve_path :: "'p path_ops \<Rightarrow> 'p \<Rightarrow> hunk \<Rightarrow> ('p, ustring) result" where
  "resolve_path po cwd h = uri_join po cwd (hunk_source_path h)"

section \<open>One hunk\<close>

type_synonym ('w, 'p) hunk_run = "'w \<times> 'p applied_patch_delta \<times> (unit, any_error) result"

definition remove_opts :: remove_options where
  "remove_opts = \<lparr>ro_recursive = False, ro_force = False\<rparr>"

text \<open>
  The check that the path is no directory and its removal, with the context message of the caller
  and the contents that a failed removal should have left.
\<close>

definition remove_checked ::
  "('w, 'p) file_system \<Rightarrow> 'w \<Rightarrow> 'p \<Rightarrow> ustring \<Rightarrow> ustring option \<Rightarrow> 'p applied_patch_delta \<Rightarrow>
   ('w, 'p) hunk_run" where
  "remove_checked fs w path context expected d =
     (case ensure_not_directory fs w path of
        Err e \<Rightarrow> (w, d, Err (io_with_context context e))
      | Ok _ \<Rightarrow>
          (case fs_remove fs w path remove_opts of
             (w', Err e) \<Rightarrow>
               (w', d\<lparr>exact := exact d \<and> remove_failure_was_side_effect_free fs w' path expected\<rparr>,
                Err (io_with_context context e))
           | (w', Ok _) \<Rightarrow> (w', d, Ok ())))"

definition apply_add_file ::
  "('w, 'p) file_system \<Rightarrow> 'p path_ops \<Rightarrow> 'w \<Rightarrow> 'p applied_patch_delta \<Rightarrow> 'p \<Rightarrow> ustring \<Rightarrow>
   ('w, 'p) hunk_run" where
  "apply_add_file fs po w d path contents =
     (case read_optional_file_text_for_delta fs w path (exact d) of
        (overwritten_content, exact') \<Rightarrow>
          (case write_file_with_missing_parent_retry fs po w path contents of
             (w', Err error) \<Rightarrow> (w', d\<lparr>exact := False\<rparr>, Err error)
           | (w', Ok _) \<Rightarrow>
               (w', push_change path (AppliedAdd contents overwritten_content) (d\<lparr>exact := exact'\<rparr>), Ok ())))"

definition apply_delete_file ::
  "('w, 'p) file_system \<Rightarrow> 'p path_ops \<Rightarrow> 'w \<Rightarrow> 'p applied_patch_delta \<Rightarrow> 'p \<Rightarrow> ('w, 'p) hunk_run" where
  "apply_delete_file fs po w d path =
     (let exact1 = note_existing_path_delta_support fs w path (exact d);
          deleted_content = result_ok (read_file_text fs w path);
          d1 = d\<lparr>exact := (exact1 \<and> deleted_content \<noteq> None)\<rparr>
      in case remove_checked fs w path
                (str ''Failed to delete file '' @ inferred_native_path_string po path) deleted_content d1 of
           (w', d2, Err e) \<Rightarrow> (w', d2, Err e)
         | (w', d2, Ok _) \<Rightarrow>
             (w', (case deleted_content of
                     Some content \<Rightarrow> push_change path (AppliedDelete content) d2
                   | None \<Rightarrow> d2), Ok ()))"

text \<open>
  A move writes the destination, records that as an addition, removes the source, and then turns the
  record into the update.
\<close>

definition apply_move ::
  "('w, 'p) file_system \<Rightarrow> 'p path_ops \<Rightarrow> 'w \<Rightarrow> 'p applied_patch_delta \<Rightarrow> 'p \<Rightarrow> 'p \<Rightarrow> ustring \<Rightarrow> ustring \<Rightarrow>
   ('w, 'p) hunk_run" where
  "apply_move fs po w d path dest original_contents new_contents =
     (case read_optional_file_text_for_delta fs w dest (exact d) of
        (overwritten_move_content, exact') \<Rightarrow>
          (case write_file_with_missing_parent_retry fs po w dest new_contents of
             (w', Err error) \<Rightarrow> (w', d\<lparr>exact := False\<rparr>, Err error)
           | (w', Ok _) \<Rightarrow>
               (case remove_checked fs w' path
                       (str ''Failed to remove original '' @ inferred_native_path_string po path)
                       (Some original_contents)
                       (push_change dest (AppliedAdd new_contents overwritten_move_content)
                          (d\<lparr>exact := exact'\<rparr>)) of
                  (w'', d2, Err e) \<Rightarrow> (w'', d2, Err e)
                | (w'', d2, Ok _) \<Rightarrow>
                    (w'', d2\<lparr>changes := (changes d2)[length (changes d) :=
                        \<lparr>apc_path = path,
                         apc_change = AppliedUpdate (Some dest) original_contents
                           overwritten_move_content new_contents\<rparr>]\<rparr>, Ok ()))))"

definition apply_update_file ::
  "('w, 'p) file_system \<Rightarrow> 'p path_ops \<Rightarrow> update_mode \<Rightarrow> 'p \<Rightarrow> 'w \<Rightarrow> 'p applied_patch_delta \<Rightarrow> 'p \<Rightarrow>
   ustring option \<Rightarrow> update_file_chunk list \<Rightarrow> ('w, 'p) hunk_run" where
  "apply_update_file fs po md cwd w d path move_path chunks =
     (let d1 = d\<lparr>exact := note_existing_path_delta_support fs w path (exact d)\<rparr>
      in case derive_new_contents_from_chunks fs po w path chunks md of
           Err e \<Rightarrow> (w, d1, Err (any_of_patch_error e))
         | Ok (original_contents, new_contents) \<Rightarrow>
             (case move_path of
                Some dest \<Rightarrow>
                  (case uri_join po cwd dest of
                     Err e \<Rightarrow> (w, d1, Err (any_of_message e))
                   | Ok dest_uri \<Rightarrow>
                       apply_move fs po w d1 path dest_uri original_contents new_contents)
              | None \<Rightarrow>
                  (case write_file fs w path new_contents of
                     (w', Err e) \<Rightarrow>
                       (w', d1\<lparr>exact := False\<rparr>, Err (io_with_context (failed_to_write po path) e))
                   | (w', Ok _) \<Rightarrow>
                       (w', push_change path (AppliedUpdate None original_contents None new_contents) d1,
                        Ok ()))))"

definition apply_hunk ::
  "('w, 'p) file_system \<Rightarrow> 'p path_ops \<Rightarrow> update_mode \<Rightarrow> 'p \<Rightarrow> 'w \<Rightarrow> 'p applied_patch_delta \<Rightarrow> hunk \<Rightarrow>
   ('w, 'p) hunk_run" where
  "apply_hunk fs po md cwd w d h =
     (case resolve_path po cwd h of
        Err e \<Rightarrow> (w, d, Err (any_of_message e))
      | Ok path_uri \<Rightarrow>
          (case h of
             AddFile _ contents \<Rightarrow> apply_add_file fs po w d path_uri contents
           | DeleteFile _ \<Rightarrow> apply_delete_file fs po w d path_uri
           | UpdateFile _ move_path chunks \<Rightarrow>
               apply_update_file fs po md cwd w d path_uri move_path chunks))"

section \<open>All hunks\<close>

fun note_affected :: "affected_paths \<Rightarrow> hunk \<Rightarrow> affected_paths" where
  "note_affected a (AddFile p c) = a\<lparr>added := added a @ [hunk_path (AddFile p c)]\<rparr>"
| "note_affected a (DeleteFile p) = a\<lparr>deleted := deleted a @ [hunk_path (DeleteFile p)]\<rparr>"
| "note_affected a (UpdateFile p m cs) = a\<lparr>modified := modified a @ [hunk_path (UpdateFile p m cs)]\<rparr>"

fun apply_hunk_list ::
  "('w, 'p) file_system \<Rightarrow> 'p path_ops \<Rightarrow> update_mode \<Rightarrow> 'p \<Rightarrow> 'w \<Rightarrow> 'p applied_patch_delta \<Rightarrow>
   affected_paths \<Rightarrow> hunk list \<Rightarrow> 'w \<times> 'p applied_patch_delta \<times> (affected_paths, any_error) result" where
  "apply_hunk_list fs po md cwd w d a [] = (w, d, Ok a)"
| "apply_hunk_list fs po md cwd w d a (h # hs) =
     (case apply_hunk fs po md cwd w d h of
        (w', d', Err e) \<Rightarrow> (w', d', Err e)
      | (w', d', Ok _) \<Rightarrow> apply_hunk_list fs po md cwd w' d' (note_affected a h) hs)"

definition no_affected :: affected_paths where
  "no_affected = \<lparr>added = [], modified = [], deleted = []\<rparr>"

definition apply_hunks_to_files ::
  "('w, 'p) file_system \<Rightarrow> 'p path_ops \<Rightarrow> update_mode \<Rightarrow> 'p \<Rightarrow> 'w \<Rightarrow> 'p applied_patch_delta \<Rightarrow>
   hunk list \<Rightarrow> 'w \<times> 'p applied_patch_delta \<times> (affected_paths, any_error) result" where
  "apply_hunks_to_files fs po md cwd w d hs =
     (if hs = [] then (w, d, Err (any_of_message (str ''No files were modified.'')))
      else apply_hunk_list fs po md cwd w d no_affected hs)"

section \<open>Summary and entry points\<close>

text \<open>
  A writer collects lines; \<open>w_fail n\<close> is the error of its write number \<open>n\<close>, if that write fails.
\<close>

record writer =
  w_lines :: "ustring list"
  w_fail :: "nat \<Rightarrow> io_error option"

definition writeln :: "writer \<Rightarrow> ustring \<Rightarrow> writer \<times> (unit, io_error) result" where
  "writeln out line =
     (case w_fail out (length (w_lines out)) of
        Some e \<Rightarrow> (out, Err e)
      | None \<Rightarrow> (out\<lparr>w_lines := w_lines out @ [line]\<rparr>, Ok ()))"

fun write_lines :: "writer \<Rightarrow> ustring list \<Rightarrow> writer \<times> (unit, io_error) result" where
  "write_lines out [] = (out, Ok ())"
| "write_lines out (l # ls) =
     (case writeln out l of (out', Err e) \<Rightarrow> (out', Err e) | (out', Ok _) \<Rightarrow> write_lines out' ls)"

definition print_summary :: "affected_paths \<Rightarrow> writer \<Rightarrow> writer \<times> (unit, io_error) result" where
  "print_summary affected out =
     write_lines out
       ([str ''Success. Updated the following files:''] @
        map ((@) (str ''A '')) (added affected) @ map ((@) (str ''M '')) (modified affected) @
        map ((@) (str ''D '')) (deleted affected))"

definition patch_error_of_io :: "io_error \<Rightarrow> patch_error" where
  "patch_error_of_io e = IoError (str ''I/O error'') (io_message e)"

type_synonym ('w, 'p) patch_run =
  "'w \<times> writer \<times> writer \<times> ('p applied_patch_delta, 'p apply_patch_failure) result"

definition apply_hunks_with_mode ::
  "('w, 'p) file_system \<Rightarrow> 'p path_ops \<Rightarrow> hunk list \<Rightarrow> update_mode \<Rightarrow> 'p \<Rightarrow> 'w \<Rightarrow> writer \<Rightarrow> writer \<Rightarrow>
   ('w, 'p) patch_run" where
  "apply_hunks_with_mode fs po hs md cwd w stdout stderr =
     (case apply_hunks_to_files fs po md cwd w empty_delta hs of
        (w', delta, Ok affected) \<Rightarrow>
          (case print_summary affected stdout of
             (stdout', Err e) \<Rightarrow>
               (w', stdout', stderr, Err \<lparr>failure_error = patch_error_of_io e, failure_delta = delta\<rparr>)
           | (stdout', Ok _) \<Rightarrow> (w', stdout', stderr, Ok delta))
      | (w', delta, Err error) \<Rightarrow>
          (case writeln stderr (any_display error) of
             (stderr', Err e) \<Rightarrow>
               (w', stdout, stderr', Err \<lparr>failure_error = patch_error_of_io e, failure_delta = delta\<rparr>)
           | (stderr', Ok _) \<Rightarrow>
               (w', stdout, stderr',
                Err \<lparr>failure_error =
                       (case any_io error of
                          Some io \<Rightarrow> patch_error_of_io io
                        | None \<Rightarrow> IoError (any_display error) (any_display error)),
                     failure_delta = delta\<rparr>)))"

definition apply_hunks ::
  "('w, 'p) file_system \<Rightarrow> 'p path_ops \<Rightarrow> hunk list \<Rightarrow> 'p \<Rightarrow> 'w \<Rightarrow> writer \<Rightarrow> writer \<Rightarrow> ('w, 'p) patch_run" where
  "apply_hunks fs po hs cwd w stdout stderr =
     apply_hunks_with_mode fs po hs NormalizeToLf cwd w stdout stderr"

definition invalid_patch_line :: "parse_error \<Rightarrow> ustring" where
  "invalid_patch_line e =
     (case e of
        InvalidPatchError message \<Rightarrow> str ''Invalid patch: '' @ message
      | InvalidHunkError message n \<Rightarrow>
          str ''Invalid patch hunk on line '' @ show_nat n @ str '': '' @ message)"

definition apply_patch_with_mode ::
  "('w, 'p) file_system \<Rightarrow> 'p path_ops \<Rightarrow> ustring \<Rightarrow> update_mode \<Rightarrow> 'p \<Rightarrow> 'w \<Rightarrow> writer \<Rightarrow> writer \<Rightarrow>
   ('w, 'p) patch_run" where
  "apply_patch_with_mode fs po patch md cwd w stdout stderr =
     (case parse_patch patch of
        Err e \<Rightarrow>
          (case writeln stderr (invalid_patch_line e) of
             (stderr', Err io) \<Rightarrow>
               (w, stdout, stderr', Err \<lparr>failure_error = patch_error_of_io io, failure_delta = empty_delta\<rparr>)
           | (stderr', Ok _) \<Rightarrow>
               (w, stdout, stderr', Err \<lparr>failure_error = ParseError e, failure_delta = empty_delta\<rparr>))
      | Ok source \<Rightarrow> apply_hunks_with_mode fs po (args_hunks source) md cwd w stdout stderr)"

definition apply_patch ::
  "('w, 'p) file_system \<Rightarrow> 'p path_ops \<Rightarrow> ustring \<Rightarrow> 'p \<Rightarrow> 'w \<Rightarrow> writer \<Rightarrow> writer \<Rightarrow> ('w, 'p) patch_run" where
  "apply_patch fs po patch cwd w stdout stderr =
     apply_patch_with_mode fs po patch NormalizeToLf cwd w stdout stderr"

definition apply_patch_file_update_mode_from_env :: "ustring option \<Rightarrow> update_mode" where
  "apply_patch_file_update_mode_from_env var =
     (if var = Some (str ''1'') then PreserveLineEndings else NormalizeToLf)"

section \<open>What the file system is relied on for\<close>

text \<open>
  \<open>view w p\<close> is the text of the regular file at \<open>p\<close>, if there is one. The laws state the documented
  behaviour of the operations on a path that is a plain file or does not exist: a successful read
  returns the text and a read that does not find the path means there is no file; a successful write
  or removal changes the text at this path and nothing else; a write that fails because the path is
  not found, and the creation of the missing parents, change no text; a failed removal leaves the
  text or nothing at its path and the other paths as they were. Files stay plain in all of this. Two
  paths that name one file through a link above them are outside of these laws.
\<close>

definition plain :: "('w, 'p) file_system \<Rightarrow> 'w \<Rightarrow> 'p \<Rightarrow> bool" where
  "plain fs w p \<longleftrightarrow>
     (case get_metadata fs w p of
        Ok m \<Rightarrow> is_file m \<and> \<not> is_symlink m
      | Err e \<Rightarrow> io_kind e = NotFound)"

definition keeps_plain ::
  "('w, 'p) file_system \<Rightarrow> ('w \<Rightarrow> 'p \<Rightarrow> ustring option) \<Rightarrow> 'p \<Rightarrow> 'w \<Rightarrow> 'w \<Rightarrow> bool" where
  "keeps_plain fs view p w w' \<longleftrightarrow>
     plain fs w' p \<and> (\<forall>q. plain fs w q \<longrightarrow> view w q \<noteq> None \<longrightarrow> plain fs w' q)"

definition fs_laws :: "('w, 'p) file_system \<Rightarrow> 'p path_ops \<Rightarrow> ('w \<Rightarrow> 'p \<Rightarrow> ustring option) \<Rightarrow> bool" where
  "fs_laws fs po view \<longleftrightarrow>
     (\<forall>w p s. plain fs w p \<longrightarrow> read_file_text fs w p = Ok s \<longrightarrow> view w p = Some s) \<and>
     (\<forall>w p e. plain fs w p \<longrightarrow> read_file_text fs w p = Err e \<longrightarrow> io_kind e = NotFound \<longrightarrow> view w p = None) \<and>
     (\<forall>w p s w'. plain fs w p \<longrightarrow> write_file fs w p s = (w', Ok ()) \<longrightarrow>
        view w' = (view w)(p \<mapsto> s) \<and> keeps_plain fs view p w w') \<and>
     (\<forall>w p s w' e. plain fs w p \<longrightarrow> write_file fs w p s = (w', Err e) \<longrightarrow> io_kind e = NotFound \<longrightarrow>
        view w' = view w \<and> keeps_plain fs view p w w') \<and>
     (\<forall>w p d w' r. plain fs w p \<longrightarrow> uri_parent po p = Some d \<longrightarrow> create_directory fs w d True = (w', r) \<longrightarrow>
        view w' = view w \<and> keeps_plain fs view p w w') \<and>
     (\<forall>w p w'. plain fs w p \<longrightarrow> fs_remove fs w p remove_opts = (w', Ok ()) \<longrightarrow> view w' = (view w)(p := None)) \<and>
     (\<forall>w p w' e. plain fs w p \<longrightarrow> fs_remove fs w p remove_opts = (w', Err e) \<longrightarrow>
        (\<forall>q. q \<noteq> p \<longrightarrow> view w' q = view w q) \<and> (view w' p = view w p \<or> view w' p = None) \<and> plain fs w' p)"

lemma fs_laws_read:
  "fs_laws fs po view \<Longrightarrow> plain fs w p \<Longrightarrow> read_file_text fs w p = Ok s \<Longrightarrow> view w p = Some s"
  "fs_laws fs po view \<Longrightarrow> plain fs w p \<Longrightarrow> read_file_text fs w p = Err e \<Longrightarrow> io_kind e = NotFound \<Longrightarrow> view w p = None"
  by (simp_all add: fs_laws_def)

lemma fs_laws_write:
  "fs_laws fs po view \<Longrightarrow> plain fs w p \<Longrightarrow> write_file fs w p s = (w', Ok ()) \<Longrightarrow>
     view w' = (view w)(p \<mapsto> s) \<and> keeps_plain fs view p w w'"
  "fs_laws fs po view \<Longrightarrow> plain fs w p \<Longrightarrow> write_file fs w p s = (w', Err e) \<Longrightarrow> io_kind e = NotFound \<Longrightarrow>
     view w' = view w \<and> keeps_plain fs view p w w'"
  "fs_laws fs po view \<Longrightarrow> plain fs w p \<Longrightarrow> uri_parent po p = Some d \<Longrightarrow> create_directory fs w d True = (w', r) \<Longrightarrow>
     view w' = view w \<and> keeps_plain fs view p w w'"
  by (simp_all add: fs_laws_def)

lemma fs_laws_remove:
  "fs_laws fs po view \<Longrightarrow> plain fs w p \<Longrightarrow> fs_remove fs w p remove_opts = (w', Ok ()) \<Longrightarrow> view w' = (view w)(p := None)"
  "fs_laws fs po view \<Longrightarrow> plain fs w p \<Longrightarrow> fs_remove fs w p remove_opts = (w', Err e) \<Longrightarrow>
     (\<forall>q. q \<noteq> p \<longrightarrow> view w' q = view w q) \<and> (view w' p = view w p \<or> view w' p = None) \<and> plain fs w' p"
  by (simp_all add: fs_laws_def)

section \<open>Replaying and undoing a delta\<close>

fun replay_change :: "('p \<Rightarrow> ustring option) \<Rightarrow> 'p applied_patch_change \<Rightarrow> 'p \<Rightarrow> ustring option" where
  "replay_change v \<lparr>apc_path = p, apc_change = AppliedAdd c ow\<rparr> = v(p \<mapsto> c)"
| "replay_change v \<lparr>apc_path = p, apc_change = AppliedDelete c\<rparr> = v(p := None)"
| "replay_change v \<lparr>apc_path = p, apc_change = AppliedUpdate None old ow new\<rparr> = v(p \<mapsto> new)"
| "replay_change v \<lparr>apc_path = p, apc_change = AppliedUpdate (Some q) old ow new\<rparr> = v(q \<mapsto> new, p := None)"

fun undo_change :: "'p applied_patch_change \<Rightarrow> ('p \<Rightarrow> ustring option) \<Rightarrow> 'p \<Rightarrow> ustring option" where
  "undo_change \<lparr>apc_path = p, apc_change = AppliedAdd c ow\<rparr> v = v(p := ow)"
| "undo_change \<lparr>apc_path = p, apc_change = AppliedDelete c\<rparr> v = v(p \<mapsto> c)"
| "undo_change \<lparr>apc_path = p, apc_change = AppliedUpdate None old ow new\<rparr> v = v(p \<mapsto> old)"
| "undo_change \<lparr>apc_path = p, apc_change = AppliedUpdate (Some q) old ow new\<rparr> v = v(q := ow, p \<mapsto> old)"

definition replay :: "'p applied_patch_delta \<Rightarrow> ('p \<Rightarrow> ustring option) \<Rightarrow> 'p \<Rightarrow> ustring option" where
  "replay d v = foldl replay_change v (changes d)"

definition undo :: "'p applied_patch_delta \<Rightarrow> ('p \<Rightarrow> ustring option) \<Rightarrow> 'p \<Rightarrow> ustring option" where
  "undo d v = foldr undo_change (changes d) v"

definition delta_rel ::
  "('p \<Rightarrow> ustring option) \<Rightarrow> 'p applied_patch_delta \<Rightarrow> ('p \<Rightarrow> ustring option) \<Rightarrow> bool" where
  "delta_rel v0 d v \<longleftrightarrow> (exact d \<longrightarrow> replay d v0 = v \<and> undo d v = v0)"

lemma delta_rel_push:
  assumes "delta_rel v0 d v" "exact d' \<Longrightarrow> exact d \<and> replay_change v c = v' \<and> undo_change c v' = v"
    "changes d' = changes d @ [c]"
  shows "delta_rel v0 d' v'"
  using assms by (auto simp: delta_rel_def replay_def undo_def)

lemma delta_rel_keep:
  assumes "delta_rel v0 d v" "exact d' \<Longrightarrow> exact d \<and> v' = v" "changes d' = changes d"
  shows "delta_rel v0 d' v'"
  using assms by (auto simp: delta_rel_def replay_def undo_def)

lemma note_existing_iff [simp]:
  "note_existing_path_delta_support fs w p e \<longleftrightarrow> e \<and> plain fs w p"
  by (auto simp: note_existing_path_delta_support_def plain_def split: sum.splits)

lemma read_optional_exact:
  assumes "read_optional_file_text_for_delta fs w p e = (ow, e')" e' "fs_laws fs po view"
  shows "e \<and> plain fs w p \<and> ow = view w p"
  using assms fs_laws_read [OF assms(3)]
  by (auto simp: read_optional_file_text_for_delta_def Let_def split: sum.splits if_splits)

lemma keeps_plain_trans:
  "keeps_plain fs view p w w1 \<Longrightarrow> keeps_plain fs view p w1 w2 \<Longrightarrow> view w1 = view w \<Longrightarrow> keeps_plain fs view p w w2"
  by (simp add: keeps_plain_def)

lemma write_retry_Ok:
  assumes laws: "fs_laws fs po view" and p: "plain fs w p"
    and run: "write_file_with_missing_parent_retry fs po w p s = (w', Ok ())"
  shows "view w' = (view w)(p \<mapsto> s) \<and> keeps_plain fs view p w w'"
proof -
  obtain w1 r where w1: "write_file fs w p s = (w1, r)" by (cases "write_file fs w p s")
  show ?thesis
  proof (cases r)
    case (Inr u)
    with run w1 fs_laws_write(1) [OF laws p, of s w1] show ?thesis
      by (simp add: write_file_with_missing_parent_retry_def)
  next
    case (Inl e)
    with run w1 have nf: "io_kind e = NotFound"
      by (auto simp: write_file_with_missing_parent_retry_def split: if_splits)
    note l1 = fs_laws_write(2) [OF laws p w1 [unfolded Inl] nf]
    then have p1: "plain fs w1 p" by (simp add: keeps_plain_def)
    define cd where "cd = (case uri_parent po p of Some d \<Rightarrow> create_directory fs w1 d True | None \<Rightarrow> (w1, Ok ()))"
    obtain w2 r2 where cd2: "cd = (w2, r2)" by (cases cd)
    have l2: "view w2 = view w1 \<and> keeps_plain fs view p w1 w2"
      using cd2 p1 fs_laws_write(3) [OF laws p1, of _ w2 r2]
      by (auto simp: cd_def keeps_plain_def split: option.splits)
    then have p2: "plain fs w2 p" by (simp add: keeps_plain_def)
    from run w1 Inl nf cd2 have "write_file fs w2 p s = (w', Ok ())"
      by (auto simp: write_file_with_missing_parent_retry_def cd_def [symmetric] split: sum.splits prod.splits)
    from fs_laws_write(1) [OF laws p2 this] l1 l2 show ?thesis
      by (metis keeps_plain_trans)
  qed
qed

section \<open>Exactness of the delta\<close>

lemma remove_checked_run:
  assumes laws: "fs_laws fs po view" and p: "exact d \<longrightarrow> plain fs w p"
    and run: "remove_checked fs w p ctx expected d = (w', d', r)"
  shows "changes d' = changes d" "exact d' \<Longrightarrow> exact d"
    "r = Ok () \<Longrightarrow> d' = d" "r = Ok () \<Longrightarrow> exact d \<Longrightarrow> view w' = (view w)(p := None)"
    "r = Err e \<Longrightarrow> exact d' \<Longrightarrow> view w' = view w"
proof -
  obtain w1 r1 where rm: "fs_remove fs w p remove_opts = (w1, r1)" by (cases "fs_remove fs w p remove_opts")
  have same: "view w1 = view w" if "exact d" "r1 = Err e" "remove_failure_was_side_effect_free fs w1 p expected" for e
  proof -
    note l = fs_laws_remove(2) [OF laws p [rule_format, OF that(1)] rm [unfolded that(2)]]
    from that(3) obtain s where "read_file_text fs w1 p = Ok s"
      by (auto simp: remove_failure_was_side_effect_free_def split: option.splits)
    with l fs_laws_read(1) [OF laws, of w1 p s] have "view w1 p = view w p" by auto
    with l show ?thesis by (auto simp: fun_eq_iff)
  qed
  show "changes d' = changes d" "exact d' \<Longrightarrow> exact d" "r = Ok () \<Longrightarrow> d' = d"
    using run rm by (auto simp: remove_checked_def split: sum.splits)
  show "r = Ok () \<Longrightarrow> exact d \<Longrightarrow> view w' = (view w)(p := None)"
    using run rm fs_laws_remove(1) [OF laws p [rule_format]] by (auto simp: remove_checked_def split: sum.splits)
  show "r = Err e \<Longrightarrow> exact d' \<Longrightarrow> view w' = view w"
    using run rm same by (auto simp: remove_checked_def split: sum.splits)
qed

lemma apply_add_file_delta:
  assumes laws: "fs_laws fs po view" and rel: "delta_rel v0 d (view w)"
    and run: "apply_add_file fs po w d p c = (w', d', r)"
  shows "delta_rel v0 d' (view w')"
proof -
  obtain ow e' where ro: "read_optional_file_text_for_delta fs w p (exact d) = (ow, e')"
    by (cases "read_optional_file_text_for_delta fs w p (exact d)")
  obtain w1 r1 where wr: "write_file_with_missing_parent_retry fs po w p c = (w1, r1)"
    by (cases "write_file_with_missing_parent_retry fs po w p c")
  show ?thesis
  proof (cases r1)
    case (Inl e)
    with run ro wr show ?thesis by (auto simp: apply_add_file_def delta_rel_def)
  next
    case (Inr u)
    with run ro wr have d': "d' = push_change p (AppliedAdd c ow) (d\<lparr>exact := e'\<rparr>)" "w' = w1"
      by (auto simp: apply_add_file_def)
    show ?thesis
    proof (rule delta_rel_push [OF rel])
      assume "exact d'"
      then have e': e' by (simp add: d')
      note x = read_optional_exact [OF ro e' laws]
      with write_retry_Ok [OF laws, of w p c w1] wr Inr
      show "exact d \<and> replay_change (view w) \<lparr>apc_path = p, apc_change = AppliedAdd c ow\<rparr> = view w' \<and>
          undo_change \<lparr>apc_path = p, apc_change = AppliedAdd c ow\<rparr> (view w') = view w"
        by (simp add: d')
    qed (simp add: d')
  qed
qed

lemma apply_delete_file_delta:
  assumes laws: "fs_laws fs po view" and rel: "delta_rel v0 d (view w)"
    and run: "apply_delete_file fs po w d p = (w', d', r)"
  shows "delta_rel v0 d' (view w')"
proof -
  define dc where "dc = result_ok (read_file_text fs w p)"
  define d1 where "d1 = d\<lparr>exact := (exact d \<and> plain fs w p) \<and> dc \<noteq> None\<rparr>"
  define ctx where "ctx = str ''Failed to delete file '' @ inferred_native_path_string po p"
  obtain w1 d2 r2 where rc: "remove_checked fs w p ctx dc d1 = (w1, d2, r2)"
    by (cases "remove_checked fs w p ctx dc d1")
  have p1: "exact d1 \<longrightarrow> plain fs w p" by (simp add: d1_def)
  note rcs = remove_checked_run [OF laws p1 rc]
  have ch: "changes d1 = changes d" by (simp add: d1_def)
  show ?thesis
  proof (cases r2)
    case (Inl e)
    with run rc have "w' = w1" "d' = d2"
      by (auto simp: apply_delete_file_def Let_def dc_def d1_def ctx_def)
    with rcs Inl ch show ?thesis
      by (intro delta_rel_keep [OF rel]) (auto simp: d1_def)
  next
    case (Inr u)
    then have ok: "r2 = Ok ()" by simp
    show ?thesis
    proof (cases dc)
      case None
      with run rc ok rcs(3) have "w' = w1" "d' = d1" "\<not> exact d1"
        by (auto simp: apply_delete_file_def Let_def dc_def d1_def ctx_def)
      then show ?thesis by (simp add: delta_rel_def)
    next
      case (Some c)
      with run rc ok rcs(3) have "w' = w1" and d': "d' = push_change p (AppliedDelete c) d1"
        by (auto simp: apply_delete_file_def Let_def dc_def d1_def ctx_def)
      show ?thesis
      proof (rule delta_rel_push [OF rel])
        assume "exact d'"
        then have e: "exact d" "plain fs w p" "exact d1" by (auto simp: d' d1_def)
        have "read_file_text fs w p = Ok c"
          using Some by (cases "read_file_text fs w p") (simp_all add: dc_def)
        from fs_laws_read(1) [OF laws e(2) this] rcs(4) [OF ok e(3)] e
        show "exact d \<and> replay_change (view w) \<lparr>apc_path = p, apc_change = AppliedDelete c\<rparr> = view w' \<and>
            undo_change \<lparr>apc_path = p, apc_change = AppliedDelete c\<rparr> (view w') = view w"
          by (auto simp: \<open>w' = w1\<close>)
      qed (simp add: d' ch)
    qed
  qed
qed

lemma apply_move_write:
  assumes laws: "fs_laws fs po view" and src: "exact d \<longrightarrow> plain fs w p \<and> view w p = Some old"
    and ro: "read_optional_file_text_for_delta fs w q (exact d) = (ow, e')"
    and wr: "write_file_with_missing_parent_retry fs po w q new = (w1, Ok ())" and e': e'
  shows "exact d \<and> ow = view w q \<and> view w1 = (view w)(q \<mapsto> new) \<and> plain fs w1 p \<and> view w p = Some old"
proof -
  note x = read_optional_exact [OF ro e' laws]
  with write_retry_Ok [OF laws _ wr] src show ?thesis by (auto simp: keeps_plain_def)
qed

text \<open>How a move ends: the write failed, or the removal failed, or both succeeded.\<close>

lemma apply_move_cases:
  assumes laws: "fs_laws fs po view" and src: "exact d \<longrightarrow> plain fs w p \<and> view w p = Some old"
    and run: "apply_move fs po w d p q old new = (w', d', r)"
  obtains (write_failed) e where "r = Err e" "\<not> exact d'"
  | (remove_failed) e ow where "r = Err e"
      "changes d' = changes d @ [\<lparr>apc_path = q, apc_change = AppliedAdd new ow\<rparr>]"
      "exact d' \<longrightarrow> exact d \<and> ow = view w q \<and> view w' = (view w)(q \<mapsto> new)"
  | (moved) ow where "r = Ok ()"
      "changes d' = changes d @ [\<lparr>apc_path = p, apc_change = AppliedUpdate (Some q) old ow new\<rparr>]"
      "exact d' \<longrightarrow> exact d \<and> ow = view w q \<and> view w p = Some old \<and> view w' = (view w)(q \<mapsto> new, p := None)"
proof -
  obtain ow e' where ro: "read_optional_file_text_for_delta fs w q (exact d) = (ow, e')"
    by (cases "read_optional_file_text_for_delta fs w q (exact d)")
  obtain w1 r1 where wr: "write_file_with_missing_parent_retry fs po w q new = (w1, r1)"
    by (cases "write_file_with_missing_parent_retry fs po w q new")
  define ctx where "ctx = str ''Failed to remove original '' @ inferred_native_path_string po p"
  define d1 where "d1 = push_change q (AppliedAdd new ow) (d\<lparr>exact := e'\<rparr>)"
  show ?thesis
  proof (cases r1)
    case (Inl e)
    with run ro wr have "r = Err e" "\<not> exact d'" by (auto simp: apply_move_def)
    then show ?thesis by (rule write_failed)
  next
    case (Inr u)
    then have wr': "write_file_with_missing_parent_retry fs po w q new = (w1, Ok ())" using wr by simp
    have facts: "exact d \<and> ow = view w q \<and> view w1 = (view w)(q \<mapsto> new) \<and> plain fs w1 p \<and> view w p = Some old"
      if "exact d1"
      using apply_move_write [OF laws src ro wr'] that by (simp add: d1_def)
    obtain w2 d2 r2 where rc: "remove_checked fs w1 p ctx (Some old) d1 = (w2, d2, r2)"
      by (cases "remove_checked fs w1 p ctx (Some old) d1")
    have p1: "exact d1 \<longrightarrow> plain fs w1 p" using facts by blast
    note rcs = remove_checked_run [OF laws p1 rc]
    show ?thesis
    proof (cases r2)
      case (Inl e)
      with run ro wr' rc have "w' = w2" "d' = d2" "r = Err e"
        by (auto simp: apply_move_def ctx_def d1_def)
      moreover have "exact d2 \<longrightarrow> exact d \<and> ow = view w q \<and> view w2 = (view w)(q \<mapsto> new)"
        using facts rcs(2) rcs(5) [of e] Inl by auto
      moreover have "changes d2 = changes d @ [\<lparr>apc_path = q, apc_change = AppliedAdd new ow\<rparr>]"
        using rcs(1) by (simp add: d1_def)
      ultimately show ?thesis using remove_failed by simp
    next
      case (Inr u2)
      then have ok: "r2 = Ok ()" by simp
      with run ro wr' rc rcs(3) have "w' = w2" "r = Ok ()" "exact d' = exact d1"
        "changes d' = changes d @ [\<lparr>apc_path = p, apc_change = AppliedUpdate (Some q) old ow new\<rparr>]"
        by (auto simp: apply_move_def ctx_def d1_def)
      with facts rcs(4) [OF ok] show ?thesis using moved by simp
    qed
  qed
qed

lemma apply_move_delta:
  assumes laws: "fs_laws fs po view" and rel: "delta_rel v0 d (view w)"
    and src: "exact d \<longrightarrow> plain fs w p \<and> view w p = Some old"
    and run: "apply_move fs po w d p q old new = (w', d', r)"
  shows "delta_rel v0 d' (view w')"
  using laws src run
proof (cases rule: apply_move_cases)
  case (write_failed e)
  then show ?thesis by (simp add: delta_rel_def)
next
  case (remove_failed e ow)
  then show ?thesis by (intro delta_rel_push [OF rel]) auto
next
  case (moved ow)
  then show ?thesis by (intro delta_rel_push [OF rel]) (auto simp: fun_eq_iff)
qed

lemma derive_new_contents_read:
  "derive_new_contents_from_chunks fs po w p cs md = Ok (old, new) \<Longrightarrow> read_file_text fs w p = Ok old"
  by (cases "read_file_text fs w p") (auto simp: derive_new_contents_from_chunks_def result_bind_Ok)

lemma apply_update_file_delta:
  assumes laws: "fs_laws fs po view" and rel: "delta_rel v0 d (view w)"
    and run: "apply_update_file fs po md cwd w d p mv cs = (w', d', r)"
  shows "delta_rel v0 d' (view w')"
proof -
  define d1 where "d1 = d\<lparr>exact := exact d \<and> plain fs w p\<rparr>"
  have rel1: "delta_rel v0 d1 (view w)" by (rule delta_rel_keep [OF rel]) (auto simp: d1_def)
  show ?thesis
  proof (cases "derive_new_contents_from_chunks fs po w p cs md")
    case (Inl e)
    with run rel1 show ?thesis by (auto simp: apply_update_file_def d1_def)
  next
    case (Inr on)
    obtain old new where on: "on = (old, new)" by (cases on)
    have src: "exact d1 \<longrightarrow> plain fs w p \<and> view w p = Some old"
      using derive_new_contents_read [OF Inr [unfolded on]] fs_laws_read(1) [OF laws]
      by (simp add: d1_def)
    show ?thesis
    proof (cases mv)
      case (Some dest)
      show ?thesis
      proof (cases "uri_join po cwd dest")
        case (Inl e)
        with run Inr on Some rel1 show ?thesis by (auto simp: apply_update_file_def d1_def)
      next
        case (Inr q)
        with run \<open>derive_new_contents_from_chunks fs po w p cs md = Ok on\<close> on Some
        have "apply_move fs po w d1 p q old new = (w', d', r)"
          by (simp add: apply_update_file_def d1_def)
        from apply_move_delta [OF laws rel1 src this] show ?thesis .
      qed
    next
      case None
      obtain w1 r1 where wr: "write_file fs w p new = (w1, r1)" by (cases "write_file fs w p new")
      show ?thesis
      proof (cases r1)
        case (Inl e)
        with run Inr on None wr show ?thesis by (auto simp: apply_update_file_def delta_rel_def)
      next
        case (Inr u)
        with run \<open>derive_new_contents_from_chunks fs po w p cs md = Ok on\<close> on None wr
        have d': "w' = w1" "d' = push_change p (AppliedUpdate None old None new) d1"
          by (auto simp: apply_update_file_def d1_def)
        show ?thesis
          using src fs_laws_write(1) [OF laws, of w p new w1] wr Inr
          by (intro delta_rel_push [OF rel1]) (auto simp: d' fun_eq_iff)
      qed
    qed
  qed
qed

lemma apply_hunk_delta:
  assumes "fs_laws fs po view" "delta_rel v0 d (view w)" "apply_hunk fs po md cwd w d h = (w', d', r)"
  shows "delta_rel v0 d' (view w')"
proof (cases "resolve_path po cwd h")
  case (Inl e)
  with assms show ?thesis by (simp add: apply_hunk_def)
next
  case (Inr p)
  note run = assms(3) [unfolded apply_hunk_def Inr, simplified]
  show ?thesis
  proof (cases h)
    case (AddFile x c)
    with run apply_add_file_delta [OF assms(1,2), of p c w' d' r] show ?thesis by simp
  next
    case (DeleteFile x)
    with run apply_delete_file_delta [OF assms(1,2), of p w' d' r] show ?thesis by simp
  next
    case (UpdateFile x mv cs)
    with run apply_update_file_delta [OF assms(1,2), of md cwd p mv cs w' d' r] show ?thesis by simp
  qed
qed

lemma apply_hunk_list_delta:
  "apply_hunk_list fs po md cwd w d a hs = (w', d', r) \<Longrightarrow> fs_laws fs po view \<Longrightarrow>
   delta_rel v0 d (view w) \<Longrightarrow> delta_rel v0 d' (view w')"
proof (induction hs arbitrary: w d a)
  case (Cons h hs)
  obtain w1 d1 r1 where h: "apply_hunk fs po md cwd w d h = (w1, d1, r1)"
    by (cases "apply_hunk fs po md cwd w d h")
  note rel = apply_hunk_delta [OF Cons.prems(2,3) h]
  show ?case
  proof (cases r1)
    case (Inl e)
    with Cons.prems h rel show ?thesis by simp
  next
    case (Inr u)
    with Cons.prems h Cons.IH [OF _ Cons.prems(2) rel] show ?thesis by simp
  qed
qed simp

lemma apply_hunks_delta:
  assumes "fs_laws fs po view" "apply_hunks_to_files fs po md cwd w empty_delta hs = (w', d, r)"
  shows "delta_rel (view w) d (view w')"
proof -
  have e: "delta_rel (view w) empty_delta (view w)"
    by (simp add: delta_rel_def empty_delta_def replay_def undo_def)
  show ?thesis
    using assms(2) e apply_hunk_list_delta [OF _ assms(1) e]
    by (auto simp: apply_hunks_to_files_def split: if_splits)
qed

definition run_delta :: "('p applied_patch_delta, 'p apply_patch_failure) result \<Rightarrow> 'p applied_patch_delta" where
  "run_delta r = (case r of Ok d \<Rightarrow> d | Err f \<Rightarrow> failure_delta f)"

lemma apply_patch_delta:
  assumes "fs_laws fs po view" "apply_patch_with_mode fs po patch md cwd w out err = (w', out', err', r)"
  shows "delta_rel (view w) (run_delta r) (view w')"
proof (cases "parse_patch patch")
  case (Inl e)
  with assms(2) show ?thesis
    by (auto simp: apply_patch_with_mode_def run_delta_def delta_rel_def empty_delta_def replay_def undo_def
        split: prod.splits sum.splits)
next
  case (Inr a)
  obtain w1 d r1 where run: "apply_hunks_to_files fs po md cwd w empty_delta (args_hunks a) = (w1, d, r1)"
    by (cases "apply_hunks_to_files fs po md cwd w empty_delta (args_hunks a)")
  with assms(2) Inr have "w' = w1" "run_delta r = d"
    by (auto simp: apply_patch_with_mode_def apply_hunks_with_mode_def run_delta_def
        split: prod.splits sum.splits)
  with apply_hunks_delta [OF assms(1) run] show ?thesis by simp
qed

lemma apply_hunk_list_affected:
  "apply_hunk_list fs po md cwd w d a hs = (w', d', Ok a') \<Longrightarrow> a' = foldl note_affected a hs"
proof (induction hs arbitrary: w d a)
  case (Cons h hs)
  then show ?case
    by (cases "apply_hunk fs po md cwd w d h") (auto split: sum.splits)
qed simp

lemma note_affected_lists:
  "foldl note_affected a hs =
     \<lparr>added = added a @ [p. AddFile p c \<leftarrow> hs],
      modified = modified a @ [hunk_path (UpdateFile p m cs). UpdateFile p m cs \<leftarrow> hs],
      deleted = deleted a @ [p. DeleteFile p \<leftarrow> hs]\<rparr>"
proof (induction hs arbitrary: a)
  case (Cons h hs)
  then show ?case by (cases h) simp_all
qed simp

end
