(* ===== verification/Memory_FS.thy ===== *)
theory Memory_FS
  imports Patch_Apply
begin

text \<open>
  A file system in memory, with directories, that satisfies the laws of \<open>Patch_Apply\<close>: it shows that
  the laws can hold and is the instance on which the properties are evaluated. A world is an
  association list from paths (lists of names) to files and directories.
\<close>

datatype node = FileNode ustring | DirNode

type_synonym mem_path = "ustring list"
type_synonym mem_world = "(mem_path \<times> node) list"

definition not_found :: io_error where
  "not_found = \<lparr>io_kind = NotFound, io_message = str ''not found''\<rparr>"

definition wrong_kind :: io_error where
  "wrong_kind = \<lparr>io_kind = OtherKind 21, io_message = str ''wrong kind of file''\<rparr>"

definition mem_read :: "mem_world \<Rightarrow> mem_path \<Rightarrow> (ustring, io_error) result" where
  "mem_read w p =
     (case map_of w p of Some (FileNode s) \<Rightarrow> Ok s | Some DirNode \<Rightarrow> Err wrong_kind | None \<Rightarrow> Err not_found)"

definition mem_write :: "mem_world \<Rightarrow> mem_path \<Rightarrow> ustring \<Rightarrow> mem_world \<times> (unit, io_error) result" where
  "mem_write w p s =
     (case map_of w p of
        Some DirNode \<Rightarrow> (w, Err wrong_kind)
      | Some (FileNode _) \<Rightarrow> ((p, FileNode s) # w, Ok ())
      | None \<Rightarrow>
          if p \<noteq> [] \<and> map_of w (butlast p) = Some DirNode then ((p, FileNode s) # w, Ok ())
          else (w, Err not_found))"

definition add_dir :: "mem_path \<Rightarrow> mem_world \<Rightarrow> mem_world" where
  "add_dir d w = (if map_of w d = None then (d, DirNode) # w else w)"

definition mem_create_directory :: "mem_world \<Rightarrow> mem_path \<Rightarrow> bool \<Rightarrow> mem_world \<times> (unit, io_error) result" where
  "mem_create_directory w d recursive = (fold add_dir (if recursive then prefixes d else [d]) w, Ok ())"

definition mem_metadata :: "mem_world \<Rightarrow> mem_path \<Rightarrow> (file_metadata, io_error) result" where
  "mem_metadata w p =
     (case map_of w p of
        Some (FileNode s) \<Rightarrow>
          Ok \<lparr>is_directory = False, is_file = True, is_symlink = False, size_bytes = byte_len s,
              created_at_ms = 0, modified_at_ms = 0\<rparr>
      | Some DirNode \<Rightarrow>
          Ok \<lparr>is_directory = True, is_file = False, is_symlink = False, size_bytes = 0,
              created_at_ms = 0, modified_at_ms = 0\<rparr>
      | None \<Rightarrow> Err not_found)"

definition mem_read_directory :: "mem_world \<Rightarrow> mem_path \<Rightarrow> (read_directory_entry list, io_error) result" where
  "mem_read_directory w d =
     (if map_of w d = Some DirNode then
        Ok (map (\<lambda>n. \<lparr>file_name = n, entry_is_directory = (map_of w (d @ [n]) = Some DirNode),
                       entry_is_file = (map_of w (d @ [n]) \<noteq> Some DirNode)\<rparr>)
              (remdups (map last (filter (\<lambda>p. p \<noteq> [] \<and> butlast p = d) (map fst w)))))
      else Err wrong_kind)"

definition mem_remove :: "mem_world \<Rightarrow> mem_path \<Rightarrow> remove_options \<Rightarrow> mem_world \<times> (unit, io_error) result" where
  "mem_remove w p opts =
     (case map_of w p of
        Some (FileNode _) \<Rightarrow> (filter (\<lambda>x. fst x \<noteq> p) w, Ok ())
      | Some DirNode \<Rightarrow> (w, Err wrong_kind)
      | None \<Rightarrow> (w, Err not_found))"

definition mem_fs :: "(mem_world, mem_path) file_system" where
  "mem_fs =
     \<lparr>canonicalize = (\<lambda>w p. if map_of w p = None then Err not_found else Ok p),
      read_file_text = mem_read, write_file = mem_write, create_directory = mem_create_directory,
      get_metadata = mem_metadata, read_directory = mem_read_directory, fs_remove = mem_remove\<rparr>"

definition mem_paths :: "mem_path path_ops" where
  "mem_paths =
     \<lparr>uri_join = (\<lambda>p s. Ok (p @ filter (\<lambda>x. x \<noteq> []) (split_char 47 s))),
      uri_parent = (\<lambda>p. if p = [] then None else Some (butlast p)),
      inferred_native_path_string = join [47], uri_to_string = join [47],
      infer_path_convention = (\<lambda>_. Some Posix)\<rparr>"

definition mem_view :: "mem_world \<Rightarrow> mem_path \<Rightarrow> ustring option" where
  "mem_view w p = (case map_of w p of Some (FileNode s) \<Rightarrow> Some s | _ \<Rightarrow> None)"

lemma mem_plain: "plain mem_fs w p \<longleftrightarrow> map_of w p \<noteq> Some DirNode"
  by (simp add: plain_def mem_fs_def mem_metadata_def not_found_def split: option.splits node.splits)

lemma mem_view_Cons: "mem_view ((p, FileNode s) # w) = (mem_view w)(p \<mapsto> s)"
  by (auto simp: mem_view_def)

lemma map_of_filter_neq: "map_of (filter (\<lambda>x. fst x \<noteq> p) w) q = (if q = p then None else map_of w q)"
  by (induction w) auto

lemma fold_add_dir:
  "map_of (fold add_dir ds w) q = (if map_of w q = None \<and> q \<in> set ds then Some DirNode else map_of w q)"
  by (induction ds arbitrary: w) (auto simp: add_dir_def)

lemma mem_write_plain: "map_of w p \<noteq> Some DirNode \<Longrightarrow> keeps_plain mem_fs mem_view p w ((p, FileNode s) # w)"
  by (auto simp: keeps_plain_def mem_plain)

lemma mem_create_parent:
  assumes "map_of w p \<noteq> Some DirNode" "p \<noteq> []"
  shows "mem_view (fold add_dir (prefixes (butlast p)) w) = mem_view w"
    "keeps_plain mem_fs mem_view p w (fold add_dir (prefixes (butlast p)) w)"
proof -
  have "\<not> prefix p (butlast p)" using assms(2) by (cases p rule: rev_cases) (auto dest!: prefix_length_le)
  then show "keeps_plain mem_fs mem_view p w (fold add_dir (prefixes (butlast p)) w)"
    using assms(1) by (auto simp: keeps_plain_def mem_plain fold_add_dir mem_view_def split: option.splits)
  show "mem_view (fold add_dir (prefixes (butlast p)) w) = mem_view w"
    by (auto simp: mem_view_def fold_add_dir fun_eq_iff)
qed

lemma mem_fs_laws: "fs_laws mem_fs mem_paths mem_view"
  unfolding fs_laws_def mem_plain
proof (intro conjI allI impI)
  fix w p s w'
  assume "map_of w p \<noteq> Some DirNode" "write_file mem_fs w p s = (w', Ok ())"
  then have "w' = (p, FileNode s) # w"
    by (auto simp: mem_fs_def mem_write_def split: option.splits node.splits if_splits)
  then show "mem_view w' = (mem_view w)(p \<mapsto> s)" "keeps_plain mem_fs mem_view p w w'"
    using \<open>map_of w p \<noteq> Some DirNode\<close> by (auto simp: mem_view_Cons mem_write_plain)
next
  fix w p s w' e
  assume "map_of w p \<noteq> Some DirNode" "write_file mem_fs w p s = (w', Err e)"
  then have "w' = w" by (auto simp: mem_fs_def mem_write_def split: option.splits node.splits if_splits)
  then show "mem_view w' = mem_view w" "keeps_plain mem_fs mem_view p w w'"
    using \<open>map_of w p \<noteq> Some DirNode\<close> by (auto simp: keeps_plain_def mem_plain)
next
  fix w p d w' r
  assume a: "map_of w p \<noteq> Some DirNode" "uri_parent mem_paths p = Some d"
    "create_directory mem_fs w d True = (w', r)"
  then have "p \<noteq> []" "w' = fold add_dir (prefixes (butlast p)) w"
    by (auto simp: mem_paths_def mem_fs_def mem_create_directory_def split: if_splits)
  then show "mem_view w' = mem_view w" "keeps_plain mem_fs mem_view p w w'"
    using mem_create_parent [OF a(1)] by auto
qed (auto simp: mem_fs_def mem_read_def mem_remove_def mem_view_def wrong_kind_def map_of_filter_neq fun_eq_iff
      split: option.splits node.splits if_splits)

end
