(* ===== verification/Patch_Print.thy ===== *)
theory Patch_Print
  imports Patch_Parser
begin

text \<open>
  A printer for patches in the grammar at the head of \<open>codex-rs/apply-patch/src/parser.rs\<close>, and
  the proof that the parser of \<open>Patch_Parser\<close> reads every printed patch back: \<open>parse_patch\<close> is
  complete for the grammar and loses nothing. The printer is a specification, it has no
  counterpart in the code.
\<close>

section \<open>The printer\<close>

fun render_body ::
  "nat \<Rightarrow> nat \<Rightarrow> (nat \<times> nat) list \<Rightarrow> ustring list \<Rightarrow> ustring list \<Rightarrow> ustring list" where
  "render_body i j [] old new = map ((@) (str ''-'')) old @ map ((@) (str ''+'')) new"
| "render_body i j ((a, b) # ctx) old new =
     map ((@) (str ''-'')) (take (a - i) old) @ map ((@) (str ''+'')) (take (b - j) new) @
     [str '' '' @ old ! (a - i)] @
     render_body (Suc a) (Suc b) ctx (drop (Suc (a - i)) old) (drop (Suc (b - j)) new)"

definition render_chunk :: "update_file_chunk \<Rightarrow> ustring list" where
  "render_chunk c =
     (case change_context c of
        None \<Rightarrow> EMPTY_CHANGE_CONTEXT_MARKER
      | Some ctx \<Rightarrow> CHANGE_CONTEXT_MARKER @ ctx) #
     render_body 0 0 (context_line_indices c) (old_lines c) (new_lines c) @
     (if is_end_of_file c then [EOF_MARKER] else [])"

definition text_lines :: "ustring \<Rightarrow> ustring list" where
  "text_lines contents = butlast (split_char LF contents)"

fun render_hunk :: "hunk \<Rightarrow> ustring list" where
  "render_hunk (AddFile path contents) =
     (ADD_FILE_MARKER @ path) # map ((@) (str ''+'')) (text_lines contents)"
| "render_hunk (DeleteFile path) = [DELETE_FILE_MARKER @ path]"
| "render_hunk (UpdateFile path mv cs) =
     (UPDATE_FILE_MARKER @ path) #
     (case mv of None \<Rightarrow> [] | Some q \<Rightarrow> [MOVE_TO_MARKER @ q]) @ concat (map render_chunk cs)"

definition render_patch :: "ustring option \<Rightarrow> hunk list \<Rightarrow> ustring list" where
  "render_patch env hs =
     [BEGIN_PATCH_MARKER] @
     (case env of None \<Rightarrow> [] | Some e \<Rightarrow> [ENVIRONMENT_ID_MARKER @ str '' '' @ e]) @
     concat (map render_hunk hs) @ [END_PATCH_MARKER]"

text \<open>What can be printed: lines without a line feed and without a carriage return at the end.\<close>

definition line_ok :: "ustring \<Rightarrow> bool" where
  "line_ok l \<longleftrightarrow> LF \<notin> set l \<and> (l = [] \<or> last l \<noteq> CR)"

definition printable_chunk :: "update_file_chunk \<Rightarrow> bool" where
  "printable_chunk c \<longleftrightarrow>
     wf_chunk c \<and> (\<forall>x. change_context c = Some x \<longrightarrow> path_ok x) \<and>
     (\<forall>l \<in> set (old_lines c) \<union> set (new_lines c). line_ok l)"

fun printable_hunk :: "hunk \<Rightarrow> bool" where
  "printable_hunk (AddFile path contents) =
     (path_ok path \<and> (contents = [] \<or> last contents = LF) \<and> (\<forall>l \<in> set (text_lines contents). line_ok l))"
| "printable_hunk (DeleteFile path) = path_ok path"
| "printable_hunk (UpdateFile path mv cs) =
     (wf_hunk (UpdateFile path mv cs) \<and> (\<forall>c \<in> set cs. printable_chunk c))"

section \<open>Chunk bodies\<close>

fun feed_line :: "ustring \<Rightarrow> update_file_chunk \<Rightarrow> update_file_chunk" where
  "feed_line (m # l) c =
     (if m = 32 then push_context_line l c
      else if m = 43 then c\<lparr>new_lines := new_lines c @ [l]\<rparr>
      else c\<lparr>old_lines := old_lines c @ [l]\<rparr>)"
| "feed_line [] c = c"

fun ctx_fits :: "nat \<Rightarrow> nat \<Rightarrow> (nat \<times> nat) list \<Rightarrow> ustring list \<Rightarrow> ustring list \<Rightarrow> bool" where
  "ctx_fits i j [] old new = True"
| "ctx_fits i j ((a, b) # ctx) old new =
     (i \<le> a \<and> j \<le> b \<and> a - i < length old \<and> b - j < length new \<and> old ! (a - i) = new ! (b - j) \<and>
      ctx_fits (Suc a) (Suc b) ctx (drop (Suc (a - i)) old) (drop (Suc (b - j)) new))"

lemma ctx_fitsI:
  assumes "sorted_wrt (\<lambda>x y. fst x < fst y \<and> snd x < snd y) ctx"
    and "\<forall>(a, b) \<in> set ctx. i \<le> a \<and> j \<le> b \<and> a < i + length old \<and> b < j + length new \<and>
           old ! (a - i) = new ! (b - j)"
  shows "ctx_fits i j ctx old new"
  using assms
proof (induction i j ctx old new rule: ctx_fits.induct)
  case (2 i j a b ctx old new)
  have "Suc a \<le> a' \<and> Suc b \<le> b' \<and> a' < Suc a + length (drop (Suc (a - i)) old) \<and>
      b' < Suc b + length (drop (Suc (b - j)) new) \<and>
      drop (Suc (a - i)) old ! (a' - Suc a) = drop (Suc (b - j)) new ! (b' - Suc b)"
    if "(a', b') \<in> set ctx" for a' b'
  proof -
    from that "2.prems" have lt: "a < a'" "b < b'" "i \<le> a" "j \<le> b"
      and bd: "a' < i + length old" "b' < j + length new" "old ! (a' - i) = new ! (b' - j)"
      by auto
    have "Suc (a - i) + (a' - Suc a) = a' - i" "Suc (b - j) + (b' - Suc b) = b' - j"
      using lt by auto
    with lt bd show ?thesis by auto
  qed
  then have "ctx_fits (Suc a) (Suc b) ctx (drop (Suc (a - i)) old) (drop (Suc (b - j)) new)"
    using "2.prems"(1) by (intro "2.IH") auto
  with "2.prems" show ?case by auto
qed simp

lemma context_ok_fits:
  "context_ok c \<Longrightarrow> ctx_fits 0 0 (context_line_indices c) (old_lines c) (new_lines c)"
  by (rule ctx_fitsI) (auto simp: context_ok_def)

definition feed_lines :: "ustring list \<Rightarrow> update_file_chunk \<Rightarrow> update_file_chunk" where
  "feed_lines ls c = fold feed_line ls c"

lemma feed_lines_append: "feed_lines (ls @ ms) c = feed_lines ms (feed_lines ls c)"
  by (simp add: feed_lines_def)

lemma feed_lines_minus: "feed_lines (map ((@) (str ''-'')) xs) c = c\<lparr>old_lines := old_lines c @ xs\<rparr>"
  by (induction xs arbitrary: c) (simp_all add: feed_lines_def lit_defs)

lemma feed_lines_plus: "feed_lines (map ((@) (str ''+'')) xs) c = c\<lparr>new_lines := new_lines c @ xs\<rparr>"
  by (induction xs arbitrary: c) (simp_all add: feed_lines_def lit_defs)

lemma feed_lines_context: "feed_lines [str '' '' @ l] c = push_context_line l c"
  by (simp add: feed_lines_def lit_defs)

lemma feed_render_body:
  assumes "ctx_fits i j ctx old new" "length (old_lines c) = i" "length (new_lines c) = j"
  shows "feed_lines (render_body i j ctx old new) c =
    c\<lparr>old_lines := old_lines c @ old, new_lines := new_lines c @ new,
      context_line_indices := context_line_indices c @ ctx\<rparr>"
  using assms
proof (induction i j ctx old new arbitrary: c rule: ctx_fits.induct)
  case (1 i j old new)
  then show ?case by (simp add: feed_lines_append feed_lines_minus feed_lines_plus)
next
  case (2 i j a b ctx old new)
  define c' where "c' = push_context_line (old ! (a - i))
    (c\<lparr>old_lines := old_lines c @ take (a - i) old, new_lines := new_lines c @ take (b - j) new\<rparr>)"
  have old: "old = take (a - i) old @ old ! (a - i) # drop (Suc (a - i)) old"
    using "2.prems"(1) by (intro id_take_nth_drop) simp
  have "new = take (b - j) new @ new ! (b - j) # drop (Suc (b - j)) new"
    using "2.prems"(1) by (intro id_take_nth_drop) simp
  then have new: "new = take (b - j) new @ old ! (a - i) # drop (Suc (b - j)) new"
    using "2.prems"(1) by simp
  have lens: "length (old_lines c') = Suc a" "length (new_lines c') = Suc b"
    using "2.prems" by (auto simp: c'_def push_context_line_def)
  have "feed_lines (render_body i j ((a, b) # ctx) old new) c =
      feed_lines (render_body (Suc a) (Suc b) ctx (drop (Suc (a - i)) old) (drop (Suc (b - j)) new)) c'"
    by (simp add: feed_lines_append feed_lines_minus feed_lines_plus feed_lines_context c'_def
        flip: append_Cons)
  also have "\<dots> = c'\<lparr>old_lines := old_lines c' @ drop (Suc (a - i)) old,
      new_lines := new_lines c' @ drop (Suc (b - j)) new,
      context_line_indices := context_line_indices c' @ ctx\<rparr>"
    using "2.prems" lens by (intro "2.IH") auto
  also have "\<dots> = c\<lparr>old_lines := old_lines c @ old, new_lines := new_lines c @ new,
      context_line_indices := context_line_indices c @ (a, b) # ctx\<rparr>"
    using "2.prems" old new by (simp add: c'_def push_context_line_def)
  finally show ?case .
qed

section \<open>Single lines\<close>

lemma strip_prefix_head:
  "m # ms = p \<Longrightarrow> c \<noteq> m \<Longrightarrow> strip_prefix p (c # s) = None"
  by (auto simp: strip_prefix_def)

lemma strip_prefix_neq_hd: "p \<noteq> [] \<Longrightarrow> s = [] \<or> hd s \<noteq> hd p \<Longrightarrow> strip_prefix p s = None"
  by (cases p; cases s) (auto simp: strip_prefix_def)

lemma marker_heads:
  "hd ADD_FILE_MARKER = 42" "hd DELETE_FILE_MARKER = 42" "hd UPDATE_FILE_MARKER = 42"
  "hd MOVE_TO_MARKER = 42" "hd END_PATCH_MARKER = 42" "hd ENVIRONMENT_ID_MARKER = 42"
  "hd EOF_MARKER = 42" "hd BEGIN_PATCH_MARKER = 42"
  "ENVIRONMENT_ID_MARKER \<noteq> []" "END_PATCH_MARKER \<noteq> []" "EOF_MARKER \<noteq> []" "BEGIN_PATCH_MARKER \<noteq> []"
  by (simp_all add: lit_defs)

lemma handle_not_header:
  assumes "s = [] \<or> hd s \<noteq> 42"
  shows "handle_hunk_headers_and_end_patch p s = Ok (p, False)"
  using assms marker_heads marker_space
  by (auto simp: handle_hunk_headers_and_end_patch_def strip_prefix_neq_hd)

lemma marker_disjoint:
  "ADD_FILE_MARKER @ q \<noteq> END_PATCH_MARKER" "DELETE_FILE_MARKER @ q \<noteq> END_PATCH_MARKER"
  "UPDATE_FILE_MARKER @ q \<noteq> END_PATCH_MARKER" "MOVE_TO_MARKER @ q \<noteq> END_PATCH_MARKER"
  "EOF_MARKER \<noteq> END_PATCH_MARKER"
  "strip_prefix ENVIRONMENT_ID_MARKER (ADD_FILE_MARKER @ q) = None"
  "strip_prefix ENVIRONMENT_ID_MARKER (DELETE_FILE_MARKER @ q) = None"
  "strip_prefix ENVIRONMENT_ID_MARKER (UPDATE_FILE_MARKER @ q) = None"
  "strip_prefix ADD_FILE_MARKER (DELETE_FILE_MARKER @ q) = None"
  "strip_prefix ADD_FILE_MARKER (UPDATE_FILE_MARKER @ q) = None"
  "strip_prefix DELETE_FILE_MARKER (UPDATE_FILE_MARKER @ q) = None"
  "strip_prefix ADD_FILE_MARKER (MOVE_TO_MARKER @ q) = None"
  "strip_prefix DELETE_FILE_MARKER (MOVE_TO_MARKER @ q) = None"
  "strip_prefix UPDATE_FILE_MARKER (MOVE_TO_MARKER @ q) = None"
  "strip_prefix ADD_FILE_MARKER EOF_MARKER = None"
  "strip_prefix DELETE_FILE_MARKER EOF_MARKER = None"
  "strip_prefix UPDATE_FILE_MARKER EOF_MARKER = None"
  "strip_prefix ENVIRONMENT_ID_MARKER END_PATCH_MARKER = None"
  by (simp_all add: lit_defs strip_prefix_def)

text \<open>A parser that may close its last hunk: the check before a header succeeds.\<close>

definition closable :: "streaming_patch_parser \<Rightarrow> bool" where
  "closable p \<longleftrightarrow> mode (state p) \<notin> {NotStarted, EndedPatch} \<and>
     (\<forall>l. ensure_update_hunk_is_not_empty p l = Ok ())"

lemma handle_header_lines:
  assumes "closable p"
  shows "handle_hunk_headers_and_end_patch p (ADD_FILE_MARKER @ q) =
      Ok (set_mode InAddFile (set_hunks (hunks (state p) @ [AddFile q []]) p), True)"
    and "handle_hunk_headers_and_end_patch p (DELETE_FILE_MARKER @ q) =
      Ok (set_mode InDeleteFile (set_hunks (hunks (state p) @ [DeleteFile q]) p), True)"
    and "handle_hunk_headers_and_end_patch p (UPDATE_FILE_MARKER @ q) =
      Ok (set_mode (InUpdateFile (line_number p))
           (set_hunks (hunks (state p) @ [UpdateFile q None []]) p), True)"
    and "handle_hunk_headers_and_end_patch p END_PATCH_MARKER = Ok (set_mode EndedPatch p, True)"
  using assms
  by (simp_all add: handle_hunk_headers_and_end_patch_def marker_disjoint closable_def)

lemma header_trim:
  assumes "path_ok q" "m \<noteq> []" "\<not> is_whitespace (hd m)"
  shows "trim (m @ q) = m @ q" "trim_end (m @ q) = m @ q"
  using assms by (auto simp: path_ok_def intro!: trim_id trim_end_id)

lemma process_header:
  assumes "closable p" "s = trim l" "s = trim_end l" "handle_hunk_headers_and_end_patch p s = Ok (p', True)"
  shows "process_line p l = Ok p'"
  using assms by (cases "mode (state p)") (auto simp: process_line_def closable_def Let_def)

lemma not_ws_star: "\<not> is_whitespace 42" "\<not> is_whitespace 43" "\<not> is_whitespace 45" "\<not> is_whitespace 64"
  "is_whitespace 32" "is_whitespace CR" "is_whitespace LF"
  by (simp_all add: is_whitespace_def)

lemma process_header_lines:
  assumes "closable p" "path_ok q"
  shows "process_line p (ADD_FILE_MARKER @ q) =
      Ok (set_mode InAddFile (set_hunks (hunks (state p) @ [AddFile q []]) p))"
    and "process_line p (DELETE_FILE_MARKER @ q) =
      Ok (set_mode InDeleteFile (set_hunks (hunks (state p) @ [DeleteFile q]) p))"
    and "process_line p (UPDATE_FILE_MARKER @ q) =
      Ok (set_mode (InUpdateFile (line_number p))
           (set_hunks (hunks (state p) @ [UpdateFile q None []]) p))"
  using header_trim [OF assms(2)] handle_header_lines [OF assms(1)] marker_space marker_heads not_ws_star
  by (auto intro!: process_header [OF assms(1)] simp del: append_assoc)

lemma process_add_line:
  assumes "mode (state p) = InAddFile" "last_opt (hunks (state p)) = Some (AddFile path contents)"
  shows "process_line p (str ''+'' @ l) =
    Ok (set_hunks (butlast (hunks (state p)) @ [AddFile path (contents @ l @ [LF])]) p)"
proof -
  have "trim (str ''+'' @ l) = 43 # trim_end l"
    by (simp add: lit_defs trim_Cons not_ws_star)
  then show ?thesis
    using assms by (simp add: process_line_def handle_not_header del: str_def)
qed

lemma process_update_line:
  assumes "mode (state p) = InUpdateFile n" "last_opt (hunks (state p)) = Some (UpdateFile path mv cs)"
    and "handle_hunk_headers_and_end_patch p (trim_end l) = Ok (p, False)"
    and "update_chunks (line_number p) l mv cs = Ok (mv', cs')"
  shows "process_line p l = Ok (set_hunks (butlast (hunks (state p)) @ [UpdateFile path mv' cs']) p)"
  using assms by (simp add: process_line_def)

section \<open>Runs over lines\<close>

fun run_lines :: "streaming_patch_parser \<Rightarrow> ustring list \<Rightarrow> (streaming_patch_parser, parse_error) result" where
  "run_lines p [] = Ok p"
| "run_lines p (l # ls) = result_bind (process_line (end_line p) l) (\<lambda>p'. run_lines p' ls)"

lemma run_lines_append: "run_lines p (ls @ ms) = result_bind (run_lines p ls) (\<lambda>p'. run_lines p' ms)"
  by (induction p ls rule: run_lines.induct) (auto simp: result_bind_def split: sum.splits)

lemma process_line_buffer: "process_line p l = Ok p' \<Longrightarrow> line_buffer p' = line_buffer p"
  by (erule process_line_cases) (auto elim!: handle_headers_cases)

lemma push_chars_no_LF:
  "LF \<notin> set l \<Longrightarrow> push_chars p l = (p\<lparr>line_buffer := line_buffer p @ l\<rparr>, Ok ())"
  by (induction l arbitrary: p) auto

lemma push_chars_line:
  assumes "line_ok l" "line_buffer p = []" "process_line (end_line p) l = Ok p'"
  shows "push_chars p (l @ [LF]) = (p', Ok ())"
proof -
  have "end_line (p\<lparr>line_buffer := l\<rparr>) = end_line p" by (simp add: end_line_def)
  with assms show ?thesis
    by (simp add: push_chars_append push_chars_no_LF line_ok_def strip_cr_id)
qed

lemma push_chars_run_lines:
  assumes "\<forall>l \<in> set ls. line_ok l" "line_buffer p = []" "run_lines p ls = Ok p'"
  shows "push_chars p (concat (map (\<lambda>l. l @ [LF]) ls)) = (p', Ok ()) \<and> line_buffer p' = []"
  using assms
proof (induction ls arbitrary: p)
  case (Cons l ls)
  from Cons.prems(3) obtain q where q: "process_line (end_line p) l = Ok q" "run_lines q ls = Ok p'"
    by (auto simp: result_bind_Ok)
  from q(1) have "line_buffer q = []" using process_line_buffer by (fastforce simp: end_line_def)
  with Cons.IH [of q] Cons.prems q
  have IH: "push_chars q (concat (map (\<lambda>l. l @ [LF]) ls)) = (p', Ok ()) \<and> line_buffer p' = []" by simp
  have "push_chars p ((l @ [LF]) @ concat (map (\<lambda>l. l @ [LF]) ls)) =
      push_chars q (concat (map (\<lambda>l. l @ [LF]) ls))"
    unfolding push_chars_append [of p "l @ [LF]"]
    using push_chars_line [of l p q] Cons.prems q(1) by simp
  with IH show ?case by simp
qed simp

lemma join_lines: "join [LF] (ls @ [m]) = concat (map (\<lambda>l. l @ [LF]) ls) @ m"
  by (induction ls) (auto simp: join_Cons)

definition at :: "streaming_patch_parser \<Rightarrow> streaming_parser_mode \<Rightarrow> hunk list \<Rightarrow> ustring option \<Rightarrow> bool" where
  "at p m hs env \<longleftrightarrow> line_buffer p = [] \<and> mode (state p) = m \<and> hunks (state p) = hs \<and>
     environment_id (state p) = env"

lemma at_end_line [simp]: "at (end_line p) m hs env \<longleftrightarrow> mode (state p) = m \<and> hunks (state p) = hs \<and>
     environment_id (state p) = env"
  by (simp add: at_def end_line_def)

lemma run_add_lines:
  assumes "at p InAddFile (hs @ [AddFile path c]) env"
  shows "\<exists>p'. run_lines p (map ((@) (str ''+'')) ls) = Ok p' \<and>
    at p' InAddFile (hs @ [AddFile path (c @ concat (map (\<lambda>l. l @ [LF]) ls))]) env"
  using assms
proof (induction ls arbitrary: p c)
  case (Cons l ls)
  let ?q = "set_hunks (hs @ [AddFile path (c @ l @ [LF])]) (end_line p)"
  from Cons.prems have "process_line (end_line p) (str ''+'' @ l) = Ok ?q"
    using process_add_line [of "end_line p" path c l] by (simp add: at_def end_line_def)
  moreover have "at ?q InAddFile (hs @ [AddFile path (c @ l @ [LF])]) env"
    using Cons.prems by (simp add: at_def end_line_def)
  ultimately show ?case using Cons.IH [of ?q "c @ l @ [LF]"] by simp
qed simp

lemma trim_end_hd: "trim_end s = [] \<or> hd (trim_end s) = hd s"
proof -
  obtain t where "s = trim_end s @ t" using trim_end_matches_split unfolding trim_end_def by blast
  then show ?thesis by (metis hd_append2)
qed

lemma update_chunks_feed:
  assumes "\<not> is_end_of_file c" "m \<in> {32, 43, 45}"
  shows "update_chunks n (m # l) mv (cs @ [c]) = Ok (mv, cs @ [feed_line (m # l) c])"
proof -
  have hd: "trim_end (m # l) = [] \<or> hd (trim_end (m # l)) = m"
    using trim_end_hd [of "m # l"] by simp
  have mk: "\<not> is_context_marker (trim_end (m # l))" "trim_end (m # l) \<noteq> EMPTY_CHANGE_CONTEXT_MARKER"
    "strip_prefix CHANGE_CONTEXT_MARKER (trim_end (m # l)) = None" "trim_end (m # l) \<noteq> EOF_MARKER"
    using hd assms(2) by (auto simp: is_context_marker_def lit_defs strip_prefix_def prefix_def)
  from assms(2) consider "m = 32" | "m = 43" | "m = 45" by blast
  then show ?thesis
    by cases (use mk assms(1) in \<open>auto simp: update_chunks_def Let_def open_chunk_def strip_prefix_def lit_defs\<close>)
qed

lemma run_feed_lines:
  assumes "at p (InUpdateFile n) (hs @ [UpdateFile path mv (cs @ [c])]) env" "\<not> is_end_of_file c"
    and "\<forall>l \<in> set ls. \<exists>m t. l = m # t \<and> m \<in> {32, 43, 45}"
  shows "\<exists>p'. run_lines p ls = Ok p' \<and>
    at p' (InUpdateFile n) (hs @ [UpdateFile path mv (cs @ [feed_lines ls c])]) env"
  using assms
proof (induction ls arbitrary: p c)
  case (Cons l ls)
  then obtain m t where l: "l = m # t" "m \<in> {32, 43, 45}" by auto
  let ?c = "feed_line l c"
  let ?q = "set_hunks (hs @ [UpdateFile path mv (cs @ [?c])]) (end_line p)"
  have "trim_end l = [] \<or> hd (trim_end l) \<noteq> 42"
    using l trim_end_hd [of l] by auto
  then have "process_line (end_line p) l = Ok ?q"
    using Cons.prems(1,2) l process_update_line [of "end_line p" n path mv "cs @ [c]" l mv "cs @ [?c]"]
    by (simp add: update_chunks_feed handle_not_header at_def end_line_def)
  moreover have "at ?q (InUpdateFile n) (hs @ [UpdateFile path mv (cs @ [?c])]) env"
    using Cons.prems(1) by (simp add: at_def end_line_def)
  moreover have "\<not> is_end_of_file ?c"
    using Cons.prems(2) l by (auto simp: push_context_line_def)
  ultimately show ?case using Cons.IH [of ?q ?c] Cons.prems(3) by (simp add: feed_lines_def)
qed (simp add: feed_lines_def)

section \<open>Chunks, hunks and patches\<close>

lemma render_body_heads: "l \<in> set (render_body i j ctx old new) \<Longrightarrow> \<exists>m t. l = m # t \<and> m \<in> {32, 43, 45}"
  by (induction i j ctx old new rule: render_body.induct) (auto simp: lit_defs)

lemma run_update_line:
  assumes "at p (InUpdateFile n) (hs @ [UpdateFile path mv cs]) env"
    and "\<And>q. mode (state q) = InUpdateFile n \<Longrightarrow> handle_hunk_headers_and_end_patch q (trim_end l) = Ok (q, False)"
    and "\<And>k. update_chunks k l mv cs = Ok (mv', cs')"
  shows "\<exists>p'. run_lines p [l] = Ok p' \<and> at p' (InUpdateFile n) (hs @ [UpdateFile path mv' cs']) env"
  using assms process_update_line [of "end_line p" n path mv cs l mv' cs']
  by (simp add: at_def end_line_def)

lemma run_lines_trans:
  assumes "\<exists>q. run_lines p ls = Ok q \<and> P q" "\<And>q. P q \<Longrightarrow> \<exists>r. run_lines q ms = Ok r \<and> Q r"
  shows "\<exists>r. run_lines p (ls @ ms) = Ok r \<and> Q r"
  using assms by (auto simp: run_lines_append)

definition context_line :: "ustring option \<Rightarrow> ustring" where
  "context_line ctx =
     (case ctx of None \<Rightarrow> EMPTY_CHANGE_CONTEXT_MARKER | Some x \<Rightarrow> CHANGE_CONTEXT_MARKER @ x)"

lemma trim_end_context_line:
  "\<forall>x. ctx = Some x \<longrightarrow> path_ok x \<Longrightarrow> trim_end (context_line ctx) = context_line ctx"
  by (rule trim_end_id) (auto simp: context_line_def path_ok_def lit_defs is_whitespace_def split: option.splits)

lemma context_line_head: "hd (context_line ctx) = 64"
  by (simp add: context_line_def lit_defs split: option.splits)

lemma update_chunks_context_line:
  assumes "\<forall>x. ctx = Some x \<longrightarrow> path_ok x" "\<not> is_some_and (last_opt cs) chunk_is_empty"
  shows "update_chunks k (context_line ctx) mv cs = Ok (mv, cs @ [default_chunk\<lparr>change_context := ctx\<rparr>])"
proof -
  have "is_context_marker (context_line ctx)" "context_line ctx \<noteq> []"
    "\<not> prefix MOVE_TO_MARKER (context_line ctx)"
    by (auto simp: is_context_marker_def context_line_def lit_defs split: option.splits)
  moreover have "context_line ctx = EMPTY_CHANGE_CONTEXT_MARKER \<longleftrightarrow> ctx = None"
    by (simp add: context_line_def lit_defs split: option.splits)
  moreover have "ctx = Some x \<Longrightarrow> strip_prefix CHANGE_CONTEXT_MARKER (context_line ctx) = Some x" for x
    by (simp add: context_line_def)
  ultimately show ?thesis
    using assms(2) trim_end_context_line [OF assms(1)]
    by (cases ctx) (auto simp: update_chunks_def Let_def default_chunk_def)
qed

lemma trim_end_EOF: "trim_end EOF_MARKER = EOF_MARKER"
  by (rule trim_end_id) (simp add: lit_defs is_whitespace_def)

lemma EOF_not_header:
  "mode (state q) = InUpdateFile n \<Longrightarrow> handle_hunk_headers_and_end_patch q (trim_end EOF_MARKER) = Ok (q, False)"
  by (simp add: trim_end_EOF handle_hunk_headers_and_end_patch_def marker_disjoint)

lemma update_chunks_EOF:
  assumes "\<not> is_end_of_file c" "\<not> chunk_is_empty c"
  shows "update_chunks k EOF_MARKER mv (cs @ [c]) = Ok (mv, cs @ [c\<lparr>is_end_of_file := True\<rparr>])"
proof -
  have "\<not> is_context_marker EOF_MARKER" "EOF_MARKER \<noteq> EMPTY_CHANGE_CONTEXT_MARKER"
    "strip_prefix CHANGE_CONTEXT_MARKER EOF_MARKER = None"
    by (simp_all add: is_context_marker_def lit_defs strip_prefix_def)
  with assms show ?thesis by (simp add: update_chunks_def trim_end_EOF)
qed

lemma run_chunk:
  assumes "at p (InUpdateFile n) (hs @ [UpdateFile path mv cs]) env"
    and "\<not> is_some_and (last_opt cs) chunk_is_empty" "printable_chunk c"
  shows "\<exists>p'. run_lines p (render_chunk c) = Ok p' \<and>
    at p' (InUpdateFile n) (hs @ [UpdateFile path mv (cs @ [c])]) env"
proof -
  define c0 where "c0 = default_chunk\<lparr>change_context := change_context c\<rparr>"
  define body where "body = render_body 0 0 (context_line_indices c) (old_lines c) (new_lines c)"
  have ctx: "\<forall>x. change_context c = Some x \<longrightarrow> path_ok x" and wf: "context_ok c" "\<not> chunk_is_empty c"
    using assms(3) by (auto simp: printable_chunk_def wf_chunk_def)
  have fed: "feed_lines body c0 = c\<lparr>is_end_of_file := False\<rparr>"
    using feed_render_body [OF context_ok_fits [OF wf(1)], of c0]
    by (simp add: body_def c0_def default_chunk_def)
  have "\<exists>q. run_lines p [context_line (change_context c)] = Ok q \<and>
      at q (InUpdateFile n) (hs @ [UpdateFile path mv (cs @ [c0])]) env"
    using assms(1,2) ctx unfolding c0_def
    by (intro run_update_line)
      (auto simp: trim_end_context_line context_line_head handle_not_header update_chunks_context_line)
  moreover have "\<exists>r. run_lines q body = Ok r \<and>
      at r (InUpdateFile n) (hs @ [UpdateFile path mv (cs @ [c\<lparr>is_end_of_file := False\<rparr>])]) env"
    if "at q (InUpdateFile n) (hs @ [UpdateFile path mv (cs @ [c0])]) env" for q
    unfolding fed [symmetric] using that
    by (intro run_feed_lines) (auto simp: c0_def default_chunk_def body_def dest!: render_body_heads)
  ultimately have "\<exists>r. run_lines p ([context_line (change_context c)] @ body) = Ok r \<and>
      at r (InUpdateFile n) (hs @ [UpdateFile path mv (cs @ [c\<lparr>is_end_of_file := False\<rparr>])]) env"
    by (rule run_lines_trans)
  moreover have "\<exists>r. run_lines q (if is_end_of_file c then [EOF_MARKER] else []) = Ok r \<and>
      at r (InUpdateFile n) (hs @ [UpdateFile path mv (cs @ [c])]) env"
    if "at q (InUpdateFile n) (hs @ [UpdateFile path mv (cs @ [c\<lparr>is_end_of_file := False\<rparr>])]) env" for q
  proof (cases "is_end_of_file c")
    case True
    have "\<exists>r. run_lines q [EOF_MARKER] = Ok r \<and>
        at r (InUpdateFile n) (hs @ [UpdateFile path mv (cs @ [c])]) env"
      using that EOF_not_header
    proof (rule run_update_line)
      show "update_chunks k EOF_MARKER mv (cs @ [c\<lparr>is_end_of_file := False\<rparr>]) = Ok (mv, cs @ [c])" for k
        using update_chunks_EOF [of "c\<lparr>is_end_of_file := False\<rparr>" k mv cs] wf True by simp
    qed
    with True show ?thesis by simp
  next
    case False
    then have "c\<lparr>is_end_of_file := False\<rparr> = c" by simp
    with False that show ?thesis by simp
  qed
  ultimately have "\<exists>r. run_lines p (([context_line (change_context c)] @ body) @
      (if is_end_of_file c then [EOF_MARKER] else [])) = Ok r \<and>
      at r (InUpdateFile n) (hs @ [UpdateFile path mv (cs @ [c])]) env"
    by (rule run_lines_trans)
  then show ?thesis by (simp add: render_chunk_def context_line_def body_def)
qed

lemma run_chunks:
  assumes "at p (InUpdateFile n) (hs @ [UpdateFile path mv cs]) env"
    and "\<not> is_some_and (last_opt cs) chunk_is_empty" "\<forall>c \<in> set ds. printable_chunk c"
  shows "\<exists>p'. run_lines p (concat (map render_chunk ds)) = Ok p' \<and>
    at p' (InUpdateFile n) (hs @ [UpdateFile path mv (cs @ ds)]) env"
  using assms
proof (induction ds arbitrary: p cs)
  case (Cons d ds)
  have "\<exists>r. run_lines p (render_chunk d @ concat (map render_chunk ds)) = Ok r \<and>
    at r (InUpdateFile n) (hs @ [UpdateFile path mv ((cs @ [d]) @ ds)]) env"
    using Cons.prems
    by (intro run_lines_trans [OF run_chunk [OF Cons.prems(1,2)]] Cons.IH)
      (auto simp: printable_chunk_def wf_chunk_def)
  then show ?case by simp
qed simp

fun closed_hunk :: "hunk \<Rightarrow> bool" where
  "closed_hunk (UpdateFile _ _ cs) = (cs \<noteq> [] \<and> \<not> chunk_is_empty (last cs))"
| "closed_hunk _ = True"

definition hunks_closed :: "hunk list \<Rightarrow> bool" where
  "hunks_closed hs \<longleftrightarrow> hs = [] \<or> closed_hunk (last hs)"

definition open_mode :: "streaming_parser_mode \<Rightarrow> bool" where
  "open_mode m \<longleftrightarrow> m \<notin> {NotStarted, EndedPatch}"

lemma closableI:
  assumes "open_mode (mode (state p))" "hunks_closed (hunks (state p))"
  shows "closable p" "closable (end_line p)"
proof -
  have "ensure_update_hunk_is_not_empty q l = Ok ()" if "hunks (state q) = hunks (state p)" for q l
    using assms(2) that
    by (cases "hunks (state p)" rule: rev_cases)
      (auto simp: ensure_update_hunk_is_not_empty_def hunks_closed_def last_opt_def
        split: hunk.splits list.splits option.splits)
  with assms(1) show "closable p" "closable (end_line p)"
    by (simp_all add: closable_def open_mode_def end_line_def)
qed

lemma concat_text_lines:
  assumes "contents = [] \<or> last contents = LF"
  shows "concat (map (\<lambda>l. l @ [LF]) (text_lines contents)) = contents"
proof -
  let ?ws = "split_char LF contents"
  have eq: "contents = concat (map (\<lambda>l. l @ [LF]) (butlast ?ws)) @ last ?ws"
    using join_split_char [of LF contents] join_lines [of "butlast ?ws" "last ?ws"] by simp
  have "LF \<notin> set (last ?ws)" by (rule split_char_notin [of _ _ contents]) simp
  moreover have "last ?ws \<noteq> [] \<Longrightarrow> last contents = last (last ?ws)" by (subst eq) simp
  moreover have "contents = [] \<Longrightarrow> last ?ws = []" by simp
  ultimately have "last ?ws = []" using assms by (metis last_in_set)
  with eq show ?thesis by (simp add: text_lines_def)
qed

lemma run_hunk:
  assumes "at p m hs env" "open_mode m" "hunks_closed hs" "printable_hunk h"
  shows "\<exists>p'. run_lines p (render_hunk h) = Ok p' \<and> (\<exists>m'. at p' m' (hs @ [h]) env \<and> open_mode m')"
proof -
  have cl: "closable (end_line p)" using assms by (intro closableI) (auto simp: at_def)
  show ?thesis
  proof (cases h)
    case (AddFile path contents)
    let ?q = "set_mode InAddFile (set_hunks (hunks (state (end_line p)) @ [AddFile path []]) (end_line p))"
    have "process_line (end_line p) (ADD_FILE_MARKER @ path) = Ok ?q"
      using assms(4) AddFile by (intro process_header_lines [OF cl]) simp
    moreover have "at ?q InAddFile (hs @ [AddFile path []]) env"
      using assms(1) by (simp add: at_def end_line_def)
    from run_add_lines [OF this, of "text_lines contents"]
    have "\<exists>p'. run_lines ?q (map ((@) (str ''+'')) (text_lines contents)) = Ok p' \<and>
        at p' InAddFile (hs @ [AddFile path contents]) env"
      using concat_text_lines [of contents] assms(4) AddFile by simp
    ultimately show ?thesis using AddFile by (auto simp: open_mode_def)
  next
    case (DeleteFile path)
    then show ?thesis
      using process_header_lines(2) [OF cl, of path] assms(1,4)
      by (auto simp: at_def end_line_def open_mode_def)
  next
    case (UpdateFile path mv cs)
    let ?n = "line_number (end_line p)"
    let ?q = "set_mode (InUpdateFile ?n) (set_hunks (hunks (state (end_line p)) @ [UpdateFile path None []]) (end_line p))"
    have "process_line (end_line p) (UPDATE_FILE_MARKER @ path) = Ok ?q"
      using assms(4) UpdateFile by (intro process_header_lines [OF cl]) simp
    then have "\<exists>q. run_lines p [UPDATE_FILE_MARKER @ path] = Ok q \<and>
        at q (InUpdateFile ?n) (hs @ [UpdateFile path None []]) env"
      using assms(1) by (simp add: at_def end_line_def)
    moreover have "\<exists>r. run_lines q (case mv of None \<Rightarrow> [] | Some q \<Rightarrow> [MOVE_TO_MARKER @ q]) = Ok r \<and>
        at r (InUpdateFile ?n) (hs @ [UpdateFile path mv []]) env"
      if q: "at q (InUpdateFile ?n) (hs @ [UpdateFile path None []]) env" for q
    proof (cases mv)
      case (Some d)
      then have "path_ok d" using assms(4) UpdateFile by simp
      then have tr: "trim_end (MOVE_TO_MARKER @ d) = MOVE_TO_MARKER @ d"
        using header_trim(2) marker_space marker_heads not_ws_star by metis
      then show ?thesis
        using Some run_update_line [OF q, where l = "MOVE_TO_MARKER @ d" and mv' = mv and cs' = "[]"]
        by (simp add: handle_hunk_headers_and_end_patch_def marker_disjoint update_chunks_def)
    qed (use q in simp)
    ultimately have "\<exists>r. run_lines p ([UPDATE_FILE_MARKER @ path] @
        (case mv of None \<Rightarrow> [] | Some q \<Rightarrow> [MOVE_TO_MARKER @ q])) = Ok r \<and>
        at r (InUpdateFile ?n) (hs @ [UpdateFile path mv []]) env"
      by (rule run_lines_trans)
    then have "\<exists>r. run_lines p (([UPDATE_FILE_MARKER @ path] @
        (case mv of None \<Rightarrow> [] | Some q \<Rightarrow> [MOVE_TO_MARKER @ q])) @ concat (map render_chunk cs)) = Ok r \<and>
        at r (InUpdateFile ?n) (hs @ [UpdateFile path mv ([] @ cs)]) env"
      using assms(4) UpdateFile by (intro run_lines_trans [OF _ run_chunks]) auto
    then show ?thesis using UpdateFile by (auto simp: open_mode_def)
  qed
qed

lemma printable_closed: "printable_hunk h \<Longrightarrow> closed_hunk h"
  by (cases h) (auto simp: wf_chunk_def)

lemma run_hunks:
  assumes "at p m hs env" "open_mode m" "hunks_closed hs" "\<forall>h \<in> set gs. printable_hunk h"
  shows "\<exists>p'. run_lines p (concat (map render_hunk gs)) = Ok p' \<and>
    (\<exists>m'. at p' m' (hs @ gs) env \<and> open_mode m' \<and> hunks_closed (hs @ gs))"
  using assms
proof (induction gs arbitrary: p m hs)
  case (Cons g gs)
  from run_hunk [OF Cons.prems(1-3), of g] Cons.prems(4) obtain q m' where
    q: "run_lines p (render_hunk g) = Ok q" "at q m' (hs @ [g]) env" "open_mode m'" by auto
  moreover have "hunks_closed (hs @ [g])"
    using Cons.prems(4) printable_closed by (simp add: hunks_closed_def)
  ultimately show ?case using Cons.IH [of q m' "hs @ [g]"] Cons.prems(4) by (simp add: run_lines_append)
qed auto

lemma path_ok_line_ok: "path_ok q \<Longrightarrow> LF \<notin> set m \<Longrightarrow> line_ok (m @ q)"
  by (auto simp: path_ok_def line_ok_def is_whitespace_def)

lemma marker_no_LF:
  "LF \<notin> set ADD_FILE_MARKER" "LF \<notin> set DELETE_FILE_MARKER" "LF \<notin> set UPDATE_FILE_MARKER"
  "LF \<notin> set MOVE_TO_MARKER" "LF \<notin> set CHANGE_CONTEXT_MARKER"
  "line_ok EMPTY_CHANGE_CONTEXT_MARKER" "line_ok EOF_MARKER" "line_ok BEGIN_PATCH_MARKER"
  "line_ok END_PATCH_MARKER" "LF \<notin> set (ENVIRONMENT_ID_MARKER @ str '' '')"
  by (simp_all add: lit_defs line_ok_def)

lemma line_ok_Cons: "line_ok l \<Longrightarrow> m \<notin> {LF, CR} \<Longrightarrow> line_ok (m # l)"
  by (auto simp: line_ok_def)

lemma render_body_line_ok:
  assumes "ctx_fits i j ctx old new" "\<forall>l \<in> set old \<union> set new. line_ok l"
    and "l \<in> set (render_body i j ctx old new)"
  shows "line_ok l"
  using assms
proof (induction i j ctx old new rule: ctx_fits.induct)
  case (1 i j old new)
  then show ?case by (auto simp: lit_defs intro: line_ok_Cons)
next
  case (2 i j a b ctx old new)
  show ?case
  proof (cases "l \<in> set (render_body (Suc a) (Suc b) ctx (drop (Suc (a - i)) old) (drop (Suc (b - j)) new))")
    case True
    then show ?thesis using "2.prems" by (intro "2.IH") (auto dest: in_set_dropD)
  next
    case False
    with "2.prems" have "\<exists>m t. l = m # t \<and> m \<notin> {LF, CR} \<and> t \<in> set old \<union> set new"
      by (auto simp: lit_defs dest: in_set_takeD)
    then show ?thesis using "2.prems"(2) by (auto intro: line_ok_Cons)
  qed
qed

lemma render_chunk_line_ok:
  assumes "printable_chunk c" "l \<in> set (render_chunk c)"
  shows "line_ok l"
  using assms render_body_line_ok [OF context_ok_fits, of c l] marker_no_LF
  by (auto simp: render_chunk_def printable_chunk_def wf_chunk_def path_ok_line_ok
      split: option.splits if_splits)

lemma text_lines_marker: "line_ok l \<Longrightarrow> line_ok (str ''+'' @ l)"
  by (simp add: lit_defs line_ok_Cons)

lemma render_hunk_line_ok:
  assumes "printable_hunk h" "l \<in> set (render_hunk h)"
  shows "line_ok l"
  using assms marker_no_LF
  by (cases h)
    (auto simp: path_ok_line_ok text_lines_marker intro: render_chunk_line_ok line_ok_Cons
      split: option.splits)

lemma env_ok_path_ok: "env_ok (Some e) \<Longrightarrow> LF \<notin> set e \<Longrightarrow> path_ok e"
  using trim_last [of e] by (auto simp: env_ok_def path_ok_def)

lemma render_patch_line_ok:
  assumes "\<forall>h \<in> set hs. printable_hunk h" "env_ok env" "\<forall>e. env = Some e \<longrightarrow> LF \<notin> set e"
    and "l \<in> set (render_patch env hs)"
  shows "line_ok l"
  using assms marker_no_LF path_ok_line_ok [OF env_ok_path_ok]
  by (auto simp: render_patch_def intro: render_hunk_line_ok split: option.splits simp flip: append_assoc)

lemma run_patch:
  assumes "\<forall>h \<in> set hs. printable_hunk h" "env_ok env" "\<forall>e. env = Some e \<longrightarrow> LF \<notin> set e"
  shows "\<exists>p. run_lines default_parser (butlast (render_patch env hs)) = Ok p \<and>
    (\<exists>m. at p m hs env \<and> open_mode m \<and> hunks_closed hs)"
proof -
  let ?b = "set_mode StartedPatch (end_line default_parser)"
  have "trim BEGIN_PATCH_MARKER = BEGIN_PATCH_MARKER"
    by (rule trim_id) (simp add: lit_defs is_whitespace_def)
  then have b: "\<exists>p. run_lines default_parser [BEGIN_PATCH_MARKER] = Ok p \<and> at p StartedPatch [] None"
    by (simp add: process_line_def default_parser_def end_line_def at_def)
  have e: "\<exists>q. run_lines p (case env of None \<Rightarrow> [] | Some e \<Rightarrow> [ENVIRONMENT_ID_MARKER @ str '' '' @ e]) = Ok q \<and>
      at q StartedPatch [] env" if p: "at p StartedPatch [] None" for p
  proof (cases env)
    case (Some i)
    then have i: "i \<noteq> []" "trim i = i" "path_ok i"
      using assms(2,3) env_ok_path_ok by (auto simp: env_ok_def)
    have "trim (ENVIRONMENT_ID_MARKER @ str '' '' @ i) = ENVIRONMENT_ID_MARKER @ str '' '' @ i"
      using header_trim(1) [OF i(3), of "ENVIRONMENT_ID_MARKER @ str '' ''"] marker_heads not_ws_star by simp
    moreover have "trim (str '' '' @ i) = i"
      using i by (simp add: lit_defs trim_def trim_start_Cons not_ws_star)
    ultimately show ?thesis
      using Some p i by (simp add: process_line_def handle_hunk_headers_and_end_patch_def at_def end_line_def)
  qed (use p in simp)
  have "\<exists>q. run_lines default_parser ([BEGIN_PATCH_MARKER] @
      (case env of None \<Rightarrow> [] | Some e \<Rightarrow> [ENVIRONMENT_ID_MARKER @ str '' '' @ e])) = Ok q \<and>
      at q StartedPatch [] env"
    by (rule run_lines_trans [OF b e])
  then have "\<exists>r. run_lines default_parser (([BEGIN_PATCH_MARKER] @
      (case env of None \<Rightarrow> [] | Some e \<Rightarrow> [ENVIRONMENT_ID_MARKER @ str '' '' @ e])) @
      concat (map render_hunk hs)) = Ok r \<and> (\<exists>m. at r m ([] @ hs) env \<and> open_mode m \<and> hunks_closed ([] @ hs))"
    by (rule run_lines_trans, intro run_hunks [where m = StartedPatch])
      (use assms(1) in \<open>simp_all add: open_mode_def hunks_closed_def\<close>)
  then show ?thesis by (simp add: render_patch_def butlast_append)
qed

lemma finish_end_patch:
  assumes "at p m hs env" "open_mode m" "hunks_closed hs"
  shows "finish (p\<lparr>line_buffer := END_PATCH_MARKER\<rparr>) =
    (set_mode EndedPatch (end_line p), Ok hs)"
proof -
  have "trim END_PATCH_MARKER = END_PATCH_MARKER"
    by (rule trim_id) (simp add: lit_defs is_whitespace_def)
  moreover have "closable (end_line p)" using assms by (intro closableI) (auto simp: at_def)
  moreover have "end_line (p\<lparr>line_buffer := END_PATCH_MARKER\<rparr>) = end_line p" by (simp add: end_line_def)
  ultimately show ?thesis
    using assms marker_heads
    by (simp add: finish_def finish_line_def closable_def) (simp add: end_line_def at_def)
qed

lemma render_patch_boundaries:
  "render_patch env hs \<noteq> []" "hd (render_patch env hs) = BEGIN_PATCH_MARKER"
  "last (render_patch env hs) = END_PATCH_MARKER"
  by (simp_all add: render_patch_def)

lemma check_boundaries_render:
  "check_patch_boundaries_lenient (render_patch env hs) = Ok (render_patch env hs)"
  "check_patch_boundaries_strict (render_patch env hs) = Ok (render_patch env hs)"
proof -
  have t: "trim END_PATCH_MARKER = END_PATCH_MARKER" "trim BEGIN_PATCH_MARKER = BEGIN_PATCH_MARKER"
    by (rule trim_id; simp add: lit_defs is_whitespace_def)+
  have "first_opt (render_patch env hs) = Some BEGIN_PATCH_MARKER"
    by (simp add: render_patch_def)
  moreover have "last_opt (render_patch env hs) = Some END_PATCH_MARKER"
    by (simp add: last_opt_def render_patch_boundaries)
  ultimately show s: "check_patch_boundaries_strict (render_patch env hs) = Ok (render_patch env hs)"
    using t by (simp add: check_patch_boundaries_strict_def check_start_and_end_lines_strict_def)
  then show "check_patch_boundaries_lenient (render_patch env hs) = Ok (render_patch env hs)"
    by (simp add: check_patch_boundaries_lenient_def)
qed

text \<open>
  C1: parsing is complete for the patch grammar and loses nothing: for well-formed hunks whose lines
  have no line feed and no trailing carriage return, and any environment id on one line, parsing the
  printed patch gives back exactly these hunks and this id.
\<close>

theorem parse_render_patch:
  assumes "\<forall>h \<in> set hs. printable_hunk h" "env_ok env" "\<forall>e. env = Some e \<longrightarrow> LF \<notin> set e"
  shows "parse_patch (join [LF] (render_patch env hs)) =
    Ok \<lparr>args_patch = join [LF] (render_patch env hs), args_hunks = hs, args_workdir = None,
        args_environment_id = env\<rparr>"
proof -
  let ?ls = "render_patch env hs"
  let ?text = "join [LF] ?ls"
  have ok: "\<forall>l \<in> set ?ls. line_ok l" using render_patch_line_ok [OF assms] by blast
  then have okb: "\<forall>l \<in> set (butlast ?ls). line_ok l" by (blast dest: in_set_butlastD)
  have joined: "?text = concat (map (\<lambda>l. l @ [LF]) (butlast ?ls)) @ END_PATCH_MARKER"
    using join_lines [of "butlast ?ls" END_PATCH_MARKER] render_patch_boundaries
    by (metis append_butlast_last_id)
  have "trim ?text = ?text"
  proof (rule trim_id, rule disjI2)
    have "hd ?text = hd BEGIN_PATCH_MARKER"
      by (simp add: render_patch_def lit_defs join_Cons)
    moreover have "last ?text = last END_PATCH_MARKER" unfolding joined using marker_heads by simp
    ultimately show "\<not> is_whitespace (hd ?text) \<and> \<not> is_whitespace (last ?text)"
      by (simp add: lit_defs is_whitespace_def)
  qed
  moreover have "lines ?text = ?ls"
    using ok okb marker_heads render_patch_boundaries by (intro lines_join) (auto simp: line_ok_def)
  moreover obtain p m where run: "run_lines default_parser (butlast ?ls) = Ok p"
    and p: "at p m hs env" "open_mode m" "hunks_closed hs"
    using run_patch [OF assms] by blast
  have "push_chars default_parser (concat (map (\<lambda>l. l @ [LF]) (butlast ?ls))) = (p, Ok ())"
    using push_chars_run_lines [OF okb _ run] by (simp add: default_parser_def)
  then have "push_chars default_parser ?text = (p\<lparr>line_buffer := END_PATCH_MARKER\<rparr>, Ok ())"
    unfolding joined push_chars_append
    using p(1) push_chars_no_LF [of END_PATCH_MARKER p] marker_no_LF by (simp add: line_ok_def at_def)
  then have "push_delta default_parser ?text = (p\<lparr>line_buffer := END_PATCH_MARKER\<rparr>, Ok hs)"
    using p(1) by (simp add: push_delta_def at_def)
  ultimately show ?thesis
    using finish_end_patch [OF p] p(1) check_boundaries_render
    by (simp add: parse_patch_def parse_patch_text_def PARSE_IN_STRICT_MODE_def at_def end_line_def Let_def)
qed

definition sample_chunk :: update_file_chunk where
  "sample_chunk =
     \<lparr>change_context = Some (str ''fn main''), old_lines = [str ''keep'', str ''old''],
      new_lines = [str ''keep'', str ''new''], context_line_indices = [(0, 0)], is_end_of_file = True\<rparr>"

definition sample_hunks :: "hunk list" where
  "sample_hunks =
     [AddFile (str ''a.txt'') (str ''hello'' @ [LF]),
      UpdateFile (str ''src/b.txt'') (Some (str ''src/c.txt'')) [sample_chunk],
      DeleteFile (str ''d.txt'')]"

lemma sample_chunk_wf: "wf_chunk sample_chunk"
  by (simp add: sample_chunk_def wf_chunk_def context_ok_def chunk_is_empty_def)

lemma sample_hunks_printable: "\<forall>h \<in> set sample_hunks. printable_hunk h"
  using sample_chunk_wf
  by (simp add: sample_hunks_def printable_chunk_def path_ok_def text_lines_def line_ok_def
      str_def is_whitespace_def)
     (simp add: sample_chunk_def str_def path_ok_def line_ok_def is_whitespace_def)

theorem parse_render_patch_witness:
  "parse_patch (join [LF] (render_patch (Some (str ''local'')) sample_hunks)) =
     Ok \<lparr>args_patch = join [LF] (render_patch (Some (str ''local'')) sample_hunks), args_hunks = sample_hunks,
         args_workdir = None, args_environment_id = Some (str ''local'')\<rparr>"
proof (rule parse_render_patch [OF sample_hunks_printable])
  show "env_ok (Some (str ''local''))"
    unfolding env_ok_def by (simp add: str_def trim_id is_whitespace_def)
  show "\<forall>e. Some (str ''local'') = Some e \<longrightarrow> LF \<notin> set e" by (simp add: str_def)
qed

end
