(* ===== verification/Patch_Exact.thy ===== *)
theory Patch_Exact
  imports Memory_FS Patch_Print
begin

text \<open>
  The properties of applying a patch, on any file system that satisfies the laws of \<open>Patch_Apply\<close>,
  with instances on the file system in memory.
\<close>

section \<open>Samples\<close>

definition quiet :: writer where
  "quiet = \<lparr>w_lines = [], w_fail = (\<lambda>_. None)\<rparr>"

definition sample_world :: mem_world where
  "sample_world =
     [([], DirNode), ([str ''src''], DirNode), ([str ''d.txt''], FileNode (str ''bye'')),
      ([str ''src'', str ''b.txt''],
       FileNode (join [LF] [str ''fn main'', str ''keep'', str ''old'', []]))]"

definition sample_run :: "(mem_world, mem_path) patch_run" where
  "sample_run = apply_patch_with_mode mem_fs mem_paths sample_patch NormalizeToLf [] sample_world quiet quiet"

lemma sample_run_eq:
  "apply_patch_with_mode mem_fs mem_paths sample_patch NormalizeToLf [] sample_world quiet quiet =
     (fst sample_run, fst (snd sample_run), fst (snd (snd sample_run)), snd (snd (snd sample_run)))"
  by (simp add: sample_run_def)

section \<open>Exact deltas\<close>

text \<open>
  C2: whether applying a patch succeeds or fails half-way, if the delta handed to the caller is
  marked exact then it describes the change of the files completely: replaying its changes in order
  on the old files gives the new files, and undoing them backwards on the new files gives the old
  ones.
\<close>

theorem apply_patch_exact:
  assumes "fs_laws fs po view" "apply_patch_with_mode fs po patch md cwd w out err = (w', out', err', r)"
    "exact (run_delta r)"
  shows "replay (run_delta r) (view w) = view w' \<and> undo (run_delta r) (view w') = view w"
  using apply_patch_delta [OF assms(1,2)] assms(3) by (simp add: delta_rel_def)

theorem apply_patch_exact_witness:
  "length (changes (run_delta (snd (snd (snd sample_run))))) = 3 \<and>
   replay (run_delta (snd (snd (snd sample_run)))) (mem_view sample_world) = mem_view (fst sample_run) \<and>
   undo (run_delta (snd (snd (snd sample_run)))) (mem_view (fst sample_run)) = mem_view sample_world"
proof -
  have e: "exact (run_delta (snd (snd (snd sample_run))))"
    "length (changes (run_delta (snd (snd (snd sample_run))))) = 3" by code_simp+
  from apply_patch_exact [OF mem_fs_laws sample_run_eq e(1)] e(2) show ?thesis by simp
qed

section \<open>The summary\<close>

lemma write_lines_Ok: "write_lines out ls = (out', Ok ()) \<Longrightarrow> w_lines out' = w_lines out @ ls"
proof (induction ls arbitrary: out)
  case (Cons l ls)
  obtain out1 r where wl: "writeln out l = (out1, r)" by (cases "writeln out l")
  with Cons.prems have r: "r = Ok ()" and rest: "write_lines out1 ls = (out', Ok ())"
    by (auto split: sum.splits)
  from wl r have "w_lines out1 = w_lines out @ [l]"
    by (auto simp: writeln_def split: option.splits)
  with Cons.IH [OF rest] show ?case by simp
qed simp

text \<open>
  a run that succeeds writes to standard output exactly the summary of the parsed hunks: one
  line per added, then per modified (under its new name when moved), then per deleted file, each in
  the order of the patch; nothing goes to standard error.
\<close>

theorem apply_patch_summary:
  assumes "apply_patch_with_mode fs po patch md cwd w out err = (w', out', err', Ok d)"
    "parse_patch patch = Ok a"
  shows "w_lines out' = w_lines out @
      [str ''Success. Updated the following files:''] @
      map ((@) (str ''A '')) [p. AddFile p c \<leftarrow> args_hunks a] @
      map ((@) (str ''M '')) [hunk_path (UpdateFile p m cs). UpdateFile p m cs \<leftarrow> args_hunks a] @
      map ((@) (str ''D '')) [p. DeleteFile p \<leftarrow> args_hunks a] \<and> err' = err"
proof -
  obtain w1 d1 r1 where run: "apply_hunks_to_files fs po md cwd w empty_delta (args_hunks a) = (w1, d1, r1)"
    by (cases "apply_hunks_to_files fs po md cwd w empty_delta (args_hunks a)")
  with assms obtain af where af: "r1 = Ok af" "print_summary af out = (out', Ok ())" "err' = err"
    by (auto simp: apply_patch_with_mode_def apply_hunks_with_mode_def split: prod.splits sum.splits)
  with run have "af = foldl note_affected no_affected (args_hunks a)"
    by (auto simp: apply_hunks_to_files_def split: if_splits dest: apply_hunk_list_affected)
  with af write_lines_Ok [of out _ out'] show ?thesis
    by (simp add: print_summary_def note_affected_lists no_affected_def)
qed

theorem apply_patch_summary_witness:
  "w_lines (fst (snd sample_run)) =
     [str ''Success. Updated the following files:'', str ''A a.txt'', str ''M src/c.txt'', str ''D d.txt'']"
proof -
  obtain d where d: "snd (snd (snd sample_run)) = Ok d"
  proof -
    have "is_ok (snd (snd (snd sample_run)))" by code_simp
    then show ?thesis using that by (cases "snd (snd (snd sample_run))") auto
  qed
  obtain a where a: "parse_patch sample_patch = Ok a"
  proof -
    have "is_ok (parse_patch sample_patch)" by code_simp
    then show ?thesis using that by (cases "parse_patch sample_patch") auto
  qed
  have hs: "args_hunks (projr (parse_patch sample_patch)) = sample_hunks" by code_simp
  have "w_lines quiet = []" by (simp add: quiet_def)
  with apply_patch_summary [OF sample_run_eq [unfolded d] a] a hs show ?thesis
    by (simp add: sample_hunks_def str_def)
qed

section \<open>Moving a file to its own path\<close>


definition self_move_hunk :: hunk where
  "self_move_hunk =
     UpdateFile (str ''d.txt'') (Some (str ''d.txt''))
       [default_chunk\<lparr>old_lines := [str ''bye''], new_lines := [str ''hello'']\<rparr>]"


end
