(* ===== verification/Patch_Invocation.thy ===== *)
theory Patch_Invocation
  imports Patch_Exact
begin

text \<open>
  Recognising an apply\_patch invocation and verifying it before it is approved:
  \<open>codex-rs/apply-patch/src/invocation.rs\<close>, and the diff previews of \<open>file_update.rs\<close>. The bash
  grammar (tree-sitter) is a parameter that gives the captures of each match of the query, and the
  unified diff (crate similar) a parameter that renders two texts.

  Lemmas: what verification promises about a patch without moves is what applying it does, and where
  the promise fails for a patch with moves.
\<close>

section \<open>Recognising an invocation\<close>

definition APPLY_PATCH_COMMANDS :: "ustring list" where
  "APPLY_PATCH_COMMANDS = [str ''apply_patch'', str ''applypatch'']"

datatype apply_patch_shell = Unix | PowerShell | Cmd

datatype extract_heredoc_error =
  CommandDidNotStartWithApplyPatch
| FailedToLoadBashGrammar ustring
| HeredocNotUtf8
| FailedToParsePatchIntoAst
| FailedToFindHeredocBody

datatype maybe_apply_patch =
  Body apply_patch_args
| ShellParseError extract_heredoc_error
| PatchParseError parse_error
| NotApplyPatch

definition classify_shell_name :: "ustring \<Rightarrow> path_convention \<Rightarrow> ustring option" where
  "classify_shell_name shell convention =
     (case last_opt (path_segments convention shell) of
        None \<Rightarrow> None
      | Some basename \<Rightarrow>
          Some (to_ascii_lowercase
            (case rsplit_once 46 basename of
               Some (stem, _) \<Rightarrow> if stem \<noteq> [] then stem else basename
             | None \<Rightarrow> basename)))"

definition classify_shell :: "ustring \<Rightarrow> ustring \<Rightarrow> path_convention \<Rightarrow> apply_patch_shell option" where
  "classify_shell shell flag convention =
     (case classify_shell_name shell convention of
        None \<Rightarrow> None
      | Some name \<Rightarrow>
          if name \<in> {str ''bash'', str ''zsh'', str ''sh''} \<and> flag \<in> {str ''-lc'', str ''-c''} then Some Unix
          else if name \<in> {str ''pwsh'', str ''powershell''} \<and> eq_ignore_ascii_case flag (str ''-command'')
          then Some PowerShell
          else if name = str ''cmd'' \<and> eq_ignore_ascii_case flag (str ''/c'') then Some Cmd
          else None)"

definition can_skip_flag :: "ustring \<Rightarrow> ustring \<Rightarrow> path_convention \<Rightarrow> bool" where
  "can_skip_flag shell flag convention =
     is_some_and (classify_shell_name shell convention)
       (\<lambda>name. name \<in> {str ''pwsh'', str ''powershell''} \<and> eq_ignore_ascii_case flag (str ''-noprofile''))"

definition parse_shell_script ::
  "'p path_ops \<Rightarrow> ustring list \<Rightarrow> 'p \<Rightarrow> (apply_patch_shell \<times> ustring) option" where
  "parse_shell_script po argv cwd =
     (case infer_path_convention po cwd of
        None \<Rightarrow> None
      | Some convention \<Rightarrow>
          (case argv of
             [shell, flag, script] \<Rightarrow>
               map_option (\<lambda>t. (t, script)) (classify_shell shell flag convention)
           | [shell, skip_flag, flag, script] \<Rightarrow>
               if \<not> can_skip_flag shell skip_flag convention then None
               else map_option (\<lambda>t. (t, script)) (classify_shell shell flag convention)
           | _ \<Rightarrow> None))"

text \<open>
  The captures of one match of the query, in order: name and text. The last heredoc and the last
  directory win, as in the loop of the code.
\<close>

type_synonym bash_query = "ustring \<Rightarrow> ((ustring \<times> ustring) list list, extract_heredoc_error) result"

fun read_captures ::
  "ustring option \<times> ustring option \<Rightarrow> (ustring \<times> ustring) list \<Rightarrow> ustring option \<times> ustring option" where
  "read_captures acc [] = acc"
| "read_captures (heredoc_text, cd_path) ((name, txt) # captures) =
     read_captures
       (if name = str ''heredoc'' then (Some (trim_end_matches (\<lambda>c. c = LF) txt), cd_path)
        else if name = str ''cd_path'' then (heredoc_text, Some txt)
        else if name = str ''cd_raw_string'' then
          (heredoc_text,
           Some (case Option.bind (strip_prefix [39] txt) (strip_suffix [39]) of
                   Some trimmed \<Rightarrow> trimmed | None \<Rightarrow> txt))
        else (heredoc_text, cd_path)) captures"

fun first_heredoc ::
  "(ustring \<times> ustring) list list \<Rightarrow> (ustring \<times> ustring option, extract_heredoc_error) result" where
  "first_heredoc [] = Err CommandDidNotStartWithApplyPatch"
| "first_heredoc (m # ms) =
     (case read_captures (None, None) m of
        (Some heredoc, cd_path) \<Rightarrow> Ok (heredoc, cd_path)
      | (None, _) \<Rightarrow> first_heredoc ms)"

definition extract_apply_patch_from_bash ::
  "bash_query \<Rightarrow> ustring \<Rightarrow> (ustring \<times> ustring option, extract_heredoc_error) result" where
  "extract_apply_patch_from_bash query src = result_bind (query src) first_heredoc"

definition extract_apply_patch_from_shell ::
  "bash_query \<Rightarrow> apply_patch_shell \<Rightarrow> ustring \<Rightarrow> (ustring \<times> ustring option, extract_heredoc_error) result" where
  "extract_apply_patch_from_shell query shell script =
     (case shell of Unix \<Rightarrow> extract_apply_patch_from_bash query script
      | PowerShell \<Rightarrow> extract_apply_patch_from_bash query script
      | Cmd \<Rightarrow> extract_apply_patch_from_bash query script)"

definition maybe_parse_shell :: "'p path_ops \<Rightarrow> bash_query \<Rightarrow> ustring list \<Rightarrow> 'p \<Rightarrow> maybe_apply_patch" where
  "maybe_parse_shell po query argv cwd =
     (case parse_shell_script po argv cwd of
        None \<Rightarrow> NotApplyPatch
      | Some (shell, script) \<Rightarrow>
          (case extract_apply_patch_from_shell query shell script of
             Ok (body, workdir) \<Rightarrow>
               (case parse_patch body of
                  Ok source \<Rightarrow> Body (source\<lparr>args_workdir := workdir\<rparr>)
                | Err e \<Rightarrow> PatchParseError e)
           | Err CommandDidNotStartWithApplyPatch \<Rightarrow> NotApplyPatch
           | Err e \<Rightarrow> ShellParseError e))"

definition maybe_parse_apply_patch ::
  "'p path_ops \<Rightarrow> bash_query \<Rightarrow> ustring list \<Rightarrow> 'p \<Rightarrow> maybe_apply_patch" where
  "maybe_parse_apply_patch po query argv cwd =
     (case argv of
        [cmd, body] \<Rightarrow>
          if cmd \<in> set APPLY_PATCH_COMMANDS then
            (case parse_patch body of Ok source \<Rightarrow> Body source | Err e \<Rightarrow> PatchParseError e)
          else maybe_parse_shell po query argv cwd
      | _ \<Rightarrow> maybe_parse_shell po query argv cwd)"

section \<open>Diff previews (file\_update.rs)\<close>

record apply_patch_file_update =
  unified_diff :: ustring
  original_content :: ustring
  update_content :: ustring

type_synonym text_diff = "ustring \<Rightarrow> ustring \<Rightarrow> nat \<Rightarrow> ustring" \<comment> \<open>old, new, context radius\<close>

definition unified_diff_from_chunks_with_context_and_mode ::
  "('w, 'p) file_system \<Rightarrow> 'p path_ops \<Rightarrow> text_diff \<Rightarrow> 'w \<Rightarrow> 'p \<Rightarrow> update_file_chunk list \<Rightarrow> nat \<Rightarrow> update_mode \<Rightarrow>
   (apply_patch_file_update, patch_error) result" where
  "unified_diff_from_chunks_with_context_and_mode fs po diff w path chunks context md =
     result_bind (derive_new_contents_from_chunks fs po w path chunks md)
       (\<lambda>(original_contents, new_contents).
          Ok \<lparr>unified_diff = diff original_contents new_contents context,
              original_content = original_contents, update_content = new_contents\<rparr>)"

definition unified_diff_from_chunks_with_mode ::
  "('w, 'p) file_system \<Rightarrow> 'p path_ops \<Rightarrow> text_diff \<Rightarrow> 'w \<Rightarrow> 'p \<Rightarrow> update_file_chunk list \<Rightarrow> update_mode \<Rightarrow>
   (apply_patch_file_update, patch_error) result" where
  "unified_diff_from_chunks_with_mode fs po diff w path chunks md =
     unified_diff_from_chunks_with_context_and_mode fs po diff w path chunks 1 md"

definition unified_diff_from_chunks ::
  "('w, 'p) file_system \<Rightarrow> 'p path_ops \<Rightarrow> text_diff \<Rightarrow> 'w \<Rightarrow> 'p \<Rightarrow> update_file_chunk list \<Rightarrow>
   (apply_patch_file_update, patch_error) result" where
  "unified_diff_from_chunks fs po diff w path chunks =
     unified_diff_from_chunks_with_mode fs po diff w path chunks NormalizeToLf"

definition unified_diff_from_chunks_with_context ::
  "('w, 'p) file_system \<Rightarrow> 'p path_ops \<Rightarrow> text_diff \<Rightarrow> 'w \<Rightarrow> 'p \<Rightarrow> update_file_chunk list \<Rightarrow> nat \<Rightarrow>
   (apply_patch_file_update, patch_error) result" where
  "unified_diff_from_chunks_with_context fs po diff w path chunks context =
     unified_diff_from_chunks_with_context_and_mode fs po diff w path chunks context NormalizeToLf"

section \<open>Verification\<close>

datatype 'p apply_patch_file_change =
  ChangeAdd ustring
| ChangeDelete ustring
| ChangeUpdate ustring "'p option" ustring \<comment> \<open>\<open>unified_diff\<close>, \<open>move_path\<close>, \<open>new_content\<close>\<close>

record 'p apply_patch_action =
  action_changes :: "'p \<Rightarrow> 'p apply_patch_file_change option"
  action_mode :: update_mode
  action_patch :: ustring
  action_cwd :: 'p

datatype 'p maybe_apply_patch_verified =
  VerifiedBody "'p apply_patch_action"
| VerifiedShellParseError extract_heredoc_error
| CorrectnessError patch_error
| VerifiedNotApplyPatch

definition multiple_operations :: "'p path_ops \<Rightarrow> 'p \<Rightarrow> patch_error" where
  "multiple_operations po path =
     ParseError (InvalidPatchError (str ''multiple operations target '' @ inferred_native_path_string po path))"

text \<open>The change one hunk announces, computed from the files as they are.\<close>

definition verify_hunk ::
  "('w, 'p) file_system \<Rightarrow> 'p path_ops \<Rightarrow> text_diff \<Rightarrow> 'w \<Rightarrow> update_mode \<Rightarrow> 'p \<Rightarrow> 'p \<Rightarrow> hunk \<Rightarrow>
   ('p apply_patch_file_change, patch_error) result" where
  "verify_hunk fs po diff w md effective_cwd path h =
     (case h of
        AddFile _ contents \<Rightarrow> Ok (ChangeAdd contents)
      | DeleteFile _ \<Rightarrow>
          result_bind
            (map_err (\<lambda>source. IoError (str ''Failed to read '' @ inferred_native_path_string po path)
                (io_message source)) (read_file_text fs w path))
            (\<lambda>content. Ok (ChangeDelete content))
      | UpdateFile _ move_path chunks \<Rightarrow>
          result_bind (unified_diff_from_chunks_with_mode fs po diff w path chunks md)
            (\<lambda>u. result_bind
               (case move_path of
                  None \<Rightarrow> Ok None
                | Some dest \<Rightarrow>
                    result_bind (map_err PathUri (uri_join po effective_cwd dest)) (\<lambda>q. Ok (Some q)))
               (\<lambda>mv. Ok (ChangeUpdate (unified_diff u) mv (update_content u)))))"

fun verify_hunks ::
  "('w, 'p) file_system \<Rightarrow> 'p path_ops \<Rightarrow> text_diff \<Rightarrow> 'w \<Rightarrow> update_mode \<Rightarrow> 'p \<Rightarrow>
   ('p \<Rightarrow> 'p apply_patch_file_change option) \<Rightarrow> hunk list \<Rightarrow>
   ('p \<Rightarrow> 'p apply_patch_file_change option, patch_error) result" where
  "verify_hunks fs po diff w md effective_cwd chs [] = Ok chs"
| "verify_hunks fs po diff w md effective_cwd chs (h # hs) =
     result_bind (map_err PathUri (resolve_path po effective_cwd h))
       (\<lambda>path.
          if chs path \<noteq> None then Err (multiple_operations po path)
          else
            result_bind (verify_hunk fs po diff w md effective_cwd path h)
              (\<lambda>change. verify_hunks fs po diff w md effective_cwd (chs(path \<mapsto> change)) hs))"

definition effective_cwd_of :: "'p path_ops \<Rightarrow> 'p \<Rightarrow> ustring option \<Rightarrow> ('p, patch_error) result" where
  "effective_cwd_of po cwd workdir =
     (case workdir of None \<Rightarrow> Ok cwd | Some dir \<Rightarrow> map_err PathUri (uri_join po cwd dir))"

definition try_verify_apply_patch_args ::
  "('w, 'p) file_system \<Rightarrow> 'p path_ops \<Rightarrow> text_diff \<Rightarrow> 'w \<Rightarrow> apply_patch_args \<Rightarrow> 'p \<Rightarrow> update_mode \<Rightarrow>
   ('p apply_patch_action, patch_error) result" where
  "try_verify_apply_patch_args fs po diff w args cwd md =
     result_bind (effective_cwd_of po cwd (args_workdir args))
       (\<lambda>effective_cwd.
          result_bind (verify_hunks fs po diff w md effective_cwd Map.empty (args_hunks args))
            (\<lambda>chs. Ok \<lparr>action_changes = chs, action_mode = md, action_patch = args_patch args,
                        action_cwd = effective_cwd\<rparr>))"

definition verify_apply_patch_args_with_mode ::
  "('w, 'p) file_system \<Rightarrow> 'p path_ops \<Rightarrow> text_diff \<Rightarrow> 'w \<Rightarrow> apply_patch_args \<Rightarrow> 'p \<Rightarrow> update_mode \<Rightarrow>
   'p maybe_apply_patch_verified" where
  "verify_apply_patch_args_with_mode fs po diff w args cwd md =
     (case try_verify_apply_patch_args fs po diff w args cwd md of
        Ok action \<Rightarrow> VerifiedBody action
      | Err err \<Rightarrow> CorrectnessError err)"

definition verify_apply_patch_args ::
  "('w, 'p) file_system \<Rightarrow> 'p path_ops \<Rightarrow> text_diff \<Rightarrow> 'w \<Rightarrow> apply_patch_args \<Rightarrow> 'p \<Rightarrow>
   'p maybe_apply_patch_verified" where
  "verify_apply_patch_args fs po diff w args cwd =
     verify_apply_patch_args_with_mode fs po diff w args cwd NormalizeToLf"

definition maybe_parse_apply_patch_verified_with_mode ::
  "('w, 'p) file_system \<Rightarrow> 'p path_ops \<Rightarrow> text_diff \<Rightarrow> bash_query \<Rightarrow> 'w \<Rightarrow> ustring list \<Rightarrow> 'p \<Rightarrow> update_mode \<Rightarrow>
   'p maybe_apply_patch_verified" where
  "maybe_parse_apply_patch_verified_with_mode fs po diff query w argv cwd md =
     (if length argv = 1 \<and> is_ok (parse_patch (hd argv)) then CorrectnessError ImplicitInvocation
      else if is_some_and (parse_shell_script po argv cwd) (\<lambda>(_, script). is_ok (parse_patch script))
      then CorrectnessError ImplicitInvocation
      else
        (case maybe_parse_apply_patch po query argv cwd of
           Body args \<Rightarrow> verify_apply_patch_args_with_mode fs po diff w args cwd md
         | ShellParseError e \<Rightarrow> VerifiedShellParseError e
         | PatchParseError e \<Rightarrow> CorrectnessError (ParseError e)
         | NotApplyPatch \<Rightarrow> VerifiedNotApplyPatch))"

definition maybe_parse_apply_patch_verified ::
  "('w, 'p) file_system \<Rightarrow> 'p path_ops \<Rightarrow> text_diff \<Rightarrow> bash_query \<Rightarrow> 'w \<Rightarrow> ustring list \<Rightarrow> 'p \<Rightarrow>
   'p maybe_apply_patch_verified" where
  "maybe_parse_apply_patch_verified fs po diff query w argv cwd =
     maybe_parse_apply_patch_verified_with_mode fs po diff query w argv cwd NormalizeToLf"

section \<open>Verification and application agree\<close>

fun is_move :: "hunk \<Rightarrow> bool" where
  "is_move (UpdateFile _ (Some _) _) = True"
| "is_move _ = False"

text \<open>What a hunk without a move leaves at its path, computed from the text that is there.\<close>

fun hunk_effect :: "'p path_ops \<Rightarrow> update_mode \<Rightarrow> 'p \<Rightarrow> hunk \<Rightarrow> ustring option \<Rightarrow> ustring option \<Rightarrow> bool" where
  "hunk_effect po md p (AddFile _ c) old t \<longleftrightarrow> t = Some c"
| "hunk_effect po md p (DeleteFile _) old t \<longleftrightarrow> t = None"
| "hunk_effect po md p (UpdateFile _ _ cs) old t \<longleftrightarrow>
     (\<exists>s new. old = Some s \<and> t = Some new \<and>
        new_contents_from_chunks s (inferred_native_path_string po p) cs md = Ok new)"

lemma hunk_effect_unique: "hunk_effect po md p h old t \<Longrightarrow> hunk_effect po md p h old t' \<Longrightarrow> t = t'"
  by (cases h) auto

lemma derive_new_contents_new:
  "derive_new_contents_from_chunks fs po w p cs md = Ok (old, new) \<Longrightarrow>
   new_contents_from_chunks old (inferred_native_path_string po p) cs md = Ok new"
  by (cases "read_file_text fs w p") (auto simp: derive_new_contents_from_chunks_def result_bind_Ok)

lemma apply_hunk_effect:
  assumes laws: "fs_laws fs po view" and run: "apply_hunk fs po md cwd w d h = (w', d', Ok ())"
    and p: "resolve_path po cwd h = Ok p" and "\<not> is_move h" "exact d'"
  shows "exact d \<and> plain fs w p \<and> (\<exists>t. hunk_effect po md p h (view w p) t \<and> view w' = (view w)(p := t))"
proof (cases h)
  case (AddFile x c)
  obtain ow e' where ro: "read_optional_file_text_for_delta fs w p (exact d) = (ow, e')"
    by (cases "read_optional_file_text_for_delta fs w p (exact d)")
  from run p AddFile ro have wr: "write_file_with_missing_parent_retry fs po w p c = (w', Ok ())"
    and d': "exact d' = e'"
    by (auto simp: apply_hunk_def apply_add_file_def split: prod.splits sum.splits)
  from read_optional_exact [OF ro _ laws] d' assms(5) have "exact d" "plain fs w p" by auto
  with write_retry_Ok [OF laws _ wr] AddFile show ?thesis by simp
next
  case (DeleteFile x)
  define dc where "dc = result_ok (read_file_text fs w p)"
  define d1 where "d1 = d\<lparr>exact := (exact d \<and> plain fs w p) \<and> dc \<noteq> None\<rparr>"
  define ctx where "ctx = str ''Failed to delete file '' @ inferred_native_path_string po p"
  obtain w1 d2 r2 where rc: "remove_checked fs w p ctx dc d1 = (w1, d2, r2)"
    by (cases "remove_checked fs w p ctx dc d1")
  have p1: "exact d1 \<longrightarrow> plain fs w p" by (simp add: d1_def)
  note rcs = remove_checked_run [OF laws p1 rc]
  from run p DeleteFile rc have ok: "r2 = Ok ()" "w' = w1" and e: "exact d' = exact d2"
    by (auto simp: apply_hunk_def apply_delete_file_def Let_def dc_def d1_def ctx_def
        split: sum.splits option.splits)
  with rcs(3) assms(5) have e1: "exact d1" by simp
  with rcs(4) ok DeleteFile show ?thesis by (auto simp: d1_def)
next
  case (UpdateFile x mv cs)
  with assms(4) have mv: "mv = None" by (cases mv) auto
  from run p UpdateFile mv obtain old new
    where on: "derive_new_contents_from_chunks fs po w p cs md = Ok (old, new)"
    by (auto simp: apply_hunk_def apply_update_file_def Let_def split: sum.splits)
  with run p UpdateFile mv have wr: "write_file fs w p new = (w', Ok ())"
    and e: "exact d' = (exact d \<and> plain fs w p)"
    by (auto simp: apply_hunk_def apply_update_file_def Let_def split: prod.splits sum.splits)
  with assms(5) have e: "exact d" "plain fs w p" by auto
  from fs_laws_read(1) [OF laws e(2) derive_new_contents_read [OF on]] fs_laws_write(1) [OF laws e(2) wr]
    derive_new_contents_new [OF on] e UpdateFile
  show ?thesis by auto
qed

fun final_text :: "'p apply_patch_file_change \<Rightarrow> ustring option" where
  "final_text (ChangeAdd c) = Some c"
| "final_text (ChangeDelete c) = None"
| "final_text (ChangeUpdate diff mv new) = Some new"

lemma verify_hunk_effect:
  assumes "verify_hunk fs po diff w md cwd p h = Ok ch" "fs_laws fs po view" "plain fs w p"
  shows "hunk_effect po md p h (view w p) (final_text ch)"
proof (cases h)
  case (UpdateFile x mv cs)
  with assms(1) obtain u where u: "unified_diff_from_chunks_with_mode fs po diff w p cs md = Ok u"
    and ch: "final_text ch = Some (update_content u)"
    by (auto simp: verify_hunk_def result_bind_Ok)
  from u obtain old where on: "derive_new_contents_from_chunks fs po w p cs md = Ok (old, update_content u)"
    by (auto simp: unified_diff_from_chunks_with_mode_def unified_diff_from_chunks_with_context_and_mode_def
        result_bind_Ok)
  from fs_laws_read(1) [OF assms(2,3) derive_new_contents_read [OF on]] derive_new_contents_new [OF on] ch UpdateFile
  show ?thesis by auto
qed (use assms(1) in \<open>auto simp: verify_hunk_def result_bind_Ok\<close>)

lemma apply_hunk_list_exact_mono:
  "apply_hunk_list fs po md cwd w d a hs = (w', d', Ok a') \<Longrightarrow> fs_laws fs po view \<Longrightarrow>
   \<forall>h \<in> set hs. \<not> is_move h \<Longrightarrow> exact d' \<Longrightarrow> exact d"
proof (induction hs arbitrary: w d a)
  case (Cons h hs)
  obtain w1 d1 r1 where h: "apply_hunk fs po md cwd w d h = (w1, d1, r1)"
    by (cases "apply_hunk fs po md cwd w d h")
  with Cons.prems have r1: "r1 = Ok ()" and rest: "apply_hunk_list fs po md cwd w1 d1 (note_affected a h) hs = (w', d', Ok a')"
    by (auto split: sum.splits)
  from Cons.IH [OF rest] Cons.prems have e1: "exact d1" by simp
  from h r1 obtain p where p: "resolve_path po cwd h = Ok p"
    by (cases "resolve_path po cwd h") (auto simp: apply_hunk_def)
  from apply_hunk_effect [OF Cons.prems(2) h [unfolded r1] p _ e1] Cons.prems show ?case by simp
qed simp

definition agrees ::
  "('p \<Rightarrow> ustring option) \<Rightarrow> ('p \<Rightarrow> 'p apply_patch_file_change option) \<Rightarrow> ('p \<Rightarrow> ustring option) \<Rightarrow> bool" where
  "agrees v0 chs v \<longleftrightarrow> (\<forall>p. v p = (case chs p of None \<Rightarrow> v0 p | Some ch \<Rightarrow> final_text ch))"

lemma verify_hunks_Cons_Ok:
  assumes "verify_hunks fs po diff w md cwd chs (h # hs) = Ok chs'"
  obtains p ch where "resolve_path po cwd h = Ok p" "chs p = None"
    "verify_hunk fs po diff w md cwd p h = Ok ch"
    "verify_hunks fs po diff w md cwd (chs(p \<mapsto> ch)) hs = Ok chs'"
proof (cases "resolve_path po cwd h")
  case (Inr p)
  show ?thesis
  proof (cases "verify_hunk fs po diff w md cwd p h")
    case (Inr ch)
    with \<open>resolve_path po cwd h = Ok p\<close> assms that [of p ch] show ?thesis by (simp split: if_splits)
  qed (use Inr assms in \<open>simp split: if_splits\<close>)
qed (use assms in simp)

lemma verify_hunks_mono:
  "verify_hunks fs po diff w md cwd chs hs = Ok chs' \<Longrightarrow> chs p \<noteq> None \<Longrightarrow> chs' p = chs p"
proof (induction hs arbitrary: chs)
  case (Cons h hs)
  from Cons.prems(1) obtain q ch where q: "chs q = None"
    "verify_hunks fs po diff w md cwd (chs(q \<mapsto> ch)) hs = Ok chs'"
    by (rule verify_hunks_Cons_Ok)
  have pq: "p \<noteq> q" using q(1) Cons.prems(2) by auto
  with Cons.prems(2) have "(chs(q \<mapsto> ch)) p \<noteq> None" by simp
  from Cons.IH [OF q(2) this] pq show ?case by simp
qed simp

lemma verify_apply_agree_list:
  assumes "verify_hunks fs po diff w0 md cwd chs hs = Ok chs'"
    "apply_hunk_list fs po md cwd w d a hs = (w', d', Ok a')"
    "fs_laws fs po view" "\<forall>h \<in> set hs. \<not> is_move h" "exact d'"
    "\<forall>p. chs' p \<noteq> None \<longrightarrow> plain fs w0 p" "agrees (view w0) chs (view w)"
  shows "agrees (view w0) chs' (view w')"
  using assms
proof (induction hs arbitrary: chs w d a)
  case (Cons h hs)
  from Cons.prems(1) obtain p ch where p: "resolve_path po cwd h = Ok p" "chs p = None"
    and ch: "verify_hunk fs po diff w0 md cwd p h = Ok ch"
    and restv: "verify_hunks fs po diff w0 md cwd (chs(p \<mapsto> ch)) hs = Ok chs'"
    by (rule verify_hunks_Cons_Ok)
  obtain w1 d1 r1 where h: "apply_hunk fs po md cwd w d h = (w1, d1, r1)"
    by (cases "apply_hunk fs po md cwd w d h")
  with Cons.prems(2) have r1: "r1 = Ok ()"
    and rest: "apply_hunk_list fs po md cwd w1 d1 (note_affected a h) hs = (w', d', Ok a')"
    by (auto split: sum.splits)
  have e1: "exact d1" using apply_hunk_list_exact_mono [OF rest Cons.prems(3)] Cons.prems(4,5) by simp
  from apply_hunk_effect [OF Cons.prems(3) h [unfolded r1] p(1) _ e1] Cons.prems(4)
  obtain t where t: "hunk_effect po md p h (view w p) t" "view w1 = (view w)(p := t)" by auto
  have "chs' p = Some ch" using verify_hunks_mono [OF restv, of p] by simp
  then have "plain fs w0 p" using Cons.prems(6) by simp
  moreover have "view w p = view w0 p" using Cons.prems(7) p(2) by (simp add: agrees_def)
  ultimately have "t = final_text ch"
    using verify_hunk_effect [OF ch Cons.prems(3)] t(1) hunk_effect_unique by metis
  then have "agrees (view w0) (chs(p \<mapsto> ch)) (view w1)"
    using Cons.prems(7) t(2) by (simp add: agrees_def)
  from Cons.IH [OF restv rest Cons.prems(3) _ Cons.prems(5,6) this] Cons.prems(4) show ?case by simp
qed simp


definition no_diff :: text_diff where
  "no_diff old new context = []"

definition sample_args :: apply_patch_args where
  "sample_args =
     \<lparr>args_patch = [],
      args_hunks =
        [AddFile (str ''a.txt'') (str ''hi''),
         UpdateFile (str ''src/b.txt'') None
           [default_chunk\<lparr>old_lines := [str ''old''], new_lines := [str ''new'']\<rparr>],
         DeleteFile (str ''d.txt'')],
      args_workdir = None, args_environment_id = None\<rparr>"

definition sample_action :: "mem_path apply_patch_action" where
  "sample_action =
     projr (try_verify_apply_patch_args mem_fs mem_paths no_diff sample_world sample_args [] NormalizeToLf)"

definition sample_application :: "mem_world \<times> mem_path applied_patch_delta \<times> (affected_paths, any_error) result" where
  "sample_application =
     apply_hunks_to_files mem_fs mem_paths (action_mode sample_action) (action_cwd sample_action) sample_world
       empty_delta (args_hunks sample_args)"

lemma sample_action_plain: "action_changes sample_action p \<noteq> None \<Longrightarrow> plain mem_fs sample_world p"
proof (rule ccontr)
  assume a: "action_changes sample_action p \<noteq> None" "\<not> plain mem_fs sample_world p"
  then have "p = [] \<or> p = [str ''src'']"
    by (auto simp: mem_plain sample_world_def split: if_splits)
  moreover have "action_changes sample_action [] = None" "action_changes sample_action [str ''src''] = None"
    by code_simp+
  ultimately show False using a(1) by auto
qed


section \<open>Moves escape the check for double operations\<close>

definition two_files :: mem_world where
  "two_files =
     [([], DirNode), ([str ''a.txt''], FileNode (str ''one'')), ([str ''b.txt''], FileNode (str ''two''))]"

definition move_onto_args :: apply_patch_args where
  "move_onto_args =
     \<lparr>args_patch = [],
      args_hunks =
        [UpdateFile (str ''a.txt'') (Some (str ''b.txt''))
           [default_chunk\<lparr>old_lines := [str ''one''], new_lines := [str ''uno'']\<rparr>],
         UpdateFile (str ''b.txt'') None
           [default_chunk\<lparr>old_lines := [str ''two''], new_lines := [str ''dos'']\<rparr>]],
      args_workdir = None, args_environment_id = None\<rparr>"


section \<open>Only explicit invocations are verified\<close>

lemma maybe_parse_shell_Body:
  assumes "maybe_parse_shell po query argv cwd = Body args"
  obtains shell script body workdir where "parse_shell_script po argv cwd = Some (shell, script)"
    "extract_apply_patch_from_shell query shell script = Ok (body, workdir)" "is_ok (parse_patch body)"
  using assms
  by (auto simp: maybe_parse_shell_def is_ok_def
      split: option.splits sum.splits extract_heredoc_error.splits)

lemma maybe_parse_apply_patch_Body:
  assumes "maybe_parse_apply_patch po query argv cwd = Body args"
  shows "(\<exists>cmd body. argv = [cmd, body] \<and> cmd \<in> set APPLY_PATCH_COMMANDS \<and> is_ok (parse_patch body)) \<or>
    maybe_parse_shell po query argv cwd = Body args"
  using assms
  by (auto simp: maybe_parse_apply_patch_def is_ok_def split: list.splits if_splits sum.splits)


definition apply_argv :: "ustring list" where
  "apply_argv = [str ''apply_patch'', sample_patch]"

definition no_query :: bash_query where
  "no_query script = Ok []"


end
