(* ===== verification/Abs_Path.thy ===== *)
theory Abs_Path
  imports File_System
begin

text \<open>
  Absolute paths, \<open>codex-rs/utils/absolute-path/src/lib.rs\<close> and \<open>absolutize.rs\<close>, on a Unix host
  (the branches for \<open>cfg(not(windows))\<close>). A \<open>Path\<close> is modelled by its components, which is what
  Rust compares; \<open>path_components\<close> is \<open>Path::components\<close> on the text of a path and \<open>render_path\<close> the
  text of one. The working directory and the home directory of the process are a record.

  Lemmas: every \<open>AbsolutePathBuf\<close> that the constructors return is absolute and normalised, and is
  read back from its own text; its ancestors are absolute.
\<close>

section \<open>Paths of the standard library\<close>

datatype path_component = RootDir | CurDir | ParentDir | Normal ustring

type_synonym path = "path_component list"

definition component_of :: "ustring \<Rightarrow> path_component" where
  "component_of w = (if w = str ''.'' then CurDir else if w = str ''..'' then ParentDir else Normal w)"

text \<open>
  \<open>Path::components\<close>: repeated and trailing separators vanish, and so does \<open>.\<close> except at the start
  of a relative path.
\<close>

definition path_components :: "ustring \<Rightarrow> path" where
  "path_components s =
     (let segments = filter (\<lambda>w. w \<noteq> []) (split_char 47 s);
          inner = (\<lambda>ws. map component_of (filter (\<lambda>w. w \<noteq> str ''.'') ws))
      in if first_opt s = Some 47 then RootDir # inner segments
         else (case segments of [] \<Rightarrow> [] | w # ws \<Rightarrow> component_of w # inner ws))"

fun component_text :: "path_component \<Rightarrow> ustring" where
  "component_text RootDir = []"
| "component_text CurDir = str ''.''"
| "component_text ParentDir = str ''..''"
| "component_text (Normal w) = w"

definition render_path :: "path \<Rightarrow> ustring" where
  "render_path p = (if p = [RootDir] then [47] else join [47] (map component_text p))"

definition is_absolute :: "path \<Rightarrow> bool" where
  "is_absolute p \<longleftrightarrow> first_opt p = Some RootDir"

definition path_push :: "path \<Rightarrow> path_component \<Rightarrow> path" where
  "path_push p c = (if c = RootDir then [RootDir] else p @ [c])"

definition path_pop :: "path \<Rightarrow> path" where
  "path_pop p = (if p = [] \<or> last p = RootDir then p else butlast p)"

definition path_join :: "path \<Rightarrow> path \<Rightarrow> path" where
  "path_join base p =
     (if is_absolute p \<or> base = [] then p else base @ filter (\<lambda>c. c \<noteq> CurDir) p)"

definition path_parent :: "path \<Rightarrow> path option" where
  "path_parent p = (if p = [] \<or> last p = RootDir then None else Some (butlast p))"

definition path_file_name :: "path \<Rightarrow> ustring option" where
  "path_file_name p = (case last_opt p of Some (Normal w) \<Rightarrow> Some w | _ \<Rightarrow> None)"

function path_ancestors :: "path \<Rightarrow> path list" where
  "path_ancestors p = p # (case path_parent p of None \<Rightarrow> [] | Some q \<Rightarrow> path_ancestors q)"
  by auto
termination
  by (relation "measure length") (auto simp: path_parent_def split: if_splits)

declare path_ancestors.simps [simp del]

section \<open>Absolutizing (absolutize.rs)\<close>

definition normalize_step :: "path \<Rightarrow> path_component \<Rightarrow> path" where
  "normalize_step normalized component =
     (case component of
        CurDir \<Rightarrow> normalized
      | ParentDir \<Rightarrow> path_pop normalized
      | _ \<Rightarrow> path_push normalized component)"

definition normalize_path :: "path \<Rightarrow> path" where
  "normalize_path p =
     (let normalized = foldl normalize_step [] p in if normalized = [] then [CurDir] else normalized)"

definition path_with_base :: "path \<Rightarrow> path \<Rightarrow> path" where
  "path_with_base p base_path = (if is_absolute p then p else path_join base_path p)"

definition absolutize_from :: "path \<Rightarrow> path \<Rightarrow> path" where
  "absolutize_from p base_path = normalize_path (path_with_base p base_path)"

record host_env =
  current_dir :: "(path, io_error) result"
  home_dir :: "path option"

definition absolutize :: "host_env \<Rightarrow> path \<Rightarrow> (path, io_error) result" where
  "absolutize env p =
     (if is_absolute p then Ok (normalize_path p)
      else result_bind (current_dir env) (\<lambda>cwd. Ok (absolutize_from p cwd)))"

section \<open>Constructors of AbsolutePathBuf (lib.rs)\<close>

definition maybe_expand_home_directory :: "host_env \<Rightarrow> ustring \<Rightarrow> path" where
  "maybe_expand_home_directory env s =
     (case (strip_prefix [126] s, home_dir env) of
        (Some rest, Some home) \<Rightarrow>
          if rest = [] then home
          else (case strip_prefix [47] rest of
                  Some rest \<Rightarrow> path_join home (path_components (trim_start_matches (\<lambda>c. c = 47) rest))
                | None \<Rightarrow> path_components s)
      | _ \<Rightarrow> path_components s)"

definition resolve_path_against_base :: "host_env \<Rightarrow> ustring \<Rightarrow> path \<Rightarrow> path" where
  "resolve_path_against_base env s base_path = absolutize_from (maybe_expand_home_directory env s) base_path"

definition from_absolute_path :: "host_env \<Rightarrow> ustring \<Rightarrow> (path, io_error) result" where
  "from_absolute_path env s = absolutize env (maybe_expand_home_directory env s)"

definition from_absolute_path_checked :: "host_env \<Rightarrow> ustring \<Rightarrow> (path, io_error) result" where
  "from_absolute_path_checked env s =
     (let expanded = maybe_expand_home_directory env s
      in if \<not> is_absolute expanded then
           Err \<lparr>io_kind = InvalidInput, io_message = str ''path is not absolute: '' @ s\<rparr>
         else Ok (absolutize_from expanded [RootDir]))"

definition relative_to_current_dir :: "host_env \<Rightarrow> ustring \<Rightarrow> (path, io_error) result" where
  "relative_to_current_dir env s =
     result_bind (current_dir env) (\<lambda>cwd. Ok (resolve_path_against_base env s cwd))"

definition abs_join :: "host_env \<Rightarrow> path \<Rightarrow> ustring \<Rightarrow> path" where
  "abs_join env p s = resolve_path_against_base env s p"

text \<open>Deserialising: \<open>base\<close> is the base path of the guard that is held, if any.\<close>

definition deserialize_abs :: "host_env \<Rightarrow> path option \<Rightarrow> ustring \<Rightarrow> (path, ustring) result" where
  "deserialize_abs env base s =
     (case base of
        Some base \<Rightarrow> Ok (resolve_path_against_base env s base)
      | None \<Rightarrow>
          if is_absolute (path_components s) then map_err io_message (from_absolute_path env s)
          else Err (str ''AbsolutePathBuf deserialized without a base path''))"

section \<open>Canonical paths that keep symlinks\<close>

text \<open>
  \<open>symlink_at p\<close> says whether \<open>p\<close> is a symlink (\<open>None\<close> when its metadata cannot be read) and
  \<open>canonical\<close> is the canonicalisation of the operating system.
\<close>

definition should_preserve_logical_path :: "(path \<Rightarrow> bool option) \<Rightarrow> path \<Rightarrow> bool" where
  "should_preserve_logical_path symlink_at logical =
     list_ex (\<lambda>ancestor. symlink_at ancestor = Some True \<and> Option.bind (path_parent ancestor) path_parent \<noteq> None)
       (path_ancestors logical)"

definition canonicalize_preserving_symlinks ::
  "host_env \<Rightarrow> (path \<Rightarrow> bool option) \<Rightarrow> (ustring \<Rightarrow> (path, io_error) result) \<Rightarrow> ustring \<Rightarrow> (path, io_error) result" where
  "canonicalize_preserving_symlinks env symlink_at canonical s =
     result_bind (from_absolute_path env s)
       (\<lambda>logical.
          (case canonical s of
             Ok c \<Rightarrow> if should_preserve_logical_path symlink_at logical \<and> c \<noteq> logical then Ok logical else Ok c
           | Err _ \<Rightarrow> Ok logical))"

definition canonicalize_existing_preserving_symlinks ::
  "host_env \<Rightarrow> (path \<Rightarrow> bool option) \<Rightarrow> (ustring \<Rightarrow> (path, io_error) result) \<Rightarrow> ustring \<Rightarrow> (path, io_error) result" where
  "canonicalize_existing_preserving_symlinks env symlink_at canonical s =
     result_bind (from_absolute_path env s)
       (\<lambda>logical. result_bind (canonical s)
          (\<lambda>c. if should_preserve_logical_path symlink_at logical \<and> c \<noteq> logical then Ok logical else Ok c))"

section \<open>Windows device paths\<close>

abbreviation BS :: uchar where "BS \<equiv> 92"

definition is_windows_drive_absolute_path :: "ustring \<Rightarrow> bool" where
  "is_windows_drive_absolute_path p =
     (case p of
        a # b # c # _ \<Rightarrow> (65 \<le> a \<and> a \<le> 90 \<or> 97 \<le> a \<and> a \<le> 122) \<and> b = 58 \<and> (c = BS \<or> c = 47)
      | _ \<Rightarrow> False)"

definition normalize_windows_device_path :: "ustring \<Rightarrow> ustring option" where
  "normalize_windows_device_path p =
     (let question = [BS, BS] @ str ''?'' @ [BS]; dot = [BS, BS] @ str ''.'' @ [BS]; unc = str ''UNC'' @ [BS]
      in case strip_prefix (question @ unc) p of
           Some rest \<Rightarrow> Some ([BS, BS] @ rest)
         | None \<Rightarrow>
        (case strip_prefix (dot @ unc) p of
           Some rest \<Rightarrow> Some ([BS, BS] @ rest)
         | None \<Rightarrow>
         if is_some_and (strip_prefix question p) is_windows_drive_absolute_path then strip_prefix question p
         else if is_some_and (strip_prefix dot p) is_windows_drive_absolute_path then strip_prefix dot p
         else None))"

section \<open>The invariant of absolute paths\<close>

fun component_ok :: "path_component \<Rightarrow> bool" where
  "component_ok (Normal w) \<longleftrightarrow> w \<noteq> [] \<and> 47 \<notin> set w \<and> w \<noteq> str ''.'' \<and> w \<noteq> str ''..''"
| "component_ok _ \<longleftrightarrow> True"

fun normal_ok :: "path_component \<Rightarrow> bool" where
  "normal_ok (Normal w) \<longleftrightarrow> component_ok (Normal w)"
| "normal_ok _ \<longleftrightarrow> False"

definition wf_path :: "path \<Rightarrow> bool" where
  "wf_path p \<longleftrightarrow> list_all component_ok p \<and> RootDir \<notin> set (tl p)"

definition abs_path :: "path \<Rightarrow> bool" where
  "abs_path p = (case p of RootDir # cs \<Rightarrow> list_all normal_ok cs | _ \<Rightarrow> False)"

definition host_ok :: "host_env \<Rightarrow> bool" where
  "host_ok env \<longleftrightarrow>
     (case current_dir env of Ok cwd \<Rightarrow> is_absolute cwd \<and> wf_path cwd | Err _ \<Rightarrow> True) \<and>
     (case home_dir env of Some home \<Rightarrow> is_absolute home \<and> wf_path home | None \<Rightarrow> True)"

lemma segment_ok: "w \<in> set (split_char 47 s) \<Longrightarrow> w \<noteq> [] \<Longrightarrow> component_ok (component_of w)"
  using split_char_notin [of w 47 s] by (auto simp: component_of_def)

lemma component_of_not_root [simp]: "component_of w \<noteq> RootDir" "RootDir \<noteq> component_of w"
  by (simp_all add: component_of_def)

lemma wf_path_components: "wf_path (path_components s)"
proof -
  define ws where "ws = filter (\<lambda>w. w \<noteq> []) (split_char 47 s)"
  have "\<forall>w \<in> set ws. component_ok (component_of w)"
    using segment_ok by (auto simp: ws_def)
  then show ?thesis unfolding path_components_def ws_def [symmetric]
    by (cases ws) (auto simp: wf_path_def list_all_iff Let_def split: if_splits)
qed

lemma abs_path_is_absolute: "abs_path p \<Longrightarrow> is_absolute p"
  by (auto simp: abs_path_def is_absolute_def split: list.splits path_component.splits)

lemma abs_path_wf: "abs_path p \<Longrightarrow> wf_path p"
proof -
  have "normal_ok c \<Longrightarrow> component_ok c \<and> c \<noteq> RootDir" for c by (cases c) auto
  then show "abs_path p \<Longrightarrow> wf_path p"
    by (auto simp: abs_path_def wf_path_def list_all_iff split: list.splits path_component.splits)
qed

lemma abs_path_snoc: "normal_ok c \<Longrightarrow> abs_path (p @ [c]) \<longleftrightarrow> abs_path p"
  by (cases p; cases c) (auto simp: abs_path_def split: path_component.splits)

lemma abs_path_butlast:
  assumes "abs_path p" "last p \<noteq> RootDir"
  shows "abs_path (butlast p)"
proof (cases p rule: rev_cases)
  case (snoc q c)
  with assms show ?thesis
    by (cases q) (auto simp: abs_path_def split: path_component.splits list.splits)
qed (use assms in \<open>simp add: abs_path_def\<close>)

lemma normalize_step_abs:
  assumes "abs_path p" "component_ok c" "c \<noteq> RootDir"
  shows "abs_path (normalize_step p c)"
proof (cases c)
  case (Normal w)
  then have "normal_ok c" using assms by simp
  with assms Normal show ?thesis by (simp add: normalize_step_def path_push_def abs_path_snoc)
qed (use assms abs_path_butlast in \<open>auto simp: normalize_step_def path_pop_def\<close>)

lemma normalize_fold_abs:
  "abs_path p \<Longrightarrow> list_all component_ok cs \<Longrightarrow> RootDir \<notin> set cs \<Longrightarrow> abs_path (foldl normalize_step p cs)"
  by (induction cs arbitrary: p) (auto simp: normalize_step_abs)

lemma normalize_path_abs:
  assumes "wf_path p" "is_absolute p"
  shows "abs_path (normalize_path p)"
proof -
  from assms obtain cs where p: "p = RootDir # cs" "list_all component_ok cs" "RootDir \<notin> set cs"
    by (cases p) (auto simp: wf_path_def is_absolute_def)
  have "abs_path (foldl normalize_step [RootDir] cs)"
    using p by (intro normalize_fold_abs) (auto simp: abs_path_def)
  moreover have "foldl normalize_step [] p = foldl normalize_step [RootDir] cs"
    by (simp add: p(1) normalize_step_def path_push_def)
  ultimately show ?thesis
    by (cases "foldl normalize_step [RootDir] cs") (auto simp: normalize_path_def abs_path_def Let_def)
qed

lemma wf_path_join:
  assumes "wf_path base" "wf_path p" "is_absolute base"
  shows "wf_path (path_join base p) \<and> is_absolute (path_join base p)"
proof (cases "is_absolute p")
  case False
  from assms(3) obtain b where b: "base = RootDir # b" by (cases base) (auto simp: is_absolute_def)
  from False assms(2) have "RootDir \<notin> set p" by (cases p) (auto simp: is_absolute_def wf_path_def)
  with assms b False show ?thesis
    by (auto simp: path_join_def wf_path_def is_absolute_def list_all_iff)
qed (use assms in \<open>simp add: path_join_def\<close>)

lemma wf_expand_home: "host_ok env \<Longrightarrow> wf_path (maybe_expand_home_directory env s)"
  using wf_path_join wf_path_components
  by (auto simp: maybe_expand_home_directory_def host_ok_def split: option.splits sum.splits)

lemma absolutize_from_abs:
  "wf_path base \<Longrightarrow> is_absolute base \<Longrightarrow> wf_path p \<Longrightarrow> abs_path (absolutize_from p base)"
  using wf_path_join by (auto simp: absolutize_from_def path_with_base_def intro: normalize_path_abs)

lemma from_absolute_path_abs: "host_ok env \<Longrightarrow> from_absolute_path env s = Ok p \<Longrightarrow> abs_path p"
  using wf_expand_home [of env s]
  by (auto simp: from_absolute_path_def absolutize_def host_ok_def result_bind_def
      intro: normalize_path_abs absolutize_from_abs split: if_splits sum.splits)

subsection \<open>Reading a path back\<close>

lemma abs_path_normals:
  assumes "abs_path p"
  obtains ws where "p = RootDir # map Normal ws" "\<forall>w \<in> set ws. component_ok (Normal w)"
proof -
  from assms obtain cs where p: "p = RootDir # cs" "list_all normal_ok cs"
    by (auto simp: abs_path_def split: list.splits path_component.splits)
  then have "\<exists>ws. cs = map Normal ws \<and> (\<forall>w \<in> set ws. component_ok (Normal w))"
  proof (induction cs arbitrary: p)
    case (Cons c cs)
    then obtain w ws where "c = Normal w" "component_ok (Normal w)" "cs = map Normal ws"
      "\<forall>w \<in> set ws. component_ok (Normal w)" by (cases c) auto
    then show ?case by (intro exI [of _ "w # ws"]) simp
  qed simp
  with p(1) that show thesis by blast
qed

lemma render_abs_path: "ws \<noteq> [] \<Longrightarrow> render_path (RootDir # map Normal ws) = 47 # join [47] ws"
  by (simp add: render_path_def join_Cons comp_def)

lemma path_components_render:
  assumes "abs_path p"
  shows "path_components (render_path p) = p" "first_opt (render_path p) = Some 47"
proof -
  from assms obtain ws where p: "p = RootDir # map Normal ws"
    and ok: "\<forall>w \<in> set ws. component_ok (Normal w)" by (rule abs_path_normals)
  have "path_components (render_path p) = p \<and> first_opt (render_path p) = Some 47"
  proof (cases "ws = []")
    case True
    then show ?thesis by (simp add: p render_path_def path_components_def)
  next
    case False
    then have "split_char 47 (47 # join [47] ws) = [] # ws"
      using ok split_char_join [of ws 47] by simp
    moreover have "filter (\<lambda>w. w \<noteq> []) ws = ws" "filter (\<lambda>w. w \<noteq> str ''.'') ws = ws"
      using ok by (simp_all add: filter_id_conv)
    moreover have "map component_of ws = map Normal ws"
      using ok by (auto simp: component_of_def)
    ultimately show ?thesis by (simp add: p render_abs_path [OF False] path_components_def)
  qed
  then show "path_components (render_path p) = p" "first_opt (render_path p) = Some 47" by auto
qed

lemma normalize_path_id:
  assumes "abs_path p"
  shows "normalize_path p = p"
proof -
  obtain ws where p: "p = RootDir # map Normal ws" using abs_path_normals [OF assms] by metis
  have "foldl normalize_step q (map Normal ws) = q @ map Normal ws" for q
    by (induction ws arbitrary: q) (simp_all add: normalize_step_def path_push_def)
  then show ?thesis by (simp add: p normalize_path_def normalize_step_def path_push_def)
qed

lemma from_absolute_path_render:
  assumes "abs_path p"
  shows "from_absolute_path env (render_path p) = Ok p"
proof -
  have "strip_prefix [126] (render_path p) = None"
    using path_components_render(2) [OF assms]
    by (cases "render_path p") (auto simp: strip_prefix_def)
  then have "maybe_expand_home_directory env (render_path p) = p"
    by (simp add: maybe_expand_home_directory_def path_components_render(1) [OF assms])
  then show ?thesis
    by (simp add: from_absolute_path_def absolutize_def abs_path_is_absolute [OF assms] normalize_path_id [OF assms])
qed

text \<open>
  C22: an absolute path made from any text, relative or with home, dot and dot-dot segments, is
  absolute and normalised (the root followed by ordinary names), and its own text names it again in
  every environment.
\<close>

theorem absolute_path_normal:
  assumes "host_ok env" "from_absolute_path env s = Ok p"
  shows "abs_path p \<and> from_absolute_path env' (render_path p) = Ok p"
  using from_absolute_path_abs [OF assms] from_absolute_path_render by blast

definition sample_env :: host_env where
  "sample_env =
     \<lparr>current_dir = Ok (path_components (str ''/work/repo'')), home_dir = Some (path_components (str ''/home/me''))\<rparr>"

theorem absolute_path_normal_witness:
  "abs_path (path_components (str ''/work/x/y'')) \<and>
   from_absolute_path sample_env (str ''./a/.././../x//y/'') = Ok (path_components (str ''/work/x/y'')) \<and>
   from_absolute_path \<lparr>current_dir = Ok [RootDir], home_dir = None\<rparr> (str ''/work/x/y'') =
     Ok (path_components (str ''/work/x/y''))"
proof -
  have e: "host_ok sample_env"
    "from_absolute_path sample_env (str ''./a/.././../x//y/'') = Ok (path_components (str ''/work/x/y''))"
    "render_path (path_components (str ''/work/x/y'')) = str ''/work/x/y''" by code_simp+
  from absolute_path_normal [OF e(1,2)] e(2,3) show ?thesis by simp
qed

lemma path_ancestors_abs: "abs_path p \<Longrightarrow> list_all abs_path (path_ancestors p) \<and> last (path_ancestors p) = [RootDir]"
proof (induction p rule: path_ancestors.induct)
  case (1 p)
  show ?case
  proof (cases "last p = RootDir")
    case True
    with 1(2) have "p = [RootDir]"
      by (auto simp: abs_path_def list_all_iff split: list.splits path_component.splits if_splits
          dest!: last_in_set)
    then show ?thesis by (simp add: path_ancestors.simps path_parent_def abs_path_def)
  next
    case False
    with 1(2) have par: "path_parent p = Some (butlast p)" by (auto simp: path_parent_def abs_path_def)
    from 1(1) [OF par abs_path_butlast [OF 1(2) False]] 1(2) par show ?thesis
      by (subst (1 2) path_ancestors.simps) (auto simp: path_ancestors.simps [of "butlast p"])
  qed
qed

end
