(* ===== verification/Exec_Rule.thy ===== *)
theory Exec_Rule
  imports Abs_Path
begin

text \<open>
  The rules of the execution policy: \<open>codex-rs/execpolicy/src/decision.rs\<close>, \<open>error.rs\<close>,
  \<open>rule.rs\<close> and \<open>executable_name.rs\<close>. A rule allows, prompts for or forbids the commands that start
  with its pattern. The trait \<open>Rule\<close> has one implementation, the prefix rule, so a rule reference is a
  prefix rule. Where an error message embeds the derived debug text of a rule or a match, the error
  of the model carries the rule or the match.

  Lemmas: what a prefix pattern matches, and the shape of a normalised network host.
\<close>

section \<open>Decisions (decision.rs)\<close>

datatype decision = Allow | Prompt | Forbidden

fun decision_rank :: "decision \<Rightarrow> nat" where
  "decision_rank Allow = 0"
| "decision_rank Prompt = 1"
| "decision_rank Forbidden = 2"

text \<open>The derived order is the order of the declaration.\<close>

instantiation decision :: linorder
begin

definition less_eq_decision :: "decision \<Rightarrow> decision \<Rightarrow> bool" where
  "d \<le> e \<longleftrightarrow> decision_rank d \<le> decision_rank e"

definition less_decision :: "decision \<Rightarrow> decision \<Rightarrow> bool" where
  "d < e \<longleftrightarrow> decision_rank d < decision_rank e"

instance
proof
  fix d e :: decision
  show "d \<le> e \<Longrightarrow> e \<le> d \<Longrightarrow> d = e"
    by (cases d; cases e) (simp_all add: less_eq_decision_def)
qed (auto simp: less_eq_decision_def less_decision_def)

end

lemma decision_le_Forbidden [simp]: "d \<le> Forbidden"
  by (cases d) (simp_all add: less_eq_decision_def)

lemma Forbidden_le [simp]: "Forbidden \<le> d \<longleftrightarrow> d = Forbidden"
  by (cases d) (simp_all add: less_eq_decision_def)

section \<open>Rules (rule.rs)\<close>

datatype pattern_token = Single ustring | Alts "ustring list"

fun token_matches :: "pattern_token \<Rightarrow> ustring \<Rightarrow> bool" where
  "token_matches (Single expected) token \<longleftrightarrow> expected = token"
| "token_matches (Alts alternatives) token \<longleftrightarrow> list_ex (\<lambda>alt. alt = token) alternatives"

fun token_alternatives :: "pattern_token \<Rightarrow> ustring list" where
  "token_alternatives (Single expected) = [expected]"
| "token_alternatives (Alts alternatives) = alternatives"

record prefix_pattern =
  pat_first :: ustring
  pat_rest :: "pattern_token list"

definition matches_prefix :: "prefix_pattern \<Rightarrow> ustring list \<Rightarrow> ustring list option" where
  "matches_prefix pat cmd =
     (let pattern_length = length (pat_rest pat) + 1
      in if length cmd < pattern_length \<or> cmd ! 0 \<noteq> pat_first pat then None
         else if list_ex (\<lambda>(pattern_token, cmd_token). \<not> token_matches pattern_token cmd_token)
                   (zip (pat_rest pat) (take (pattern_length - 1) (drop 1 cmd))) then None
         else Some (take pattern_length cmd))"

datatype rule_match =
  PrefixRuleMatch (matched_prefix: "ustring list") decision (resolved_program: "path option") "ustring option"
| HeuristicsRuleMatch "ustring list" decision

fun rule_match_decision :: "rule_match \<Rightarrow> decision" where
  "rule_match_decision (PrefixRuleMatch _ d _ _) = d"
| "rule_match_decision (HeuristicsRuleMatch _ d) = d"

fun with_resolved_program :: "path \<Rightarrow> rule_match \<Rightarrow> rule_match" where
  "with_resolved_program program (PrefixRuleMatch pre d _ j) = PrefixRuleMatch pre d (Some program) j"
| "with_resolved_program program other = other"

record prefix_rule =
  rule_pattern :: prefix_pattern
  rule_decision :: decision
  rule_justification :: "ustring option"

definition rule_program :: "prefix_rule \<Rightarrow> ustring" where
  "rule_program r = pat_first (rule_pattern r)"

definition rule_matches :: "prefix_rule \<Rightarrow> ustring list \<Rightarrow> rule_match option" where
  "rule_matches r cmd =
     map_option (\<lambda>pre. PrefixRuleMatch pre (rule_decision r) None (rule_justification r))
       (matches_prefix (rule_pattern r) cmd)"

section \<open>Errors (error.rs)\<close>

record text_position =
  pos_line :: nat
  pos_column :: nat

record error_location =
  loc_path :: ustring
  loc_start :: text_position
  loc_end :: text_position

text \<open>An error of the Starlark interpreter: its text and the resolved location it reports, if any.\<close>

datatype exec_error =
  InvalidDecision ustring
| InvalidPattern ustring
| InvalidExample ustring
| InvalidRule ustring
| ExampleDidNotMatch "prefix_rule list" "ustring list" "error_location option"
| ExampleDidMatch rule_match ustring "error_location option"
| StarlarkError ustring "error_location option"

definition shift_position :: "text_position \<Rightarrow> text_position" where
  "shift_position p = \<lparr>pos_line = pos_line p + 1, pos_column = pos_column p + 1\<rparr>"

definition shift_location :: "error_location \<Rightarrow> error_location" where
  "shift_location l =
     l\<lparr>loc_start := shift_position (loc_start l), loc_end := shift_position (loc_end l)\<rparr>"

fun with_location :: "exec_error \<Rightarrow> error_location \<Rightarrow> exec_error" where
  "with_location (ExampleDidNotMatch rules examples None) l = ExampleDidNotMatch rules examples (Some l)"
| "with_location (ExampleDidMatch rule example None) l = ExampleDidMatch rule example (Some l)"
| "with_location other l = other"

fun error_location_of :: "exec_error \<Rightarrow> error_location option" where
  "error_location_of (ExampleDidNotMatch _ _ l) = l"
| "error_location_of (ExampleDidMatch _ _ l) = l"
| "error_location_of (StarlarkError _ span) = map_option shift_location span"
| "error_location_of _ = None"

definition parse_decision :: "ustring \<Rightarrow> (decision, exec_error) result" where
  "parse_decision raw =
     (if raw = str ''allow'' then Ok Allow
      else if raw = str ''prompt'' then Ok Prompt
      else if raw = str ''forbidden'' then Ok Forbidden
      else Err (InvalidDecision raw))"

section \<open>Network rules (rule.rs)\<close>

datatype network_rule_protocol = Http | Https | Socks5Tcp | Socks5Udp

definition parse_protocol :: "ustring \<Rightarrow> (network_rule_protocol, exec_error) result" where
  "parse_protocol raw =
     (if raw = str ''http'' then Ok Http
      else if raw \<in> {str ''https'', str ''https_connect'', str ''http-connect''} then Ok Https
      else if raw = str ''socks5_tcp'' then Ok Socks5Tcp
      else if raw = str ''socks5_udp'' then Ok Socks5Udp
      else Err (InvalidRule
        (str ''network_rule protocol must be one of http, https, socks5_tcp, socks5_udp (got '' @ raw @ str '')'')))"

fun as_policy_string :: "network_rule_protocol \<Rightarrow> ustring" where
  "as_policy_string Http = str ''http''"
| "as_policy_string Https = str ''https''"
| "as_policy_string Socks5Tcp = str ''socks5_tcp''"
| "as_policy_string Socks5Udp = str ''socks5_udp''"

record network_rule =
  net_host :: ustring
  net_protocol :: network_rule_protocol
  net_decision :: decision
  net_justification :: "ustring option"

definition is_port :: "ustring \<Rightarrow> bool" where
  "is_port p \<longleftrightarrow> p \<noteq> [] \<and> list_all is_ascii_digit p"

text \<open>The host without brackets or port, as a result because a bracketed literal may be invalid.\<close>

definition strip_port :: "ustring \<Rightarrow> ustring \<Rightarrow> (ustring, exec_error) result" where
  "strip_port raw host =
     (case strip_prefix [91] host of
        Some stripped \<Rightarrow>
          (case split_once 93 stripped of
             None \<Rightarrow> Err (InvalidRule (str ''network_rule host has an invalid bracketed IPv6 literal''))
           | Some (inside, rest) \<Rightarrow>
               if rest \<noteq> [] \<and> \<not> is_some_and (strip_prefix [58] rest) is_port
               then Err (InvalidRule (str ''network_rule host contains an unsupported suffix: '' @ raw))
               else Ok inside)
      | None \<Rightarrow>
          if count_list host 58 = 1 \<and>
             is_some_and (rsplit_once 58 host) (\<lambda>(candidate, port). candidate \<noteq> [] \<and> is_port port)
          then Ok (fst (the (rsplit_once 58 host)))
          else Ok host)"

definition normalize_network_rule_host :: "ustring \<Rightarrow> (ustring, exec_error) result" where
  "normalize_network_rule_host raw =
     (let host = trim raw
      in if host = [] then Err (InvalidRule (str ''network_rule host cannot be empty''))
         else if contains_str (str ''://'') host \<or> 47 \<in> set host \<or> 63 \<in> set host \<or> 35 \<in> set host then
           Err (InvalidRule (str ''network_rule host must be a hostname or IP literal (without scheme or path)''))
         else result_bind (strip_port raw host)
           (\<lambda>host.
              let normalized = to_ascii_lowercase (trim (trim_end_matches (\<lambda>c. c = 46) host))
              in if normalized = [] then Err (InvalidRule (str ''network_rule host cannot be empty''))
                 else if 42 \<in> set normalized then
                   Err (InvalidRule (str ''network_rule host must be a specific host; wildcards are not allowed''))
                 else if list_ex is_whitespace normalized then
                   Err (InvalidRule (str ''network_rule host cannot contain whitespace''))
                 else Ok normalized))"

section \<open>Names of executables (executable\_name.rs)\<close>

text \<open>On a host that is not Windows the key of an executable is its name.\<close>

definition executable_lookup_key :: "ustring \<Rightarrow> ustring" where
  "executable_lookup_key raw = raw"

definition executable_path_lookup_key :: "path \<Rightarrow> ustring option" where
  "executable_path_lookup_key p = map_option executable_lookup_key (path_file_name p)"

section \<open>What a pattern matches\<close>

lemma zip_all2: "length xs = length ys \<Longrightarrow> list_ex (\<lambda>(a, b). \<not> P a b) (zip xs ys) \<longleftrightarrow> \<not> list_all2 P xs ys"
  by (auto simp: list_ex_iff list_all2_iff)

lemma matches_prefix_Some:
  "matches_prefix pat cmd = Some pre \<longleftrightarrow>
     (\<exists>t ts rest. cmd = (t # ts) @ rest \<and> pre = t # ts \<and> t = pat_first pat \<and>
        list_all2 token_matches (pat_rest pat) ts)"
proof (cases cmd)
  case (Cons t cs)
  let ?n = "length (pat_rest pat)"
  show ?thesis
  proof (cases "?n \<le> length cs")
    case True
    then have "matches_prefix pat cmd =
        (if t \<noteq> pat_first pat \<or> \<not> list_all2 token_matches (pat_rest pat) (take ?n cs) then None
         else Some (t # take ?n cs))"
      by (auto simp: matches_prefix_def Cons zip_all2)
    moreover have "list_all2 token_matches (pat_rest pat) ts \<Longrightarrow> take ?n (ts @ rest) = ts" for ts rest
      by (simp add: list_all2_lengthD)
    ultimately show ?thesis using Cons
      by (auto simp: split: if_splits) (metis append_take_drop_id)
  next
    case False
    then show ?thesis
      by (auto simp: matches_prefix_def Cons dest!: list_all2_lengthD)
  qed
qed (simp add: matches_prefix_def)

text \<open>
  a prefix rule matches a command exactly when the command starts with the rule's program
  followed by one token per pattern element that the element admits; the match reports that prefix
  and the decision of the rule.
\<close>

theorem rule_matches_iff:
  "rule_matches r cmd = Some m \<longleftrightarrow>
     (\<exists>ts rest. cmd = rule_program r # ts @ rest \<and>
        list_all2 token_matches (pat_rest (rule_pattern r)) ts \<and>
        m = PrefixRuleMatch (rule_program r # ts) (rule_decision r) None (rule_justification r))"
  by (auto simp: rule_matches_def rule_program_def matches_prefix_Some)

section \<open>Normalised hosts\<close>

lemma set_strip_port:
  assumes "strip_port raw host = Ok h"
  shows "set h \<subseteq> set host"
proof (cases "strip_prefix [91] host")
  case None
  have "set a \<subseteq> set host" if "rsplit_once 58 host = Some (a, b)" for a b
  proof -
    from that have "rev host = rev b @ 58 # rev a"
      by (auto simp: rsplit_once_def split_once_Some split: option.splits)
    then have "set (rev host) = set (rev b @ 58 # rev a)" by simp
    then show ?thesis by auto
  qed
  with None assms show ?thesis
    by (cases "rsplit_once 58 host") (auto simp: strip_port_def split: if_splits)
next
  case (Some stripped)
  with assms show ?thesis
    by (auto simp: strip_port_def strip_prefix_Some split_once_Some split: option.splits if_splits)
qed

lemma ascii_lower_cases: "ascii_lower c = (if 65 \<le> c \<and> c \<le> 90 then c + 32 else c)"
  by (simp add: ascii_lower_def)

lemma to_ascii_lowercase_idem [simp]: "to_ascii_lowercase (to_ascii_lowercase s) = to_ascii_lowercase s"
  by (simp add: to_ascii_lowercase_def ascii_lower_cases)

lemma ascii_lower_sep: "ascii_lower c \<in> {47, 63, 35} \<longleftrightarrow> c \<in> {47, 63, 35}"
  by (auto simp: ascii_lower_cases)

definition host_normal :: "ustring \<Rightarrow> bool" where
  "host_normal h \<longleftrightarrow> h \<noteq> [] \<and> to_ascii_lowercase h = h \<and> \<not> list_ex is_whitespace h \<and>
     set h \<inter> {47, 63, 35, 42} = {}"

lemma normalize_host_normal:
  assumes "normalize_network_rule_host raw = Ok h"
  shows "host_normal h"
proof -
  from assms obtain host where sp: "strip_port raw (trim raw) = Ok host"
    and no: "set (trim raw) \<inter> {47, 63, 35} = {}"
    and h: "h = to_ascii_lowercase (trim (trim_end_matches (\<lambda>c. c = 46) host))"
      "h \<noteq> []" "42 \<notin> set h" "\<not> list_ex is_whitespace h"
    by (cases "strip_port raw (trim raw)")
      (auto simp: normalize_network_rule_host_def Let_def split: if_splits)
  have "set (trim (trim_end_matches (\<lambda>c. c = 46) host)) \<subseteq> set (trim raw)"
    using set_strip_port [OF sp] set_trim set_trim_end_matches by (meson subset_trans)
  then have "set h \<subseteq> ascii_lower ` set (trim raw)"
    by (auto simp: h(1) to_ascii_lowercase_def)
  moreover have "ascii_lower ` set (trim raw) \<inter> {47, 63, 35} = {}"
    using no ascii_lower_sep by blast
  ultimately have "set h \<inter> {47, 63, 35} = {}" by blast
  with h show ?thesis by (auto simp: host_normal_def)
qed

end
