(* ===== verification/Exec_Policy.thy ===== *)
theory Exec_Policy
  imports Exec_Rule
begin

text \<open>
  The execution policy, \<open>codex-rs/execpolicy/src/policy.rs\<close>. The multimap from programs to rules is
  an association list whose keys are distinct; nothing depends on the order of its keys. The map of
  host executables is a HOL map. A panic of \<open>Evaluation::from_matches\<close> is \<open>None\<close>.

  Lemmas: an evaluation exists and takes the most restrictive decision; adding a rule and merging an
  overlay extend the matches at the end; the compiled network domains follow the last decisive rule.
\<close>

section \<open>The multimap\<close>

type_synonym rule_map = "(ustring \<times> prefix_rule list) list"

fun mm_insert :: "ustring \<Rightarrow> prefix_rule \<Rightarrow> rule_map \<Rightarrow> rule_map" where
  "mm_insert k r [] = [(k, [r])]"
| "mm_insert k r ((k', rs) # m) = (if k = k' then (k', rs @ [r]) # m else (k', rs) # mm_insert k r m)"

definition mm_get :: "ustring \<Rightarrow> rule_map \<Rightarrow> prefix_rule list" where
  "mm_get k m = (case map_of m k of None \<Rightarrow> [] | Some rs \<Rightarrow> rs)"

lemma mm_get_simps [simp]:
  "mm_get k [] = []" "mm_get k ((k', rs) # m) = (if k = k' then rs else mm_get k m)"
  by (simp_all add: mm_get_def)

lemma mm_get_insert [simp]: "mm_get k (mm_insert k' r m) = mm_get k m @ (if k = k' then [r] else [])"
  by (induction k' r m rule: mm_insert.induct) auto

lemma mm_insert_keys: "fst ` set (mm_insert k r m) = insert k (fst ` set m)"
  by (induction k r m rule: mm_insert.induct) auto

lemma mm_insert_distinct: "distinct (map fst m) \<Longrightarrow> distinct (map fst (mm_insert k r m))"
  by (induction k r m rule: mm_insert.induct) (use mm_insert_keys in auto)

section \<open>The policy\<close>

record policy =
  rules_by_program :: rule_map
  network_rules :: "network_rule list"
  host_executables_by_name :: "ustring \<Rightarrow> path list option"

definition empty_policy :: policy where
  "empty_policy = \<lparr>rules_by_program = [], network_rules = [], host_executables_by_name = Map.empty\<rparr>"

fun render_pattern_token :: "pattern_token \<Rightarrow> ustring" where
  "render_pattern_token (Single v) = v"
| "render_pattern_token (Alts alternatives) = [91] @ join [124] alternatives @ [93]"

definition allowed_prefix :: "prefix_rule \<Rightarrow> ustring list option" where
  "allowed_prefix r =
     (if rule_decision r \<noteq> Allow then None
      else Some (pat_first (rule_pattern r) # map render_pattern_token (pat_rest (rule_pattern r))))"

definition get_allowed_prefixes :: "policy \<Rightarrow> ustring list list" where
  "get_allowed_prefixes p =
     remdups_adj (sort (List.map_filter allowed_prefix (concat (map snd (rules_by_program p)))))"

definition add_prefix_rule :: "policy \<Rightarrow> ustring list \<Rightarrow> decision \<Rightarrow> (policy, exec_error) result" where
  "add_prefix_rule p pre d =
     (case pre of
        [] \<Rightarrow> Err (InvalidPattern (str ''prefix cannot be empty''))
      | first_token # rest \<Rightarrow>
          Ok (p\<lparr>rules_by_program :=
                 mm_insert first_token
                   \<lparr>rule_pattern = \<lparr>pat_first = first_token, pat_rest = map Single rest\<rparr>,
                    rule_decision = d, rule_justification = None\<rparr>
                   (rules_by_program p)\<rparr>))"

definition add_network_rule ::
  "policy \<Rightarrow> ustring \<Rightarrow> network_rule_protocol \<Rightarrow> decision \<Rightarrow> ustring option \<Rightarrow> (policy, exec_error) result" where
  "add_network_rule p host protocol d justification =
     result_bind (normalize_network_rule_host host)
       (\<lambda>host.
          if is_some_and justification (\<lambda>raw. trim raw = [])
          then Err (InvalidRule (str ''justification cannot be empty''))
          else Ok (p\<lparr>network_rules := network_rules p @
                      [\<lparr>net_host = host, net_protocol = protocol, net_decision = d,
                        net_justification = justification\<rparr>]\<rparr>))"

definition set_host_executable_paths :: "policy \<Rightarrow> ustring \<Rightarrow> path list \<Rightarrow> policy" where
  "set_host_executable_paths p name paths =
     p\<lparr>host_executables_by_name := (host_executables_by_name p)(name \<mapsto> paths)\<rparr>"

definition merge_rules :: "rule_map \<Rightarrow> rule_map \<Rightarrow> rule_map" where
  "merge_rules base overlay =
     fold (\<lambda>(program, rules) m. fold (\<lambda>rule m. mm_insert program rule m) rules m) overlay base"

definition merge_overlay :: "policy \<Rightarrow> policy \<Rightarrow> policy" where
  "merge_overlay p overlay =
     \<lparr>rules_by_program = merge_rules (rules_by_program p) (rules_by_program overlay),
      network_rules = network_rules p @ network_rules overlay,
      host_executables_by_name = host_executables_by_name p ++ host_executables_by_name overlay\<rparr>"

definition upsert_domain :: "ustring list \<Rightarrow> ustring \<Rightarrow> ustring list" where
  "upsert_domain entries host = filter (\<lambda>entry. entry \<noteq> host) entries @ [host]"

definition compile_step :: "ustring list \<times> ustring list \<Rightarrow> network_rule \<Rightarrow> ustring list \<times> ustring list" where
  "compile_step s rule =
     (case s of (allowed, denied) \<Rightarrow>
        (case net_decision rule of
           Allow \<Rightarrow>
             (upsert_domain allowed (net_host rule), filter (\<lambda>entry. entry \<noteq> net_host rule) denied)
         | Forbidden \<Rightarrow>
             (filter (\<lambda>entry. entry \<noteq> net_host rule) allowed, upsert_domain denied (net_host rule))
         | Prompt \<Rightarrow> (allowed, denied)))"

definition compiled_network_domains :: "policy \<Rightarrow> ustring list \<times> ustring list" where
  "compiled_network_domains p = foldl compile_step ([], []) (network_rules p)"

section \<open>Evaluation\<close>

type_synonym heuristics = "ustring list \<Rightarrow> decision"

definition match_exact_rules :: "policy \<Rightarrow> ustring list \<Rightarrow> rule_match list option" where
  "match_exact_rules p cmd =
     (case cmd of [] \<Rightarrow> None
      | first # _ \<Rightarrow>
          Some (List.map_filter (\<lambda>rule. rule_matches rule cmd) (mm_get first (rules_by_program p))))"

definition match_host_executable_rules :: "host_env \<Rightarrow> policy \<Rightarrow> ustring list \<Rightarrow> rule_match list" where
  "match_host_executable_rules env p cmd =
     (case cmd of [] \<Rightarrow> []
      | first # args \<Rightarrow>
     (case from_absolute_path env first of Err _ \<Rightarrow> []
      | Ok program \<Rightarrow>
     (case executable_path_lookup_key program of None \<Rightarrow> []
      | Some basename \<Rightarrow>
     (case map_of (rules_by_program p) basename of None \<Rightarrow> []
      | Some rules \<Rightarrow>
          if is_some_and (host_executables_by_name p basename) (\<lambda>paths. \<not> list_ex (\<lambda>q. q = program) paths)
          then []
          else map (with_resolved_program program)
                 (List.map_filter (\<lambda>rule. rule_matches rule (basename # args)) rules)))))"

definition matches_for_command_with_options ::
  "host_env \<Rightarrow> policy \<Rightarrow> ustring list \<Rightarrow> heuristics option \<Rightarrow> bool \<Rightarrow> rule_match list" where
  "matches_for_command_with_options env p cmd heuristics_fallback resolve_host_executables =
     (let matched_rules =
        (case match_exact_rules p cmd of
           Some (m # ms) \<Rightarrow> m # ms
         | _ \<Rightarrow> if resolve_host_executables then match_host_executable_rules env p cmd else [])
      in case heuristics_fallback of
           Some h \<Rightarrow> if matched_rules = [] then [HeuristicsRuleMatch cmd (h cmd)] else matched_rules
         | None \<Rightarrow> matched_rules)"

definition matches_for_command :: "host_env \<Rightarrow> policy \<Rightarrow> ustring list \<Rightarrow> heuristics option \<Rightarrow> rule_match list" where
  "matches_for_command env p cmd heuristics_fallback =
     matches_for_command_with_options env p cmd heuristics_fallback False"

record evaluation =
  eval_decision :: decision
  matched_rules :: "rule_match list"

fun is_heuristics :: "rule_match \<Rightarrow> bool" where
  "is_heuristics (HeuristicsRuleMatch _ _) \<longleftrightarrow> True"
| "is_heuristics _ \<longleftrightarrow> False"

definition is_match :: "evaluation \<Rightarrow> bool" where
  "is_match e = list_ex (\<lambda>m. \<not> is_heuristics m) (matched_rules e)"

fun max_decision :: "decision list \<Rightarrow> decision option" where
  "max_decision [] = None"
| "max_decision (d # ds) = Some (foldl max d ds)"

definition from_matches :: "rule_match list \<Rightarrow> evaluation option" where
  "from_matches ms =
     map_option (\<lambda>d. \<lparr>eval_decision = d, matched_rules = ms\<rparr>) (max_decision (map rule_match_decision ms))"

definition check_with_options :: "host_env \<Rightarrow> policy \<Rightarrow> ustring list \<Rightarrow> heuristics \<Rightarrow> bool \<Rightarrow> evaluation option" where
  "check_with_options env p cmd heuristics_fallback resolve =
     from_matches (matches_for_command_with_options env p cmd (Some heuristics_fallback) resolve)"

definition check :: "host_env \<Rightarrow> policy \<Rightarrow> ustring list \<Rightarrow> heuristics \<Rightarrow> evaluation option" where
  "check env p cmd heuristics_fallback = check_with_options env p cmd heuristics_fallback False"

definition check_multiple_with_options ::
  "host_env \<Rightarrow> policy \<Rightarrow> ustring list list \<Rightarrow> heuristics \<Rightarrow> bool \<Rightarrow> evaluation option" where
  "check_multiple_with_options env p commands heuristics_fallback resolve =
     from_matches
       (concat (map (\<lambda>cmd. matches_for_command_with_options env p cmd (Some heuristics_fallback) resolve) commands))"

definition check_multiple :: "host_env \<Rightarrow> policy \<Rightarrow> ustring list list \<Rightarrow> heuristics \<Rightarrow> evaluation option" where
  "check_multiple env p commands heuristics_fallback =
     check_multiple_with_options env p commands heuristics_fallback False"

section \<open>The most restrictive decision\<close>

lemma foldl_max_ge: "(d :: 'a :: linorder) \<le> foldl max d ds \<and> (\<forall>e \<in> set ds. e \<le> foldl max d ds)"
proof (induction ds arbitrary: d)
  case (Cons x ds)
  from Cons.IH [of "max d x"] show ?case by auto
qed simp

lemma foldl_max_in: "foldl max (d :: 'a :: linorder) ds \<in> insert d (set ds)"
proof (induction ds arbitrary: d)
  case (Cons x ds)
  from Cons.IH [of "max d x"] show ?case by (auto simp: max_def split: if_splits)
qed simp

lemma max_decision_Some:
  assumes "ds \<noteq> []"
  obtains d where "max_decision ds = Some d" "d \<in> set ds" "list_all (\<lambda>e. e \<le> d) ds"
proof -
  from assms obtain x xs where ds: "ds = x # xs" by (cases ds) auto
  show thesis
    using foldl_max_in [of x xs] foldl_max_ge [of x xs]
    by (intro that [of "foldl max x xs"]) (auto simp: ds list_all_iff)
qed

lemma max_decision_None [simp]: "max_decision ds = None \<longleftrightarrow> ds = []"
  by (cases ds) simp_all

lemma max_decision_unique: "max_decision ds = Some d \<Longrightarrow> d \<in> set ds \<and> list_all (\<lambda>e. e \<le> d) ds"
  using foldl_max_in foldl_max_ge by (cases ds) (auto simp: list_all_iff)

lemma matches_nonempty: "matches_for_command_with_options env p cmd (Some h) b \<noteq> []"
  by (auto simp: matches_for_command_with_options_def Let_def)

lemma rule_matches_is_rule: "rule_matches r cmd = Some m \<Longrightarrow> \<not> is_heuristics m"
  by (auto simp: rule_matches_def)

lemma with_resolved_is_rule: "is_heuristics (with_resolved_program q m) \<longleftrightarrow> is_heuristics m"
  by (cases m) simp_all

lemma exact_are_rules: "match_exact_rules p cmd = Some ms \<Longrightarrow> m \<in> set ms \<Longrightarrow> \<not> is_heuristics m"
  by (auto simp: match_exact_rules_def map_filter_in rule_matches_is_rule split: list.splits)

lemma host_are_rules: "m \<in> set (match_host_executable_rules env p cmd) \<Longrightarrow> \<not> is_heuristics m"
  by (auto simp: match_host_executable_rules_def map_filter_in with_resolved_is_rule rule_matches_is_rule
      split: list.splits sum.splits option.splits if_splits)

lemma matches_are_rules:
  "m \<in> set (matches_for_command_with_options env p cmd None resolve) \<Longrightarrow> \<not> is_heuristics m"
  by (auto simp: matches_for_command_with_options_def Let_def
      split: option.splits list.splits if_splits dest: exact_are_rules host_are_rules)

text \<open>
  C3: evaluating a command never panics, and its decision is the most restrictive one among the
  rules that match it: some match has it, and no match is stricter. Where no rule matches, the
  decision is the one of the heuristics.
\<close>

theorem check_most_restrictive:
  "\<exists>e. check_with_options env p cmd h resolve = Some e \<and>
     matched_rules e = matches_for_command_with_options env p cmd (Some h) resolve \<and>
     eval_decision e \<in> rule_match_decision ` set (matched_rules e) \<and>
     list_all (\<lambda>m. rule_match_decision m \<le> eval_decision e) (matched_rules e) \<and>
     (matches_for_command_with_options env p cmd None resolve = [] \<and> eval_decision e = h cmd \<or>
      matches_for_command_with_options env p cmd None resolve = matched_rules e \<and> is_match e)"
proof -
  let ?ms = "matches_for_command_with_options env p cmd (Some h) resolve"
  let ?rs = "matches_for_command_with_options env p cmd None resolve"
  obtain d where d: "max_decision (map rule_match_decision ?ms) = Some d"
    "d \<in> set (map rule_match_decision ?ms)" "list_all (\<lambda>e. e \<le> d) (map rule_match_decision ?ms)"
    using max_decision_Some [of "map rule_match_decision ?ms"] matches_nonempty by blast
  have ms: "?ms = (if ?rs = [] then [HeuristicsRuleMatch cmd (h cmd)] else ?rs)"
    by (simp add: matches_for_command_with_options_def Let_def)
  have "\<not> is_heuristics m" if "m \<in> set ?rs" for m
    using matches_are_rules that by blast
  then have "?rs \<noteq> [] \<Longrightarrow> is_match \<lparr>eval_decision = d, matched_rules = ?rs\<rparr>"
    by (cases ?rs) (auto simp: is_match_def)
  with d ms show ?thesis
    by (intro exI [of _ "\<lparr>eval_decision = d, matched_rules = ?ms\<rparr>"])
      (auto simp: check_with_options_def from_matches_def list_all_iff split: if_splits)
qed

section \<open>Adding rules\<close>

lemma matches_default:
  "matches_for_command env p cmd None = (case match_exact_rules p cmd of None \<Rightarrow> [] | Some ms \<Rightarrow> ms)"
  by (auto simp: matches_for_command_def matches_for_command_with_options_def split: option.splits list.splits)

lemma map_filter_append [simp]: "List.map_filter f (xs @ ys) = List.map_filter f xs @ List.map_filter f ys"
  by (simp add: List.map_filter_def)

lemma list_all2_Single: "list_all2 token_matches (map Single xs) ys \<longleftrightarrow> xs = ys"
  by (induction xs arbitrary: ys) (auto simp: list_all2_Cons1)

definition literal_rule :: "ustring list \<Rightarrow> decision \<Rightarrow> prefix_rule" where
  "literal_rule pre d =
     \<lparr>rule_pattern = \<lparr>pat_first = hd pre, pat_rest = map Single (tl pre)\<rparr>, rule_decision = d,
      rule_justification = None\<rparr>"

lemma rule_matches_literal:
  assumes "pre \<noteq> []"
  shows "rule_matches (literal_rule pre d) cmd =
    (if prefix pre cmd then Some (PrefixRuleMatch pre d None None) else None)"
proof (cases "matches_prefix (rule_pattern (literal_rule pre d)) cmd")
  case None
  have "\<not> prefix pre cmd"
  proof
    assume "prefix pre cmd"
    then obtain rest where "cmd = (hd pre # tl pre) @ rest" using assms by (auto simp: prefix_def)
    then have "matches_prefix (rule_pattern (literal_rule pre d)) cmd = Some (hd pre # tl pre)"
      by (auto simp: matches_prefix_Some literal_rule_def list_all2_Single)
    with None show False by simp
  qed
  with None show ?thesis by (simp add: rule_matches_def)
next
  case (Some m)
  then have "\<exists>rest. cmd = pre @ rest \<and> m = pre"
    using assms by (cases pre) (auto simp: matches_prefix_Some literal_rule_def list_all2_Single)
  with Some show ?thesis by (auto simp: rule_matches_def literal_rule_def)
qed

text \<open>
  adding a rule for a literal prefix adds exactly one match, with the rule's decision, to the
  commands that start with the prefix, and changes no other command.
\<close>

theorem add_prefix_rule_matches:
  assumes "add_prefix_rule p pre d = Ok p'"
  shows "matches_for_command env p' cmd None =
    matches_for_command env p cmd None @ (if prefix pre cmd then [PrefixRuleMatch pre d None None] else [])"
proof -
  from assms obtain t ts where pre: "pre = t # ts"
    and p': "p' = p\<lparr>rules_by_program := mm_insert t (literal_rule pre d) (rules_by_program p)\<rparr>"
    by (cases pre) (auto simp: add_prefix_rule_def literal_rule_def)
  have "pre \<noteq> []" by (simp add: pre)
  note lit = rule_matches_literal [OF this]
  show ?thesis
    by (cases cmd) (auto simp: matches_default match_exact_rules_def p' pre List.map_filter_simps
        lit [unfolded pre])
qed

section \<open>Overlays\<close>

lemma mm_get_fold_insert: "mm_get k (fold (mm_insert k') rs m) = mm_get k m @ (if k = k' then rs else [])"
  by (induction rs arbitrary: m) auto

lemma merge_rules_Cons: "merge_rules base ((k, rs) # m) = merge_rules (fold (mm_insert k) rs base) m"
  by (simp add: merge_rules_def)

lemma mm_get_notin: "k \<notin> fst ` set m \<Longrightarrow> mm_get k m = []"
  by (induction m) auto

lemma mm_get_merge:
  "distinct (map fst overlay) \<Longrightarrow> mm_get k (merge_rules base overlay) = mm_get k base @ mm_get k overlay"
proof (induction overlay arbitrary: base)
  case (Cons e overlay)
  then show ?case
    by (cases e) (auto simp: merge_rules_Cons mm_get_fold_insert mm_get_notin)
qed (simp add: merge_rules_def)

definition wf_policy :: "policy \<Rightarrow> bool" where
  "wf_policy p \<longleftrightarrow>
     distinct (map fst (rules_by_program p)) \<and>
     list_all (\<lambda>(program, rules). list_all (\<lambda>r. rule_program r = program) rules) (rules_by_program p) \<and>
     list_all (\<lambda>r. host_normal (net_host r)) (network_rules p)"

lemma matches_merge:
  assumes "wf_policy overlay"
  shows "matches_for_command env (merge_overlay p overlay) cmd None =
    matches_for_command env p cmd None @ matches_for_command env overlay cmd None"
  using assms
  by (cases cmd) (auto simp: matches_default match_exact_rules_def merge_overlay_def wf_policy_def mm_get_merge)

lemma check_default:
  "check env p cmd h =
     from_matches (if matches_for_command env p cmd None = [] then [HeuristicsRuleMatch cmd (h cmd)]
                   else matches_for_command env p cmd None)"
  by (simp add: check_def check_with_options_def matches_for_command_def
      matches_for_command_with_options_def Let_def)

lemma from_matches_Some:
  "from_matches ms = Some e \<longleftrightarrow> matched_rules e = ms \<and> max_decision (map rule_match_decision ms) = Some (eval_decision e)"
  by (cases e) (auto simp: from_matches_def)

lemma max_decision_mono:
  assumes "max_decision ds = Some d" "max_decision es = Some e" "set ds \<subseteq> set es"
  shows "d \<le> e"
  using max_decision_unique [OF assms(1)] max_decision_unique [OF assms(2)] assms(3)
  by (auto simp: list_all_iff)


section \<open>The invariant of policies\<close>

lemma rule_program_simps [simp]:
  "rule_program \<lparr>rule_pattern = pat, rule_decision = d, rule_justification = j\<rparr> = pat_first pat"
  by (simp add: rule_program_def)

lemma list_all_mm_insert:
  "list_all (\<lambda>(k, rs). list_all (\<lambda>r. rule_program r = k) rs) m \<Longrightarrow> rule_program r = k \<Longrightarrow>
   list_all (\<lambda>(k, rs). list_all (\<lambda>r. rule_program r = k) rs) (mm_insert k r m)"
  by (induction k r m rule: mm_insert.induct) auto

lemma wf_fold_insert:
  "distinct (map fst m) \<and> list_all (\<lambda>(k, rs). list_all (\<lambda>r. rule_program r = k) rs) m \<Longrightarrow>
   list_all (\<lambda>r. rule_program r = k) rules \<Longrightarrow>
   distinct (map fst (fold (mm_insert k) rules m)) \<and>
   list_all (\<lambda>(k, rs). list_all (\<lambda>r. rule_program r = k) rs) (fold (mm_insert k) rules m)"
proof (induction rules arbitrary: m)
  case (Cons r rules)
  from Cons.IH [of "mm_insert k r m"] Cons.prems show ?case
    by (simp add: mm_insert_distinct list_all_mm_insert)
qed simp

lemma wf_merge_rules:
  "distinct (map fst m) \<and> list_all (\<lambda>(k, rs). list_all (\<lambda>r. rule_program r = k) rs) m \<Longrightarrow>
   list_all (\<lambda>(k, rs). list_all (\<lambda>r. rule_program r = k) rs) overlay \<Longrightarrow>
   distinct (map fst (merge_rules m overlay)) \<and>
   list_all (\<lambda>(k, rs). list_all (\<lambda>r. rule_program r = k) rs) (merge_rules m overlay)"
proof (induction overlay arbitrary: m)
  case (Cons e overlay)
  obtain k rs where e: "e = (k, rs)" by (cases e)
  from Cons.IH [OF wf_fold_insert [OF Cons.prems(1), of k rs]] Cons.prems(2) show ?case
    by (simp add: e merge_rules_Cons)
qed (simp add: merge_rules_def)

text \<open>
  every operation on policies keeps the invariant: each rule is filed under its own program, a
  program has one entry, and the hosts of network rules are normalised.
\<close>

theorem policy_operations_wf:
  "wf_policy empty_policy \<and>
   (wf_policy p \<longrightarrow> add_prefix_rule p pre d = Ok p1 \<longrightarrow> wf_policy p1) \<and>
   (wf_policy p \<longrightarrow> add_network_rule p host protocol d j = Ok p2 \<longrightarrow> wf_policy p2) \<and>
   (wf_policy p \<longrightarrow> wf_policy (set_host_executable_paths p name paths)) \<and>
   (wf_policy p \<longrightarrow> wf_policy q \<longrightarrow> wf_policy (merge_overlay p q))"
proof (intro conjI impI)
  show "wf_policy empty_policy" by (simp add: wf_policy_def empty_policy_def)
  show "wf_policy p1" if "wf_policy p" "add_prefix_rule p pre d = Ok p1"
    using that by (cases pre)
      (auto simp: add_prefix_rule_def wf_policy_def mm_insert_distinct list_all_mm_insert)
  show "wf_policy p2" if "wf_policy p" "add_network_rule p host protocol d j = Ok p2"
    using that by (cases "normalize_network_rule_host host")
      (auto simp: add_network_rule_def wf_policy_def normalize_host_normal split: if_splits)
  show "wf_policy (set_host_executable_paths p name paths)" if "wf_policy p"
    using that by (simp add: set_host_executable_paths_def wf_policy_def)
  show "wf_policy (merge_overlay p q)" if "wf_policy p" "wf_policy q"
    using that wf_merge_rules [of "rules_by_program p" "rules_by_program q"]
    by (simp add: merge_overlay_def wf_policy_def)
qed

section \<open>Several commands\<close>

lemma max_decision_append:
  assumes "max_decision xs = Some d" "max_decision ys = Some e"
  shows "max_decision (xs @ ys) = Some (max d e)"
proof -
  have "xs @ ys \<noteq> []" using assms by (cases xs) auto
  then obtain m where m: "max_decision (xs @ ys) = Some m" "m \<in> set (xs @ ys)" "list_all (\<lambda>e. e \<le> m) (xs @ ys)"
    by (rule max_decision_Some)
  note d = max_decision_unique [OF assms(1)] and e = max_decision_unique [OF assms(2)]
  have "m \<le> max d e" using d e m(2) by (auto simp: list_all_iff le_max_iff_disj)
  moreover have "max d e \<le> m" using d e m(3) by (simp add: list_all_iff)
  ultimately show ?thesis using m(1) by simp
qed

text \<open>
  checking several commands fails only for the empty list (the panic the code documents), and
  otherwise gives the maximum of the decisions of the single commands.
\<close>

theorem check_multiple_max:
  "map_option eval_decision (check_multiple_with_options env p cmds h resolve) =
     max_decision (map (\<lambda>cmd. eval_decision (the (check_with_options env p cmd h resolve))) cmds)"
proof (induction cmds rule: rev_induct)
  case (snoc cmd cmds)
  let ?ms = "\<lambda>cmd. map rule_match_decision (matches_for_command_with_options env p cmd (Some h) resolve)"
  let ?d = "\<lambda>cmd. eval_decision (the (check_with_options env p cmd h resolve))"
  have d: "max_decision (?ms cmd) = Some (?d cmd)" for cmd
    using max_decision_None [of "?ms cmd"] matches_nonempty [of env p cmd h resolve]
    by (cases "max_decision (?ms cmd)") (simp_all add: check_with_options_def from_matches_def)
  have all: "map_option eval_decision (check_multiple_with_options env p cs h resolve) =
      max_decision (concat (map ?ms cs))" for cs
    by (simp add: check_multiple_with_options_def from_matches_def map_concat comp_def option.map_comp option.map_ident)
  show ?case
  proof (cases "cmds = []")
    case True
    then show ?thesis using d by (simp add: all)
  next
    case False
    then obtain m where m: "max_decision (map ?d cmds) = Some m"
      using max_decision_None [of "map ?d cmds"] by (cases "max_decision (map ?d cmds)") simp_all
    with snoc.IH d show ?thesis by (simp add: all max_decision_append)
  qed
qed (simp add: check_multiple_with_options_def from_matches_def)

section \<open>Network domains\<close>

definition last_decisive :: "network_rule list \<Rightarrow> ustring \<Rightarrow> decision option" where
  "last_decisive rules host =
     last_opt (List.map_filter
       (\<lambda>r. if net_host r = host \<and> net_decision r \<noteq> Prompt then Some (net_decision r) else None) rules)"

lemma last_decisive_snoc:
  "last_decisive (rules @ [r]) host =
     (if net_host r = host \<and> net_decision r \<noteq> Prompt then Some (net_decision r) else last_decisive rules host)"
  by (auto simp: last_decisive_def List.map_filter_simps)

definition domains_inv :: "network_rule list \<Rightarrow> ustring list \<times> ustring list \<Rightarrow> bool" where
  "domains_inv rules s \<longleftrightarrow> distinct (fst s) \<and> distinct (snd s) \<and>
     (\<forall>host. (host \<in> set (fst s) \<longleftrightarrow> last_decisive rules host = Some Allow) \<and>
             (host \<in> set (snd s) \<longleftrightarrow> last_decisive rules host = Some Forbidden))"

lemma domains_inv_step: "domains_inv rules s \<Longrightarrow> domains_inv (rules @ [r]) (compile_step s r)"
  by (cases s; cases "net_decision r")
    (auto simp: domains_inv_def compile_step_def upsert_domain_def last_decisive_snoc)

lemma domains_inv_compiled: "domains_inv (network_rules p) (compiled_network_domains p)"
proof -
  have "domains_inv rules (foldl compile_step ([], []) rules)" for rules
    by (induction rules rule: rev_induct)
      (simp_all add: domains_inv_step, simp add: domains_inv_def last_decisive_def List.map_filter_simps)
  then show ?thesis by (simp add: compiled_network_domains_def)
qed

text \<open>
  compiling the network rules gives two lists without repetition; a host is allowed exactly when
  the last rule for it that allows or forbids is an allow rule, and denied exactly when that rule
  forbids. In particular no host is in both lists.
\<close>

theorem compiled_domains_last_rule:
  "distinct (fst (compiled_network_domains p)) \<and> distinct (snd (compiled_network_domains p)) \<and>
   (host \<in> set (fst (compiled_network_domains p)) \<longleftrightarrow> last_decisive (network_rules p) host = Some Allow) \<and>
   (host \<in> set (snd (compiled_network_domains p)) \<longleftrightarrow> last_decisive (network_rules p) host = Some Forbidden)"
  using domains_inv_compiled [of p] by (simp add: domains_inv_def)

section \<open>Falling back to the name of the program\<close>

text \<open>
  with host executables resolved, a command without an exact rule is matched by the rules of the
  last segment of its program path, whatever the path resolves to, as long as no list of paths is
  declared for that name. The path need not be absolute: a relative one is resolved against the
  working directory, so a rule for a bare name also decides about a program inside the workspace.
\<close>

theorem basename_fallback:
  assumes "matches_for_command env p (program # args) None = []"
    "from_absolute_path env program = Ok q" "path_file_name q = Some name"
    "host_executables_by_name p name = None"
  shows "matches_for_command_with_options env p (program # args) None True =
    map (with_resolved_program q) (matches_for_command env p (name # args) None)"
proof -
  have "match_exact_rules p (program # args) = Some []"
    using assms(1) by (auto simp: matches_default match_exact_rules_def)
  moreover have "match_host_executable_rules env p (program # args) =
      map (with_resolved_program q) (matches_for_command env p (name # args) None)"
    using assms(2-4)
    by (auto simp: match_host_executable_rules_def executable_path_lookup_key_def executable_lookup_key_def
        matches_default match_exact_rules_def mm_get_def List.map_filter_simps split: option.splits)
  ultimately show ?thesis by (simp add: matches_for_command_with_options_def)
qed

section \<open>Instances\<close>

definition git_policy :: policy where
  "git_policy = projr (add_prefix_rule empty_policy [str ''git''] Allow)"

definition push_overlay :: policy where
  "push_overlay = projr (add_prefix_rule empty_policy [str ''git'', str ''push''] Forbidden)"

theorem add_prefix_rule_matches_witness:
  "matches_for_command sample_env git_policy [str ''git'', str ''log''] None =
     [PrefixRuleMatch [str ''git''] Allow None None]"
proof -
  have "is_ok (add_prefix_rule empty_policy [str ''git''] Allow)" by code_simp
  then have "add_prefix_rule empty_policy [str ''git''] Allow = Ok git_policy"
    by (auto simp: git_policy_def is_ok_def split: sum.splits)
  from add_prefix_rule_matches [OF this, of sample_env "[str ''git'', str ''log'']"] show ?thesis
    by (simp add: matches_default match_exact_rules_def empty_policy_def List.map_filter_simps)
qed


theorem policy_operations_wf_witness: "wf_policy git_policy \<and> wf_policy (merge_overlay git_policy push_overlay)"
proof -
  have ok: "add_prefix_rule empty_policy [str ''git''] Allow = Ok git_policy"
    "add_prefix_rule empty_policy [str ''git'', str ''push''] Forbidden = Ok push_overlay"
    by (simp_all add: add_prefix_rule_def git_policy_def push_overlay_def)
  have e: "wf_policy empty_policy" using policy_operations_wf by blast
  have "wf_policy git_policy" "wf_policy push_overlay"
    using policy_operations_wf e ok by blast+
  then show ?thesis using policy_operations_wf by blast
qed

theorem basename_fallback_witness:
  "matches_for_command_with_options sample_env git_policy [str ''./git'', str ''log''] None True =
     [PrefixRuleMatch [str ''git''] Allow (Some (path_components (str ''/work/repo/git''))) None]"
proof -
  have a: "matches_for_command sample_env git_policy [str ''./git'', str ''log''] None = []"
    "from_absolute_path sample_env (str ''./git'') = Ok (path_components (str ''/work/repo/git''))"
    "path_file_name (path_components (str ''/work/repo/git'')) = Some (str ''git'')"
    "host_executables_by_name git_policy (str ''git'') = None"
    "matches_for_command sample_env git_policy [str ''git'', str ''log''] None =
      [PrefixRuleMatch [str ''git''] Allow None None]" by code_simp+
  from basename_fallback [OF a(1-4)] a(5) show ?thesis by simp
qed

end
