(* ===== verification/Exec_Parser.thy ===== *)
theory Exec_Parser
  imports Exec_Policy
begin

text \<open>
  Reading policy files: \<open>codex-rs/execpolicy/src/parser.rs\<close>, the validation of examples in
  \<open>rule.rs\<close>, and the loading of several files in \<open>execpolicycheck.rs\<close>. A policy file is a Starlark
  program that calls three built-in functions. The Starlark interpreter is a parameter: what a
  program does is the sequence of built-in calls it makes and the failure it ends with, if any. The
  splitting and quoting of shell words (crate shlex) is a second parameter.

  Lemmas: the invariant of the builder, and that the examples of an accepted file hold of the policy
  that is built from it.
\<close>

section \<open>Parameters\<close>

datatype starlark_value = StringValue ustring | ListValue "starlark_value list" | OtherValue ustring

fun value_type :: "starlark_value \<Rightarrow> ustring" where
  "value_type (StringValue _) = str ''string''"
| "value_type (ListValue _) = str ''list''"
| "value_type (OtherValue ty) = ty"

fun unpack_str :: "starlark_value \<Rightarrow> ustring option" where
  "unpack_str (StringValue s) = Some s"
| "unpack_str _ = None"

record shlex_lib =
  shlex_split :: "ustring \<Rightarrow> ustring list option"
  shlex_try_join :: "ustring list \<Rightarrow> ustring option"

datatype policy_call =
  PrefixRuleCall "starlark_value list" "ustring option" "starlark_value list option"
    "starlark_value list option" "ustring option" "error_location option"
| NetworkRuleCall ustring ustring ustring "ustring option"
| HostExecutableCall ustring "starlark_value list"

type_synonym starlark_failure = "ustring \<times> error_location option"

text \<open>
  \<open>run_module\<close> is \<open>Err\<close> when the text does not parse; otherwise it gives the calls of the program and
  the failure that ends it. \<open>wrap_error\<close> is how the interpreter reports the error of a call.
\<close>

record starlark_lib =
  run_module :: "ustring \<Rightarrow> ustring \<Rightarrow> (policy_call list \<times> starlark_failure option, starlark_failure) result"
  wrap_error :: "exec_error \<Rightarrow> starlark_failure"

section \<open>Examples (rule.rs)\<close>

definition render_example :: "shlex_lib \<Rightarrow> ustring list \<Rightarrow> ustring" where
  "render_example sh example =
     (case shlex_try_join sh example of Some s \<Rightarrow> s | None \<Rightarrow> str ''unable to render example'')"

definition validate_match_examples ::
  "host_env \<Rightarrow> shlex_lib \<Rightarrow> policy \<Rightarrow> prefix_rule list \<Rightarrow> ustring list list \<Rightarrow> (unit, exec_error) result" where
  "validate_match_examples env sh p rules examples =
     (let unmatched_examples =
        map (render_example sh)
          (filter (\<lambda>example. matches_for_command_with_options env p example None True = []) examples)
      in if unmatched_examples = [] then Ok () else Err (ExampleDidNotMatch rules unmatched_examples None))"

fun validate_not_match_examples ::
  "host_env \<Rightarrow> shlex_lib \<Rightarrow> policy \<Rightarrow> ustring list list \<Rightarrow> (unit, exec_error) result" where
  "validate_not_match_examples env sh p [] = Ok ()"
| "validate_not_match_examples env sh p (example # examples) =
     (case first_opt (matches_for_command_with_options env p example None True) of
        Some rule \<Rightarrow> Err (ExampleDidMatch rule (render_example sh example) None)
      | None \<Rightarrow> validate_not_match_examples env sh p examples)"

section \<open>The builder\<close>

record pending_example_validation =
  pv_rules :: "prefix_rule list"
  pv_matches :: "ustring list list"
  pv_not_matches :: "ustring list list"
  pv_location :: "error_location option"

record policy_builder =
  pb_rules_by_program :: rule_map
  pb_network_rules :: "network_rule list"
  pb_host_executables_by_name :: "ustring \<Rightarrow> path list option"
  pending_example_validations :: "pending_example_validation list"

definition new_builder :: policy_builder where
  "new_builder =
     \<lparr>pb_rules_by_program = [], pb_network_rules = [], pb_host_executables_by_name = Map.empty,
      pending_example_validations = []\<rparr>"

definition add_rule :: "policy_builder \<Rightarrow> prefix_rule \<Rightarrow> policy_builder" where
  "add_rule b rule = b\<lparr>pb_rules_by_program := mm_insert (rule_program rule) rule (pb_rules_by_program b)\<rparr>"

definition builder_add_network_rule :: "policy_builder \<Rightarrow> network_rule \<Rightarrow> policy_builder" where
  "builder_add_network_rule b rule = b\<lparr>pb_network_rules := pb_network_rules b @ [rule]\<rparr>"

definition add_host_executable :: "policy_builder \<Rightarrow> ustring \<Rightarrow> path list \<Rightarrow> policy_builder" where
  "add_host_executable b name paths =
     b\<lparr>pb_host_executables_by_name := (pb_host_executables_by_name b)(name \<mapsto> paths)\<rparr>"

definition add_pending_example_validation ::
  "policy_builder \<Rightarrow> prefix_rule list \<Rightarrow> ustring list list \<Rightarrow> ustring list list \<Rightarrow> error_location option \<Rightarrow>
   policy_builder" where
  "add_pending_example_validation b rules ms not_ms location =
     b\<lparr>pending_example_validations := pending_example_validations b @
        [\<lparr>pv_rules = rules, pv_matches = ms, pv_not_matches = not_ms, pv_location = location\<rparr>]\<rparr>"

definition attach_validation_location :: "error_location option \<Rightarrow> exec_error \<Rightarrow> exec_error" where
  "attach_validation_location location e = (case location of Some l \<Rightarrow> with_location e l | None \<Rightarrow> e)"

definition validation_policy :: "policy_builder \<Rightarrow> pending_example_validation \<Rightarrow> policy" where
  "validation_policy b v =
     \<lparr>rules_by_program = fold (\<lambda>rule m. mm_insert (rule_program rule) rule m) (pv_rules v) [],
      network_rules = [], host_executables_by_name = pb_host_executables_by_name b\<rparr>"

fun validate_pending ::
  "host_env \<Rightarrow> shlex_lib \<Rightarrow> policy_builder \<Rightarrow> pending_example_validation list \<Rightarrow> (unit, exec_error) result" where
  "validate_pending env sh b [] = Ok ()"
| "validate_pending env sh b (v # vs) =
     result_bind
       (map_err (attach_validation_location (pv_location v))
         (validate_not_match_examples env sh (validation_policy b v) (pv_not_matches v)))
       (\<lambda>_. result_bind
         (map_err (attach_validation_location (pv_location v))
           (validate_match_examples env sh (validation_policy b v) (pv_rules v) (pv_matches v)))
         (\<lambda>_. validate_pending env sh b vs))"

definition validate_pending_examples_from ::
  "host_env \<Rightarrow> shlex_lib \<Rightarrow> policy_builder \<Rightarrow> nat \<Rightarrow> (unit, exec_error) result" where
  "validate_pending_examples_from env sh b start = validate_pending env sh b (drop start (pending_example_validations b))"

definition build :: "policy_builder \<Rightarrow> policy" where
  "build b =
     \<lparr>rules_by_program = pb_rules_by_program b, network_rules = pb_network_rules b,
      host_executables_by_name = pb_host_executables_by_name b\<rparr>"

section \<open>Arguments of the built-in functions\<close>

definition string_or :: "(ustring \<Rightarrow> exec_error) \<Rightarrow> ustring \<Rightarrow> starlark_value \<Rightarrow> (ustring, exec_error) result" where
  "string_or err msg v =
     (case unpack_str v of Some s \<Rightarrow> Ok s | None \<Rightarrow> Err (err (msg @ str '' (got '' @ value_type v @ str '')'')))"

definition parse_pattern_token :: "starlark_value \<Rightarrow> (pattern_token, exec_error) result" where
  "parse_pattern_token v =
     (case v of
        StringValue s \<Rightarrow> Ok (Single s)
      | ListValue vs \<Rightarrow>
          result_bind (try_map (string_or InvalidPattern (str ''pattern alternative must be a string'')) vs)
            (\<lambda>tokens.
               (case tokens of
                  [] \<Rightarrow> Err (InvalidPattern (str ''pattern alternatives cannot be empty''))
                | [single] \<Rightarrow> Ok (Single single)
                | _ \<Rightarrow> Ok (Alts tokens)))
      | OtherValue _ \<Rightarrow>
          Err (InvalidPattern (str ''pattern element must be a string or list of strings (got '' @ value_type v @ str '')'')))"

definition parse_pattern :: "starlark_value list \<Rightarrow> (pattern_token list, exec_error) result" where
  "parse_pattern vs =
     result_bind (try_map parse_pattern_token vs)
       (\<lambda>tokens. if tokens = [] then Err (InvalidPattern (str ''pattern cannot be empty'')) else Ok tokens)"

definition parse_string_example :: "shlex_lib \<Rightarrow> ustring \<Rightarrow> (ustring list, exec_error) result" where
  "parse_string_example sh raw =
     (case shlex_split sh raw of
        None \<Rightarrow> Err (InvalidExample (str ''example string has invalid shell syntax''))
      | Some tokens \<Rightarrow>
          if tokens = [] then Err (InvalidExample (str ''example cannot be an empty string'')) else Ok tokens)"

definition parse_list_example :: "starlark_value list \<Rightarrow> (ustring list, exec_error) result" where
  "parse_list_example vs =
     result_bind (try_map (string_or InvalidExample (str ''example tokens must be strings'')) vs)
       (\<lambda>tokens.
          if tokens = [] then Err (InvalidExample (str ''example cannot be an empty list'')) else Ok tokens)"

definition parse_example :: "shlex_lib \<Rightarrow> starlark_value \<Rightarrow> (ustring list, exec_error) result" where
  "parse_example sh v =
     (case v of
        StringValue raw \<Rightarrow> parse_string_example sh raw
      | ListValue vs \<Rightarrow> parse_list_example vs
      | OtherValue _ \<Rightarrow>
          Err (InvalidExample (str ''example must be a string or list of strings (got '' @ value_type v @ str '')'')))"

definition parse_examples :: "shlex_lib \<Rightarrow> starlark_value list \<Rightarrow> (ustring list list, exec_error) result" where
  "parse_examples sh vs = try_map (parse_example sh) vs"

definition parse_optional_examples ::
  "shlex_lib \<Rightarrow> starlark_value list option \<Rightarrow> (ustring list list, exec_error) result" where
  "parse_optional_examples sh vs = (case vs of None \<Rightarrow> Ok [] | Some vs \<Rightarrow> parse_examples sh vs)"

definition parse_literal_absolute_path :: "host_env \<Rightarrow> ustring \<Rightarrow> (path, exec_error) result" where
  "parse_literal_absolute_path env raw =
     (if \<not> is_absolute (path_components raw) then
        Err (InvalidRule (str ''host_executable paths must be absolute (got '' @ raw @ str '')''))
      else map_err (\<lambda>e. InvalidRule (str ''invalid absolute path `'' @ raw @ str ''`: '' @ io_message e))
             (from_absolute_path env raw))"

definition bare_name_message :: "ustring \<Rightarrow> ustring" where
  "bare_name_message name =
     str ''host_executable name must be a bare executable name (got '' @ name @ str '')''"

definition validate_host_executable_name :: "ustring \<Rightarrow> (unit, exec_error) result" where
  "validate_host_executable_name name =
     (if name = [] then Err (InvalidRule (str ''host_executable name cannot be empty''))
      else if length (path_components name) \<noteq> 1 \<or> path_file_name (path_components name) \<noteq> Some name then
        Err (InvalidRule (bare_name_message name))
      else Ok ())"

definition parse_network_rule_decision :: "ustring \<Rightarrow> (decision, exec_error) result" where
  "parse_network_rule_decision raw = (if raw = str ''deny'' then Ok Forbidden else parse_decision raw)"

definition check_justification :: "ustring option \<Rightarrow> (ustring option, exec_error) result" where
  "check_justification justification =
     (if is_some_and justification (\<lambda>raw. trim raw = [])
      then Err (InvalidRule (str ''justification cannot be empty'')) else Ok justification)"

section \<open>The built-in functions\<close>

definition rules_of_pattern ::
  "pattern_token list \<Rightarrow> decision \<Rightarrow> ustring option \<Rightarrow> prefix_rule list" where
  "rules_of_pattern tokens d justification =
     map (\<lambda>head. \<lparr>rule_pattern = \<lparr>pat_first = head, pat_rest = tl tokens\<rparr>, rule_decision = d,
                   rule_justification = justification\<rparr>)
       (token_alternatives (hd tokens))"

definition prefix_rule_builtin ::
  "shlex_lib \<Rightarrow> starlark_value list \<Rightarrow> ustring option \<Rightarrow> starlark_value list option \<Rightarrow> starlark_value list option \<Rightarrow>
   ustring option \<Rightarrow> error_location option \<Rightarrow> policy_builder \<Rightarrow> (policy_builder, exec_error) result" where
  "prefix_rule_builtin sh pattern d ms not_ms justification location b =
     result_bind (case d of Some raw \<Rightarrow> parse_decision raw | None \<Rightarrow> Ok Allow)
       (\<lambda>d. result_bind (check_justification justification)
       (\<lambda>justification. result_bind (parse_pattern pattern)
       (\<lambda>tokens. result_bind (parse_optional_examples sh ms)
       (\<lambda>ms. result_bind (parse_optional_examples sh not_ms)
       (\<lambda>not_ms.
          let rules = rules_of_pattern tokens d justification
          in Ok (foldl add_rule (add_pending_example_validation b rules ms not_ms location) rules))))))"

definition network_rule_builtin ::
  "ustring \<Rightarrow> ustring \<Rightarrow> ustring \<Rightarrow> ustring option \<Rightarrow> policy_builder \<Rightarrow> (policy_builder, exec_error) result" where
  "network_rule_builtin host protocol d justification b =
     result_bind (parse_protocol protocol)
       (\<lambda>protocol. result_bind (parse_network_rule_decision d)
       (\<lambda>d. result_bind (check_justification justification)
       (\<lambda>justification. result_bind (normalize_network_rule_host host)
       (\<lambda>host. Ok (builder_add_network_rule b
          \<lparr>net_host = host, net_protocol = protocol, net_decision = d, net_justification = justification\<rparr>)))))"

definition basename_message :: "ustring \<Rightarrow> ustring \<Rightarrow> ustring" where
  "basename_message raw name =
     str ''host_executable path `'' @ raw @ str ''` must have basename `'' @ name @ str ''`''"

fun parse_host_paths ::
  "host_env \<Rightarrow> ustring \<Rightarrow> path list \<Rightarrow> starlark_value list \<Rightarrow> (path list, exec_error) result" where
  "parse_host_paths env name parsed_paths [] = Ok parsed_paths"
| "parse_host_paths env name parsed_paths (v # vs) =
     result_bind (string_or InvalidRule (str ''host_executable paths must be strings'') v)
       (\<lambda>raw. result_bind (parse_literal_absolute_path env raw)
       (\<lambda>p.
          if executable_path_lookup_key p \<noteq> Some (executable_lookup_key name)
          then Err (InvalidRule (basename_message raw name))
          else parse_host_paths env name
                 (if list_ex (\<lambda>existing. existing = p) parsed_paths then parsed_paths else parsed_paths @ [p]) vs))"

definition host_executable_builtin ::
  "host_env \<Rightarrow> ustring \<Rightarrow> starlark_value list \<Rightarrow> policy_builder \<Rightarrow> (policy_builder, exec_error) result" where
  "host_executable_builtin env name paths b =
     result_bind (validate_host_executable_name name)
       (\<lambda>_. result_bind (parse_host_paths env name [] paths)
       (\<lambda>parsed_paths. Ok (add_host_executable b (executable_lookup_key name) parsed_paths)))"

fun policy_builtins :: "host_env \<Rightarrow> shlex_lib \<Rightarrow> policy_call \<Rightarrow> policy_builder \<Rightarrow> (policy_builder, exec_error) result" where
  "policy_builtins env sh (PrefixRuleCall pattern d ms not_ms justification location) b =
     prefix_rule_builtin sh pattern d ms not_ms justification (map_option shift_location location) b"
| "policy_builtins env sh (NetworkRuleCall host protocol d justification) b =
     network_rule_builtin host protocol d justification b"
| "policy_builtins env sh (HostExecutableCall name paths) b = host_executable_builtin env name paths b"

section \<open>Parsing files\<close>

fun run_calls ::
  "host_env \<Rightarrow> shlex_lib \<Rightarrow> policy_call list \<Rightarrow> policy_builder \<Rightarrow> policy_builder \<times> (unit, exec_error) result" where
  "run_calls env sh [] b = (b, Ok ())"
| "run_calls env sh (c # cs) b =
     (case policy_builtins env sh c b of Ok b' \<Rightarrow> run_calls env sh cs b' | Err e \<Rightarrow> (b, Err e))"

definition starlark_error :: "starlark_failure \<Rightarrow> exec_error" where
  "starlark_error f = StarlarkError (fst f) (snd f)"

definition parse ::
  "host_env \<Rightarrow> shlex_lib \<Rightarrow> starlark_lib \<Rightarrow> ustring \<Rightarrow> ustring \<Rightarrow> policy_builder \<Rightarrow>
   policy_builder \<times> (unit, exec_error) result" where
  "parse env sh sl policy_identifier policy_file_contents b =
     (let pending_validation_count = length (pending_example_validations b)
      in case run_module sl policy_identifier policy_file_contents of
           Err f \<Rightarrow> (b, Err (starlark_error f))
         | Ok (calls, ending) \<Rightarrow>
             (case run_calls env sh calls b of
                (b', Err e) \<Rightarrow> (b', Err (starlark_error (wrap_error sl e)))
              | (b', Ok _) \<Rightarrow>
                  (case ending of
                     Some f \<Rightarrow> (b', Err (starlark_error f))
                   | None \<Rightarrow> (b', validate_pending_examples_from env sh b' pending_validation_count))))"

datatype load_error = FailedToRead ustring io_error | FailedToParse ustring exec_error

fun parse_files ::
  "host_env \<Rightarrow> shlex_lib \<Rightarrow> starlark_lib \<Rightarrow> (ustring \<Rightarrow> (ustring, io_error) result) \<Rightarrow> ustring list \<Rightarrow>
   policy_builder \<Rightarrow> (policy_builder, load_error) result" where
  "parse_files env sh sl read [] b = Ok b"
| "parse_files env sh sl read (policy_path # paths) b =
     (case read policy_path of
        Err e \<Rightarrow> Err (FailedToRead policy_path e)
      | Ok contents \<Rightarrow>
          (case parse env sh sl policy_path contents b of
             (b', Err e) \<Rightarrow> Err (FailedToParse policy_path e)
           | (b', Ok _) \<Rightarrow> parse_files env sh sl read paths b'))"

definition load_policies ::
  "host_env \<Rightarrow> shlex_lib \<Rightarrow> starlark_lib \<Rightarrow> (ustring \<Rightarrow> (ustring, io_error) result) \<Rightarrow> ustring list \<Rightarrow>
   (policy, load_error) result" where
  "load_policies env sh sl read paths =
     result_bind (parse_files env sh sl read paths new_builder) (\<lambda>b. Ok (build b))"

section \<open>The invariant of the builder\<close>

definition hosts_ok :: "(ustring \<Rightarrow> path list option) \<Rightarrow> bool" where
  "hosts_ok hosts \<longleftrightarrow>
     (\<forall>name paths. hosts name = Some paths \<longrightarrow>
        distinct paths \<and> list_all (\<lambda>p. path_file_name p = Some name) paths)"

definition builder_inv :: "policy_builder \<Rightarrow> bool" where
  "builder_inv b \<longleftrightarrow> wf_policy (build b) \<and> hosts_ok (pb_host_executables_by_name b) \<and>
     (\<forall>v \<in> set (pending_example_validations b). \<forall>r \<in> set (pv_rules v).
        r \<in> set (mm_get (rule_program r) (pb_rules_by_program b)))"

lemma builder_inv_new: "builder_inv new_builder"
  by (simp add: builder_inv_def new_builder_def build_def wf_policy_def hosts_ok_def)

lemma foldl_add_rule:
  "foldl add_rule b rules =
     b\<lparr>pb_rules_by_program := fold (\<lambda>r. mm_insert (rule_program r) r) rules (pb_rules_by_program b)\<rparr>"
  by (induction rules arbitrary: b) (simp_all add: add_rule_def)

lemma mm_get_fold_rules:
  "mm_get k (fold (\<lambda>r. mm_insert (rule_program r) r) rules m) = mm_get k m @ filter (\<lambda>r. rule_program r = k) rules"
  by (induction rules arbitrary: m) auto

lemma wf_fold_rules:
  "distinct (map fst m) \<and> list_all (\<lambda>(k, rs). list_all (\<lambda>r. rule_program r = k) rs) m \<Longrightarrow>
   distinct (map fst (fold (\<lambda>r. mm_insert (rule_program r) r) rules m)) \<and>
   list_all (\<lambda>(k, rs). list_all (\<lambda>r. rule_program r = k) rs) (fold (\<lambda>r. mm_insert (rule_program r) r) rules m)"
  by (induction rules arbitrary: m) (simp_all add: mm_insert_distinct list_all_mm_insert)

lemma prefix_rule_builtin_Ok:
  assumes "prefix_rule_builtin sh pattern d ms not_ms j l b = Ok b'"
  obtains rules ms' not_ms' where
    "b' = foldl add_rule (add_pending_example_validation b rules ms' not_ms' l) rules"
    "parse_optional_examples sh ms = Ok ms'" "parse_optional_examples sh not_ms = Ok not_ms'"
  using assms by (auto simp: prefix_rule_builtin_def result_bind_Ok Let_def)

lemma builder_inv_prefix_rule:
  assumes "builder_inv b" "prefix_rule_builtin sh pattern d ms not_ms j l b = Ok b'"
  shows "builder_inv b'"
proof -
  from assms(2) obtain rules ms' not_ms' where
    b': "b' = foldl add_rule (add_pending_example_validation b rules ms' not_ms' l) rules"
    by (rule prefix_rule_builtin_Ok)
  from wf_fold_rules [of "pb_rules_by_program b" rules] assms(1) show ?thesis
    by (auto simp: b' foldl_add_rule builder_inv_def add_pending_example_validation_def build_def wf_policy_def
        mm_get_fold_rules)
qed

lemma builder_inv_network_rule:
  "builder_inv b \<Longrightarrow> network_rule_builtin host protocol d j b = Ok b' \<Longrightarrow> builder_inv b'"
  by (auto simp: network_rule_builtin_def result_bind_Ok builder_add_network_rule_def builder_inv_def build_def
      wf_policy_def normalize_host_normal)

lemma parse_host_paths_ok:
  "parse_host_paths env name paths vs = Ok paths' \<Longrightarrow>
   distinct paths \<and> list_all (\<lambda>p. path_file_name p = Some name) paths \<Longrightarrow>
   distinct paths' \<and> list_all (\<lambda>p. path_file_name p = Some name) paths'"
proof (induction env name paths vs rule: parse_host_paths.induct)
  case (2 env name paths v vs)
  from 2(2) obtain raw p where r: "string_or InvalidRule (str ''host_executable paths must be strings'') v = Ok raw"
    "parse_literal_absolute_path env raw = Ok p" "path_file_name p = Some name"
    and rest: "parse_host_paths env name
      (if list_ex (\<lambda>existing. existing = p) paths then paths else paths @ [p]) vs = Ok paths'"
    by (auto simp: result_bind_Ok executable_path_lookup_key_def executable_lookup_key_def split: if_splits)
  from r(3) have "\<not> executable_path_lookup_key p \<noteq> Some (executable_lookup_key name)"
    by (simp add: executable_path_lookup_key_def executable_lookup_key_def)
  from 2(1) [OF this rest] 2(3) r(3) show ?case by (auto simp: list_ex_iff)
qed simp

lemma builder_inv_host_executable:
  assumes "builder_inv b" "host_executable_builtin env name vs b = Ok b'"
  shows "builder_inv b'"
proof -
  from assms(2) obtain paths where "parse_host_paths env name [] vs = Ok paths"
    and b': "b' = add_host_executable b name paths"
    by (auto simp: host_executable_builtin_def result_bind_Ok executable_lookup_key_def)
  from parse_host_paths_ok [OF this(1)] assms(1) show ?thesis
    by (auto simp: b' add_host_executable_def builder_inv_def build_def wf_policy_def hosts_ok_def)
qed

lemma builder_inv_call: "builder_inv b \<Longrightarrow> policy_builtins env sh c b = Ok b' \<Longrightarrow> builder_inv b'"
  by (cases c)
    (simp_all only: policy_builtins.simps, erule (1) builder_inv_prefix_rule, erule (1) builder_inv_network_rule,
      erule (1) builder_inv_host_executable)

lemma builder_inv_run: "builder_inv b \<Longrightarrow> run_calls env sh cs b = (b', r) \<Longrightarrow> builder_inv b'"
proof (induction env sh cs b rule: run_calls.induct)
  case (2 env sh c cs b)
  show ?case
  proof (cases "policy_builtins env sh c b")
    case (Inr b1)
    from 2(1) [OF Inr builder_inv_call [OF 2(2) Inr]] 2(3) Inr show ?thesis by simp
  qed (use 2 in simp)
qed simp

lemma builder_inv_parse: "builder_inv b \<Longrightarrow> parse env sh sl i t b = (b', r) \<Longrightarrow> builder_inv b'"
proof -
  assume inv: "builder_inv b" and p: "parse env sh sl i t b = (b', r)"
  show "builder_inv b'"
  proof (cases "run_module sl i t")
    case (Inr m)
    obtain cs ending where m: "m = (cs, ending)" by (cases m)
    obtain b1 r1 where run: "run_calls env sh cs b = (b1, r1)" by (cases "run_calls env sh cs b")
    with p Inr m have "b' = b1" by (cases r1; cases ending) (simp_all add: parse_def)
    with builder_inv_run [OF inv run] show ?thesis by simp
  qed (use inv p in \<open>simp add: parse_def\<close>)
qed

lemma builder_inv_files: "builder_inv b \<Longrightarrow> parse_files env sh sl read ps b = Ok b' \<Longrightarrow> builder_inv b'"
proof (induction ps arbitrary: b)
  case (Cons path ps)
  then obtain t b1 where "parse env sh sl path t b = (b1, Ok ())" "parse_files env sh sl read ps b1 = Ok b'"
    by (auto split: sum.splits prod.splits)
  with Cons.IH builder_inv_parse [OF Cons.prems(1)] show ?case by blast
qed simp

text \<open>
  a policy loaded from any list of files is well-formed: rules are filed under their program,
  network hosts are normalised, and every path declared for a host executable ends in the declared
  name, without repetition.
\<close>

theorem load_policies_wf:
  assumes "load_policies env sh sl read paths = Ok p"
  shows "wf_policy p \<and> hosts_ok (host_executables_by_name p)"
proof -
  from assms obtain b where "parse_files env sh sl read paths new_builder = Ok b" "p = build b"
    by (auto simp: load_policies_def result_bind_Ok)
  with builder_inv_files [OF builder_inv_new] show ?thesis
    by (auto simp: builder_inv_def build_def)
qed

section \<open>Examples hold\<close>

lemma map_filter_eq_Nil: "List.map_filter f xs = [] \<longleftrightarrow> (\<forall>x \<in> set xs. f x = None)"
  by (auto simp: List.map_filter_def filter_empty_conv)

lemma exact_nonempty:
  "(case match_exact_rules p (t # ts) of Some ms \<Rightarrow> ms | None \<Rightarrow> []) \<noteq> [] \<longleftrightarrow>
     (\<exists>r \<in> set (mm_get t (rules_by_program p)). rule_matches r (t # ts) \<noteq> None)"
  by (auto simp: match_exact_rules_def map_filter_eq_Nil)

lemma host_nonempty:
  "match_host_executable_rules env p (t # ts) \<noteq> [] \<longleftrightarrow>
     (\<exists>q name. from_absolute_path env t = Ok q \<and> path_file_name q = Some name \<and>
        \<not> is_some_and (host_executables_by_name p name) (\<lambda>paths. \<not> list_ex (\<lambda>x. x = q) paths) \<and>
        (\<exists>r \<in> set (mm_get name (rules_by_program p)). rule_matches r (name # ts) \<noteq> None))"
  by (auto simp: match_host_executable_rules_def executable_path_lookup_key_def executable_lookup_key_def
      map_filter_eq_Nil mm_get_def split: sum.splits option.splits)

lemma matches_nonempty_iff:
  "matches_for_command_with_options env p (t # ts) None True \<noteq> [] \<longleftrightarrow>
     (\<exists>r \<in> set (mm_get t (rules_by_program p)). rule_matches r (t # ts) \<noteq> None) \<or>
     match_host_executable_rules env p (t # ts) \<noteq> []"
  unfolding exact_nonempty [symmetric]
  by (auto simp: matches_for_command_with_options_def split: option.splits list.splits)

text \<open>A command that some rules match is matched when there are more rules.\<close>

lemma matches_more_rules:
  assumes "matches_for_command_with_options env p cmd None True \<noteq> []"
    "host_executables_by_name p' = host_executables_by_name p"
    "\<And>k. set (mm_get k (rules_by_program p)) \<subseteq> set (mm_get k (rules_by_program p'))"
  shows "matches_for_command_with_options env p' cmd None True \<noteq> []"
proof (cases cmd)
  case Nil
  with assms(1) show ?thesis
    by (simp add: matches_for_command_with_options_def match_exact_rules_def match_host_executable_rules_def)
next
  case (Cons t ts)
  from assms(1) have "(\<exists>r \<in> set (mm_get t (rules_by_program p)). rule_matches r (t # ts) \<noteq> None) \<or>
      match_host_executable_rules env p (t # ts) \<noteq> []"
    unfolding Cons matches_nonempty_iff .
  then show ?thesis unfolding Cons matches_nonempty_iff
  proof (elim disjE)
    assume "match_host_executable_rules env p (t # ts) \<noteq> []"
    then have "match_host_executable_rules env p' (t # ts) \<noteq> []"
      using assms(2,3) unfolding host_nonempty by (metis in_mono)
    then show "(\<exists>r \<in> set (mm_get t (rules_by_program p')). rule_matches r (t # ts) \<noteq> None) \<or>
      match_host_executable_rules env p' (t # ts) \<noteq> []" by blast
  qed (use assms(3) in blast)
qed

lemma validate_match_examples_Ok:
  "validate_match_examples env sh p rules examples = Ok u \<longleftrightarrow>
     list_all (\<lambda>ex. matches_for_command_with_options env p ex None True \<noteq> []) examples"
  by (auto simp: validate_match_examples_def Let_def list_all_iff filter_empty_conv)

lemma validate_not_match_examples_Ok:
  "validate_not_match_examples env sh p examples = Ok u \<longleftrightarrow>
     list_all (\<lambda>ex. matches_for_command_with_options env p ex None True = []) examples"
  by (induction examples) (auto split: option.splits simp: first_opt_def split: list.splits)

definition examples_hold :: "host_env \<Rightarrow> policy_builder \<Rightarrow> pending_example_validation \<Rightarrow> bool" where
  "examples_hold env b v \<longleftrightarrow>
     list_all (\<lambda>ex. matches_for_command_with_options env (validation_policy b v) ex None True \<noteq> []) (pv_matches v) \<and>
     list_all (\<lambda>ex. matches_for_command_with_options env (validation_policy b v) ex None True = []) (pv_not_matches v)"

lemma map_err_eq_Ok: "map_err f r = Ok a \<longleftrightarrow> r = Ok a"
  by (cases r) auto

lemma validate_pending_Ok:
  "validate_pending env sh b vs = Ok u \<longleftrightarrow> list_all (examples_hold env b) vs"
  by (induction vs)
    (auto simp: result_bind_Ok map_err_eq_Ok validate_match_examples_Ok validate_not_match_examples_Ok examples_hold_def)

lemma examples_hold_build:
  assumes "builder_inv b" "v \<in> set (pending_example_validations b)" "examples_hold env b v" "ex \<in> set (pv_matches v)"
  shows "matches_for_command_with_options env (build b) ex None True \<noteq> []"
proof (rule matches_more_rules [of env "validation_policy b v"])
  show "matches_for_command_with_options env (validation_policy b v) ex None True \<noteq> []"
    using assms(3,4) by (auto simp: examples_hold_def list_all_iff)
  show "set (mm_get k (rules_by_program (validation_policy b v))) \<subseteq> set (mm_get k (rules_by_program (build b)))" for k
    using assms(1,2) by (auto simp: validation_policy_def build_def mm_get_fold_rules builder_inv_def)
qed (simp add: validation_policy_def build_def)


section \<open>Instances\<close>

definition sample_shlex :: shlex_lib where
  "sample_shlex = \<lparr>shlex_split = (\<lambda>s. Some (filter (\<lambda>w. w \<noteq> []) (split_char 32 s))), shlex_try_join = (\<lambda>ws. Some (join [32] ws))\<rparr>"

definition sample_starlark :: starlark_lib where
  "sample_starlark =
     \<lparr>run_module = (\<lambda>_ _. Ok
        ([PrefixRuleCall [ListValue [StringValue (str ''git''), StringValue (str ''hg'')], StringValue (str ''push'')]
            (Some (str ''forbidden'')) (Some [StringValue (str ''/usr/bin/git push origin'')])
            (Some [ListValue [StringValue (str ''git''), StringValue (str ''log'')]]) None None,
          HostExecutableCall (str ''git'') [StringValue (str ''/usr/bin/git'')],
          NetworkRuleCall (str ''Example.COM:443'') (str ''https'') (str ''deny'') None], None)),
      wrap_error = (\<lambda>_. ([], None))\<rparr>"

definition sample_parse :: "policy_builder \<times> (unit, exec_error) result" where
  "sample_parse = parse sample_env sample_shlex sample_starlark (str ''a.rules'') [] new_builder"


theorem load_policies_wf_witness:
  "map net_host (network_rules (projr (load_policies sample_env sample_shlex sample_starlark (\<lambda>_. Ok []) [str ''a.rules'']))) =
     [str ''example.com''] \<and>
   wf_policy (projr (load_policies sample_env sample_shlex sample_starlark (\<lambda>_. Ok []) [str ''a.rules'']))"
proof -
  let ?l = "load_policies sample_env sample_shlex sample_starlark (\<lambda>_. Ok []) [str ''a.rules'']"
  have a: "is_ok ?l" "map net_host (network_rules (projr ?l)) = [str ''example.com'']" by code_simp+
  then have "?l = Ok (projr ?l)" by (auto simp: is_ok_def split: sum.splits)
  from load_policies_wf [OF this] a(2) show ?thesis by simp
qed

end
