(* ===== verification/Exec_Amend.thy ===== *)
theory Exec_Amend
  imports Exec_Rule
begin

text \<open>
  Changing policy files: appending rules (\<open>codex-rs/execpolicy/src/amend.rs\<close>) and the one-shot
  migration that removes banned allow rules (\<open>sandbox_migration.rs\<close>). The operating system is a
  record of the file operations the code calls, over an abstract world; an operation returns the
  world it leaves, also when it fails. Its laws say what a successful operation does to the bytes of
  the files. Printing and reading JSON strings (crate serde\_json) are parameters.

  Lemmas: appending a rule keeps the old text and adds the rule as a line, once; the migration
  removes exactly the banned rules, among them the ones that the first part writes, and runs once.
\<close>

section \<open>The operating system\<close>

record 'w amend_os =
  os_create_dir :: "'w \<Rightarrow> path \<Rightarrow> 'w \<times> (unit, io_error) result"
  os_open_append :: "'w \<Rightarrow> path \<Rightarrow> 'w \<times> (unit, io_error) result"
  os_lock :: "'w \<Rightarrow> path \<Rightarrow> 'w \<times> (unit, io_error) result"
  os_seek_start :: "'w \<Rightarrow> path \<Rightarrow> 'w \<times> (unit, io_error) result"
  os_read_to_string :: "'w \<Rightarrow> path \<Rightarrow> 'w \<times> (ustring, io_error) result"
  os_append :: "'w \<Rightarrow> path \<Rightarrow> ustring \<Rightarrow> 'w \<times> (unit, io_error) result"
  os_try_exists :: "'w \<Rightarrow> path \<Rightarrow> 'w \<times> (bool, io_error) result"
  os_open_read_write :: "'w \<Rightarrow> path \<Rightarrow> 'w \<times> (unit, io_error) result"
  os_write_start :: "'w \<Rightarrow> path \<Rightarrow> ustring \<Rightarrow> 'w \<times> (unit, io_error) result"
  os_set_len :: "'w \<Rightarrow> path \<Rightarrow> nat \<Rightarrow> 'w \<times> (unit, io_error) result"
  os_create_dir_all :: "'w \<Rightarrow> path \<Rightarrow> 'w \<times> (unit, io_error) result"
  os_persist_new :: "'w \<Rightarrow> path \<Rightarrow> path \<Rightarrow> ustring \<Rightarrow> 'w \<times> (unit, io_error) result"
    \<comment> \<open>directory of the temporary file, target that must not exist, text\<close>

definition bind_io ::
  "'w \<times> ('a, 'e) result \<Rightarrow> ('a \<Rightarrow> 'w \<Rightarrow> 'w \<times> ('b, 'e) result) \<Rightarrow> 'w \<times> ('b, 'e) result" where
  "bind_io r f = (case r of (w, Err e) \<Rightarrow> (w, Err e) | (w, Ok a) \<Rightarrow> f a w)"

definition io_err :: "('e \<Rightarrow> 'f) \<Rightarrow> 'w \<times> ('a, 'e) result \<Rightarrow> 'w \<times> ('a, 'f) result" where
  "io_err f r = (fst r, map_err f (snd r))"

lemma bind_io_Ok: "bind_io r f = (w', Ok b) \<longleftrightarrow> (\<exists>w a. r = (w, Ok a) \<and> f a w = (w', Ok b))"
  by (auto simp: bind_io_def split: prod.splits sum.splits)

lemma io_err_Ok: "io_err f r = (w, Ok a) \<longleftrightarrow> r = (w, Ok a)"
  by (cases r; cases "snd r") (auto simp: io_err_def)

section \<open>Appending rules (amend.rs)\<close>

text \<open>The payload of \<open>InvalidNetworkRule\<close> is a text: that of an error, represented by the error, or a literal.\<close>

datatype amend_error =
  EmptyPrefix
| InvalidNetworkRule "exec_error + ustring"
| MissingParent path
| CreatePolicyDir path io_error
| SerializePrefix ustring
| SerializeNetworkRule ustring
| OpenPolicyFile path io_error
| WritePolicyFile path io_error
| LockPolicyFile path io_error
| SeekPolicyFile path io_error
| ReadPolicyFile path io_error
| PolicyMetadata path io_error

definition append_locked_line :: "'w amend_os \<Rightarrow> path \<Rightarrow> ustring \<Rightarrow> 'w \<Rightarrow> 'w \<times> (unit, amend_error) result" where
  "append_locked_line os policy_path line w =
     bind_io (io_err (OpenPolicyFile policy_path) (os_open_append os w policy_path))
       (\<lambda>_ w. bind_io (io_err (LockPolicyFile policy_path) (os_lock os w policy_path))
       (\<lambda>_ w. bind_io (io_err (SeekPolicyFile policy_path) (os_seek_start os w policy_path))
       (\<lambda>_ w. bind_io (io_err (ReadPolicyFile policy_path) (os_read_to_string os w policy_path))
       (\<lambda>contents w.
          if list_ex (\<lambda>existing. existing = line) (lines contents) then (w, Ok ())
          else bind_io
            (if contents \<noteq> [] \<and> last contents \<noteq> LF
             then io_err (WritePolicyFile policy_path) (os_append os w policy_path [LF]) else (w, Ok ()))
            (\<lambda>_ w. io_err (WritePolicyFile policy_path) (os_append os w policy_path (line @ [LF])))))))"

definition append_rule_line :: "'w amend_os \<Rightarrow> path \<Rightarrow> ustring \<Rightarrow> 'w \<Rightarrow> 'w \<times> (unit, amend_error) result" where
  "append_rule_line os policy_path rule w =
     (case path_parent policy_path of
        None \<Rightarrow> (w, Err (MissingParent policy_path))
      | Some dir \<Rightarrow>
          (case os_create_dir os w dir of
             (w, Ok _) \<Rightarrow> append_locked_line os policy_path rule w
           | (w, Err source) \<Rightarrow>
               if io_kind source = AlreadyExists then append_locked_line os policy_path rule w
               else (w, Err (CreatePolicyDir dir source))))"

type_synonym json_printer = "ustring \<Rightarrow> (ustring, ustring) result"

definition allow_rule_line :: "ustring list \<Rightarrow> ustring" where
  "allow_rule_line tokens =
     str ''prefix_rule(pattern='' @ str ''['' @ join (str '', '') tokens @ str '']'' @
     str '', decision=\"allow\")''"

definition blocking_append_allow_prefix_rule ::
  "json_printer \<Rightarrow> 'w amend_os \<Rightarrow> path \<Rightarrow> ustring list \<Rightarrow> 'w \<Rightarrow> 'w \<times> (unit, amend_error) result" where
  "blocking_append_allow_prefix_rule to_json os policy_path pre w =
     (if pre = [] then (w, Err EmptyPrefix)
      else (case try_map to_json pre of
              Err e \<Rightarrow> (w, Err (SerializePrefix e))
            | Ok tokens \<Rightarrow> append_rule_line os policy_path (allow_rule_line tokens) w))"

fun network_decision_text :: "decision \<Rightarrow> ustring" where
  "network_decision_text Allow = str ''allow''"
| "network_decision_text Prompt = str ''prompt''"
| "network_decision_text Forbidden = str ''deny''"

definition network_rule_line :: "ustring \<Rightarrow> ustring \<Rightarrow> ustring \<Rightarrow> ustring option \<Rightarrow> ustring" where
  "network_rule_line host protocol d justification =
     str ''network_rule('' @
     join (str '', '')
       ([str ''host='' @ host, str ''protocol='' @ protocol, str ''decision='' @ d] @
        (case justification of None \<Rightarrow> [] | Some j \<Rightarrow> [str ''justification='' @ j])) @
     str '')''"

definition serialize_optional :: "json_printer \<Rightarrow> ustring option \<Rightarrow> (ustring option, ustring) result" where
  "serialize_optional to_json x =
     (case x of None \<Rightarrow> Ok None | Some s \<Rightarrow> result_bind (to_json s) (\<lambda>t. Ok (Some t)))"

definition blocking_append_network_rule ::
  "json_printer \<Rightarrow> 'w amend_os \<Rightarrow> path \<Rightarrow> ustring \<Rightarrow> network_rule_protocol \<Rightarrow> decision \<Rightarrow> ustring option \<Rightarrow> 'w \<Rightarrow>
   'w \<times> (unit, amend_error) result" where
  "blocking_append_network_rule to_json os policy_path host protocol d justification w =
     (case normalize_network_rule_host host of
        Err e \<Rightarrow> (w, Err (InvalidNetworkRule (Inl e)))
      | Ok host \<Rightarrow>
          if is_some_and justification (\<lambda>raw. trim raw = []) 
          then (w, Err (InvalidNetworkRule (Inr (str ''justification cannot be empty''))))
          else
            (case result_bind (to_json host) (\<lambda>host.
                  result_bind (to_json (as_policy_string protocol)) (\<lambda>protocol.
                  result_bind (to_json (network_decision_text d)) (\<lambda>d.
                  result_bind (serialize_optional to_json justification) (\<lambda>justification.
                    Ok (network_rule_line host protocol d justification))))) of
               Err e \<Rightarrow> (w, Err (SerializeNetworkRule e))
             | Ok rule \<Rightarrow> append_rule_line os policy_path rule w))"

section \<open>The migration (sandbox\_migration.rs)\<close>

definition MIGRATION_MARKER_FILENAME :: ustring where
  "MIGRATION_MARKER_FILENAME = str ''.sandbox_migration''"

type_synonym json_list_parser = "ustring \<Rightarrow> (ustring list, ustring) result"

definition should_remove_rule :: "json_list_parser \<Rightarrow> ustring list list \<Rightarrow> ustring \<Rightarrow> bool" where
  "should_remove_rule from_json banned_prefixes line =
     (let line = (case strip_suffix [LF] line of Some l \<Rightarrow> l | None \<Rightarrow> line);
          line = (case strip_suffix [CR] line of Some l \<Rightarrow> l | None \<Rightarrow> line)
      in case Option.bind (strip_prefix (str ''prefix_rule(pattern='') line)
                (strip_suffix (str '', decision=\"allow\")'')) of
           None \<Rightarrow> False
         | Some pattern \<Rightarrow>
             (case from_json pattern of
                Err _ \<Rightarrow> False
              | Ok pre \<Rightarrow> map to_ascii_lowercase pre \<in> set banned_prefixes))"

definition strip_banned_allow_rules :: "json_list_parser \<Rightarrow> ustring list list \<Rightarrow> ustring \<Rightarrow> ustring" where
  "strip_banned_allow_rules from_json banned_prefixes contents =
     (let banned_prefixes = map (map to_ascii_lowercase) banned_prefixes
      in concat (filter (\<lambda>line. \<not> should_remove_rule from_json banned_prefixes line)
           (split_inclusive LF contents)))"

definition clean_rules_file ::
  "json_list_parser \<Rightarrow> 'w amend_os \<Rightarrow> path \<Rightarrow> ustring list list \<Rightarrow> 'w \<Rightarrow> 'w \<times> (unit, io_error) result" where
  "clean_rules_file from_json os policy_path banned_prefixes w =
     (case os_read_to_string os w policy_path of
        (w, Err err) \<Rightarrow> if io_kind err = NotFound then (w, Ok ()) else (w, Err err)
      | (w, Ok contents) \<Rightarrow>
          if strip_banned_allow_rules from_json banned_prefixes contents = contents then (w, Ok ())
          else
            (case os_open_read_write os w policy_path of
               (w, Err err) \<Rightarrow> if io_kind err = NotFound then (w, Ok ()) else (w, Err err)
             | (w, Ok _) \<Rightarrow>
                 bind_io (os_read_to_string os w policy_path)
                   (\<lambda>contents w.
                      let retained = strip_banned_allow_rules from_json banned_prefixes contents
                      in if retained = contents then (w, Ok ())
                         else
                           bind_io (os_seek_start os w policy_path)
                             (\<lambda>_ w. bind_io (os_write_start os w policy_path retained)
                             (\<lambda>_ w. os_set_len os w policy_path (byte_len retained))))))"

definition write_migration_marker :: "'w amend_os \<Rightarrow> path \<Rightarrow> path \<Rightarrow> 'w \<Rightarrow> 'w \<times> (unit, io_error) result" where
  "write_migration_marker os codex_home marker_path w =
     bind_io (os_create_dir_all os w codex_home)
       (\<lambda>_ w.
          (case os_persist_new os w codex_home marker_path (str ''v1'' @ [LF]) of
             (w, Ok _) \<Rightarrow> (w, Ok ())
           | (w, Err err) \<Rightarrow> if io_kind err = AlreadyExists then (w, Ok ()) else (w, Err err)))"

definition marker_path_of :: "path \<Rightarrow> path" where
  "marker_path_of codex_home = path_join codex_home (path_components MIGRATION_MARKER_FILENAME)"

definition prefix_rule_migration ::
  "json_list_parser \<Rightarrow> 'w amend_os \<Rightarrow> path \<Rightarrow> path \<Rightarrow> ustring list list \<Rightarrow> 'w \<Rightarrow> 'w \<times> (unit, io_error) result" where
  "prefix_rule_migration from_json os codex_home policy_path banned_prefixes w =
     bind_io (os_try_exists os w (marker_path_of codex_home))
       (\<lambda>there w.
          if there then (w, Ok ())
          else bind_io (clean_rules_file from_json os policy_path banned_prefixes w)
                 (\<lambda>_ w. write_migration_marker os codex_home (marker_path_of codex_home) w))"

section \<open>Laws of the operating system\<close>

text \<open>\<open>files w p\<close> is the bytes of the file at \<open>p\<close>, if there is one.\<close>

definition law_quiet :: "('w \<Rightarrow> path \<Rightarrow> 'w \<times> 'r) \<Rightarrow> ('w \<Rightarrow> path \<Rightarrow> nat list option) \<Rightarrow> bool" where
  "law_quiet operation files \<longleftrightarrow> (\<forall>w p w' r. operation w p = (w', r) \<longrightarrow> files w' = files w)"

definition law_missing ::
  "('w \<Rightarrow> path \<Rightarrow> 'w \<times> ('a, io_error) result) \<Rightarrow> ('w \<Rightarrow> path \<Rightarrow> nat list option) \<Rightarrow> bool" where
  "law_missing operation files \<longleftrightarrow>
     (\<forall>w p w' e. operation w p = (w', Err e) \<longrightarrow> io_kind e = NotFound \<longrightarrow> files w p = None)"

definition law_read :: "'w amend_os \<Rightarrow> ('w \<Rightarrow> path \<Rightarrow> nat list option) \<Rightarrow> bool" where
  "law_read os files \<longleftrightarrow>
     (\<forall>w p w' s. os_read_to_string os w p = (w', Ok s) \<longrightarrow> files w p = Some (utf8_encode s))"

definition law_open_append :: "'w amend_os \<Rightarrow> ('w \<Rightarrow> path \<Rightarrow> nat list option) \<Rightarrow> bool" where
  "law_open_append os files \<longleftrightarrow>
     (\<forall>w p w' u. os_open_append os w p = (w', Ok u) \<longrightarrow>
        files w' = (files w)(p \<mapsto> (case files w p of None \<Rightarrow> [] | Some b \<Rightarrow> b)))"

definition law_append :: "'w amend_os \<Rightarrow> ('w \<Rightarrow> path \<Rightarrow> nat list option) \<Rightarrow> bool" where
  "law_append os files \<longleftrightarrow>
     (\<forall>w p s w' u b. os_append os w p s = (w', Ok u) \<longrightarrow> files w p = Some b \<longrightarrow>
        files w' = (files w)(p \<mapsto> b @ utf8_encode s))"

definition law_write_start :: "'w amend_os \<Rightarrow> ('w \<Rightarrow> path \<Rightarrow> nat list option) \<Rightarrow> bool" where
  "law_write_start os files \<longleftrightarrow>
     (\<forall>w p s w' u b. os_write_start os w p s = (w', Ok u) \<longrightarrow> files w p = Some b \<longrightarrow>
        files w' = (files w)(p \<mapsto> utf8_encode s @ drop (byte_len s) b))"

definition law_set_len :: "'w amend_os \<Rightarrow> ('w \<Rightarrow> path \<Rightarrow> nat list option) \<Rightarrow> bool" where
  "law_set_len os files \<longleftrightarrow>
     (\<forall>w p n w' u b. os_set_len os w p n = (w', Ok u) \<longrightarrow> files w p = Some b \<longrightarrow> n \<le> length b \<longrightarrow>
        files w' = (files w)(p \<mapsto> take n b))"

definition law_exists :: "'w amend_os \<Rightarrow> ('w \<Rightarrow> path \<Rightarrow> nat list option) \<Rightarrow> bool" where
  "law_exists os files \<longleftrightarrow>
     (\<forall>w p w' there. os_try_exists os w p = (w', Ok there) \<longrightarrow> there = (files w p \<noteq> None) \<and> w' = w)"

definition law_persist :: "'w amend_os \<Rightarrow> ('w \<Rightarrow> path \<Rightarrow> nat list option) \<Rightarrow> bool" where
  "law_persist os files \<longleftrightarrow>
     (\<forall>w d p s w' r. os_persist_new os w d p s = (w', r) \<longrightarrow>
        (case r of
           Ok _ \<Rightarrow> files w' = (files w)(p \<mapsto> utf8_encode s)
         | Err e \<Rightarrow> io_kind e = AlreadyExists \<longrightarrow> files w' = files w \<and> files w p \<noteq> None))"

definition amend_laws :: "'w amend_os \<Rightarrow> ('w \<Rightarrow> path \<Rightarrow> nat list option) \<Rightarrow> bool" where
  "amend_laws os files \<longleftrightarrow>
     law_quiet (os_create_dir os) files \<and> law_quiet (os_create_dir_all os) files \<and>
     law_quiet (os_lock os) files \<and> law_quiet (os_seek_start os) files \<and>
     law_quiet (os_read_to_string os) files \<and> law_quiet (os_open_read_write os) files \<and>
     law_missing (os_read_to_string os) files \<and> law_missing (os_open_read_write os) files \<and>
     law_read os files \<and> law_open_append os files \<and> law_append os files \<and> law_write_start os files \<and>
     law_set_len os files \<and> law_exists os files \<and> law_persist os files"

lemma law_quietD: "law_quiet operation files \<Longrightarrow> operation w p = (w', r) \<Longrightarrow> files w' = files w"
  unfolding law_quiet_def by blast

lemma law_missingD:
  "law_missing operation files \<Longrightarrow> operation w p = (w', Err e) \<Longrightarrow> io_kind e = NotFound \<Longrightarrow> files w p = None"
  unfolding law_missing_def by blast

lemma law_readD: "law_read os files \<Longrightarrow> os_read_to_string os w p = (w', Ok s) \<Longrightarrow> files w p = Some (utf8_encode s)"
  unfolding law_read_def by blast

lemma law_open_appendD:
  "law_open_append os files \<Longrightarrow> os_open_append os w p = (w', Ok u) \<Longrightarrow>
   files w' = (files w)(p \<mapsto> (case files w p of None \<Rightarrow> [] | Some b \<Rightarrow> b))"
  unfolding law_open_append_def by blast

lemma law_appendD:
  "law_append os files \<Longrightarrow> os_append os w p s = (w', Ok u) \<Longrightarrow> files w p = Some b \<Longrightarrow>
   files w' = (files w)(p \<mapsto> b @ utf8_encode s)"
  unfolding law_append_def by blast

lemma law_write_startD:
  "law_write_start os files \<Longrightarrow> os_write_start os w p s = (w', Ok u) \<Longrightarrow> files w p = Some b \<Longrightarrow>
   files w' = (files w)(p \<mapsto> utf8_encode s @ drop (byte_len s) b)"
  unfolding law_write_start_def by blast

lemma law_set_lenD:
  "law_set_len os files \<Longrightarrow> os_set_len os w p n = (w', Ok u) \<Longrightarrow> files w p = Some b \<Longrightarrow> n \<le> length b \<Longrightarrow>
   files w' = (files w)(p \<mapsto> take n b)"
  unfolding law_set_len_def by blast

lemma law_existsD:
  "law_exists os files \<Longrightarrow> os_try_exists os w p = (w', Ok there) \<Longrightarrow> there = (files w p \<noteq> None) \<and> w' = w"
  unfolding law_exists_def by blast

lemma law_persistD:
  "law_persist os files \<Longrightarrow> os_persist_new os w d p s = (w', Ok u) \<Longrightarrow> files w' = (files w)(p \<mapsto> utf8_encode s)"
  "law_persist os files \<Longrightarrow> os_persist_new os w d p s = (w', Err e) \<Longrightarrow> io_kind e = AlreadyExists \<Longrightarrow>
   files w' = files w \<and> files w p \<noteq> None"
  unfolding law_persist_def by fastforce+

section \<open>Appending a line\<close>

definition append_line :: "ustring \<Rightarrow> ustring \<Rightarrow> ustring" where
  "append_line contents line =
     (if line \<in> set (lines contents) then contents
      else contents @ (if contents \<noteq> [] \<and> last contents \<noteq> LF then [LF] else []) @ line @ [LF])"

lemma append_locked_line_run:
  assumes laws: "amend_laws os files" and run: "append_locked_line os p line w = (w', Ok ())"
  shows "\<exists>c. (files w p = Some (utf8_encode c) \<or> files w p = None \<and> c = []) \<and>
    files w' = (files w)(p \<mapsto> utf8_encode (append_line c line))"
proof -
  from run obtain w1 w2 w3 w4 c where
    steps: "os_open_append os w p = (w1, Ok ())" "os_lock os w1 p = (w2, Ok ())"
      "os_seek_start os w2 p = (w3, Ok ())" "os_read_to_string os w3 p = (w4, Ok c)"
    and rest: "(if line \<in> set (lines c) then (w4, Ok ())
      else bind_io (if c \<noteq> [] \<and> last c \<noteq> LF then io_err (WritePolicyFile p) (os_append os w4 p [LF]) else (w4, Ok ()))
        (\<lambda>_ w. io_err (WritePolicyFile p) (os_append os w p (line @ [LF])))) = (w', Ok ())"
    by (auto simp: append_locked_line_def bind_io_Ok io_err_Ok list_ex_iff)
  from laws have l: "law_open_append os files" "law_quiet (os_lock os) files" "law_quiet (os_seek_start os) files"
    "law_quiet (os_read_to_string os) files" "law_read os files" "law_append os files"
    by (simp_all add: amend_laws_def)
  have same: "files w4 = files w1" "files w3 = files w1"
    using law_quietD [OF l(2) steps(2)] law_quietD [OF l(3) steps(3)] law_quietD [OF l(4) steps(4)] by simp_all
  note open1 = law_open_appendD [OF l(1) steps(1)]
  have enc: "files w4 p = Some (utf8_encode c)" using law_readD [OF l(5) steps(4)] same by simp
  have old: "files w p = Some (utf8_encode c) \<or> files w p = None \<and> utf8_encode c = []"
    using enc open1 same by (auto split: option.splits)
  moreover have "utf8_encode c = [] \<longleftrightarrow> c = []"
    by (metis byte_len_eq_0 length_0_conv length_utf8_encode)
  moreover have "files w' = (files w4)(p \<mapsto> utf8_encode (append_line c line))"
  proof (cases "line \<in> set (lines c)")
    case True
    with rest enc show ?thesis by (auto simp: append_line_def)
  next
    case False
    show ?thesis
    proof (cases "c \<noteq> [] \<and> last c \<noteq> LF")
      case True
      with rest False obtain w5 where w5: "os_append os w4 p [LF] = (w5, Ok ())"
        "os_append os w5 p (line @ [LF]) = (w', Ok ())" by (auto simp: bind_io_Ok io_err_Ok)
      have f5: "files w5 = (files w4)(p \<mapsto> utf8_encode c @ utf8_encode [LF])"
        using law_appendD [OF l(6) w5(1) enc] .
      then have "files w5 p = Some (utf8_encode c @ utf8_encode [LF])" by simp
      from law_appendD [OF l(6) w5(2) this] f5 False True show ?thesis
        by (auto simp: append_line_def fun_eq_iff)
    next
      case nl: False
      with rest False have "os_append os w4 p (line @ [LF]) = (w', Ok ())"
        by (auto simp: bind_io_def io_err_Ok split: if_splits)
      from law_appendD [OF l(6) this enc] False nl show ?thesis by (auto simp: append_line_def)
    qed
  qed
  ultimately show ?thesis using same(1) open1 by (intro exI [of _ c]) auto
qed

lemma append_line_ends:
  assumes "LF \<notin> set l" "l \<noteq> []" "last l \<noteq> CR"
  shows "prefix c (append_line c l) \<and> l \<in> set (lines (append_line c l)) \<and>
    append_line (append_line c l) l = append_line c l"
proof -
  have one: "lines (l @ [LF]) = [l]" using lines_single [OF assms(1)] strip_cr_id [of l] assms(3) by simp
  have "l \<in> set (lines (append_line c l))"
  proof (cases "l \<in> set (lines c)")
    case False
    define c' where "c' = c @ (if c \<noteq> [] \<and> last c \<noteq> LF then [LF] else [])"
    have "c' = [] \<or> last c' = LF" by (auto simp: c'_def)
    then have "lines (c' @ (l @ [LF])) = lines c' @ [l]" using lines_append one by simp
    with False show ?thesis by (simp add: append_line_def c'_def)
  qed (simp add: append_line_def)
  then show ?thesis by (auto simp: append_line_def)
qed

lemma join_set: "x \<in> set (join sep ws) \<Longrightarrow> x \<in> set sep \<or> (\<exists>w \<in> set ws. x \<in> set w)"
  by (induction sep ws rule: join.induct) auto

lemma allow_rule_line_ok:
  assumes "\<forall>t \<in> set tokens. LF \<notin> set t"
  shows "LF \<notin> set (allow_rule_line tokens)" "allow_rule_line tokens \<noteq> []" "last (allow_rule_line tokens) \<noteq> CR"
proof -
  have "LF \<notin> set (join (str '', '') tokens)" using assms by (auto simp: str_def dest!: join_set)
  then show "LF \<notin> set (allow_rule_line tokens)" by (simp add: allow_rule_line_def str_def)
qed (simp_all add: allow_rule_line_def str_def)

text \<open>
  appending an allow rule keeps the text of the policy file as a prefix of the new text, makes
  the rule a line of it, and appending the same rule again would change nothing; no other file
  changes.
\<close>

theorem append_allow_rule:
  assumes "amend_laws os files" "\<forall>s t. to_json s = Ok t \<longrightarrow> LF \<notin> set t"
    "blocking_append_allow_prefix_rule to_json os p pre w = (w', Ok ())"
  shows "\<exists>c c' tokens. try_map to_json pre = Ok tokens \<and>
    (files w p = Some (utf8_encode c) \<or> files w p = None \<and> c = []) \<and>
    files w' = (files w)(p \<mapsto> utf8_encode c') \<and>
    prefix c c' \<and> allow_rule_line tokens \<in> set (lines c') \<and> append_line c' (allow_rule_line tokens) = c'"
proof -
  from assms(3) obtain tokens where tokens: "try_map to_json pre = Ok tokens"
    and run: "append_rule_line os p (allow_rule_line tokens) w = (w', Ok ())"
    by (auto simp: blocking_append_allow_prefix_rule_def split: if_splits sum.splits)
  then obtain dir w1 r1 where dir: "os_create_dir os w dir = (w1, r1)"
    and run1: "append_locked_line os p (allow_rule_line tokens) w1 = (w', Ok ())"
    by (auto simp: append_rule_line_def split: option.splits prod.splits sum.splits if_splits)
  from assms(1) have "law_quiet (os_create_dir os) files" by (simp add: amend_laws_def)
  then have "files w1 = files w" using dir by (rule law_quietD)
  with append_locked_line_run [OF assms(1) run1] obtain c where
    c: "files w p = Some (utf8_encode c) \<or> files w p = None \<and> c = []"
      "files w' = (files w)(p \<mapsto> utf8_encode (append_line c (allow_rule_line tokens)))" by auto
  have "\<forall>t \<in> set tokens. LF \<notin> set t"
    using assms(2) try_map_set [OF tokens] by blast
  from append_line_ends [OF allow_rule_line_ok [OF this], of c] tokens c show ?thesis by blast
qed

section \<open>Removing banned rules\<close>

lemma strip_banned_eq:
  "strip_banned_allow_rules from_json banned c =
     concat (filter (\<lambda>l. \<not> should_remove_rule from_json (map (map to_ascii_lowercase) banned) l)
       (split_inclusive LF c))"
  by (simp add: strip_banned_allow_rules_def Let_def)

lemma strip_banned_pieces:
  "split_inclusive LF (strip_banned_allow_rules from_json banned c) =
     filter (\<lambda>l. \<not> should_remove_rule from_json (map (map to_ascii_lowercase) banned) l) (split_inclusive LF c)"
  unfolding strip_banned_eq
  by (intro split_inclusive_concat pieces_filter pieces_split_inclusive)

lemma strip_banned_idem [simp]:
  "strip_banned_allow_rules from_json banned (strip_banned_allow_rules from_json banned c) =
     strip_banned_allow_rules from_json banned c"
proof -
  let ?P = "\<lambda>l. \<not> should_remove_rule from_json (map (map to_ascii_lowercase) banned) l"
  have "strip_banned_allow_rules from_json banned (strip_banned_allow_rules from_json banned c) =
      concat (filter ?P (filter ?P (split_inclusive LF c)))"
    by (subst strip_banned_eq) (simp only: strip_banned_pieces)
  then show ?thesis by (simp add: strip_banned_eq)
qed

lemma strip_banned_append:
  assumes "c = [] \<or> last c = LF"
  shows "strip_banned_allow_rules from_json banned (c @ d) =
    strip_banned_allow_rules from_json banned c @ strip_banned_allow_rules from_json banned d"
  using split_inclusive_append [OF assms] by (simp add: strip_banned_eq)

lemma byte_len_concat: "byte_len (concat xs) = sum_list (map byte_len xs)"
  by (induction xs) simp_all

lemma strip_banned_shorter: "byte_len (strip_banned_allow_rules from_json banned c) \<le> byte_len c"
proof -
  have "sum_list (map byte_len (filter P xs)) \<le> sum_list (map byte_len xs)" for P xs
    by (induction xs) auto
  from this [of _ "split_inclusive LF c"] show ?thesis
    by (simp add: strip_banned_eq byte_len_concat [symmetric])
qed

lemma should_remove_allow_rule:
  assumes "from_json (str ''['' @ join (str '', '') tokens @ str '']'') = Ok pre"
    "map to_ascii_lowercase pre \<in> set banned"
  shows "should_remove_rule from_json banned (allow_rule_line tokens @ [LF])"
proof -
  have "last (allow_rule_line tokens) \<noteq> CR" "allow_rule_line tokens \<noteq> []"
    by (simp_all add: allow_rule_line_def str_def)
  then have "strip_suffix [CR] (allow_rule_line tokens) = None"
    by (cases "strip_suffix [CR] (allow_rule_line tokens)") (auto simp: strip_suffix_Some)
  moreover have "strip_suffix [LF] (allow_rule_line tokens @ [LF]) = Some (allow_rule_line tokens)"
    by (simp add: strip_suffix_Some)
  moreover have "Option.bind (strip_prefix (str ''prefix_rule(pattern='') (allow_rule_line tokens))
      (strip_suffix (str '', decision=\"allow\")'')) = Some (str ''['' @ join (str '', '') tokens @ str '']'')"
    by (simp add: allow_rule_line_def strip_suffix_Some)
  ultimately show ?thesis using assms by (simp add: should_remove_rule_def)
qed

text \<open>
  the migration undoes what appending a banned allow rule did: stripping the banned rules from
  the text with the appended rule gives the same as stripping them from the text before, whatever
  the case of the rule's letters; stripping twice is stripping once, and what is kept is a
  subsequence of the lines.
\<close>

theorem strip_undoes_append:
  assumes "c = [] \<or> last c = LF" "LF \<notin> set (allow_rule_line tokens)"
    "from_json (str ''['' @ join (str '', '') tokens @ str '']'') = Ok pre"
    "map to_ascii_lowercase pre \<in> set (map (map to_ascii_lowercase) banned)"
  shows "strip_banned_allow_rules from_json banned (append_line c (allow_rule_line tokens)) =
      strip_banned_allow_rules from_json banned c \<and>
    strip_banned_allow_rules from_json banned (strip_banned_allow_rules from_json banned c) =
      strip_banned_allow_rules from_json banned c \<and>
    subseq (split_inclusive LF (strip_banned_allow_rules from_json banned c)) (split_inclusive LF c)"
proof -
  let ?l = "allow_rule_line tokens @ [LF]"
  have "split_inclusive LF ?l = [?l]"
    using assms(2) split_inclusive_simps(2) [of LF "allow_rule_line tokens" "[]"]
    by (simp add: split_inclusive_simps(1))
  then have "strip_banned_allow_rules from_json banned ?l = []"
    using should_remove_allow_rule [of from_json tokens pre, OF assms(3,4)] by (simp add: strip_banned_eq)
  then have "strip_banned_allow_rules from_json banned (append_line c (allow_rule_line tokens)) =
      strip_banned_allow_rules from_json banned c"
    using strip_banned_append [OF assms(1)] assms(1) by (auto simp: append_line_def)
  then show ?thesis by (simp add: strip_banned_pieces subseq_filter_left)
qed

section \<open>The migration runs once\<close>

lemma clean_rules_file_run:
  assumes laws: "amend_laws os files" and run: "clean_rules_file from_json os p banned w = (w', Ok ())"
  shows "files w p = None \<and> files w' = files w \<or>
    (\<exists>c. files w p = Some (utf8_encode c) \<and>
      files w' = (files w)(p \<mapsto> utf8_encode (strip_banned_allow_rules from_json banned c)))"
proof -
  let ?strip = "strip_banned_allow_rules from_json banned"
  from laws have l: "law_quiet (os_read_to_string os) files" "law_missing (os_read_to_string os) files"
    "law_quiet (os_open_read_write os) files" "law_missing (os_open_read_write os) files"
    "law_read os files" "law_quiet (os_seek_start os) files" "law_write_start os files" "law_set_len os files"
    by (simp_all add: amend_laws_def)
  obtain w1 r1 where read1: "os_read_to_string os w p = (w1, r1)" by (cases "os_read_to_string os w p")
  note w1 = law_quietD [OF l(1) read1]
  show ?thesis
  proof (cases r1)
    case (Inl e)
    with run read1 have "w' = w1" "io_kind e = NotFound" by (auto simp: clean_rules_file_def split: if_splits)
    with law_missingD [OF l(2) read1 [unfolded Inl]] w1 show ?thesis by simp
  next
    case (Inr c)
    note c = law_readD [OF l(5) read1 [unfolded Inr]]
    obtain w2 r2 where open2: "os_open_read_write os w1 p = (w2, r2)" by (cases "os_open_read_write os w1 p")
    note w2 = law_quietD [OF l(3) open2]
    show ?thesis
    proof (cases "?strip c = c")
      case True
      with run read1 Inr have "w' = w1" by (simp add: clean_rules_file_def)
      with True c w1 show ?thesis by (intro disjI2 exI [of _ c]) auto
    next
      case False
      show ?thesis
      proof (cases r2)
        case Inl2: (Inl e)
        with run read1 Inr False open2 have "io_kind e = NotFound"
          by (auto simp: clean_rules_file_def split: if_splits)
        with law_missingD [OF l(4) open2 [unfolded Inl2]] w1 c show ?thesis by simp
      next
        case Inr2: (Inr u)
        from run read1 Inr False open2 Inr2 obtain w3 c2 where
          read3: "os_read_to_string os w2 p = (w3, Ok c2)"
          and rest: "(if ?strip c2 = c2 then (w3, Ok ())
             else bind_io (os_seek_start os w3 p) (\<lambda>_ w. bind_io (os_write_start os w p (?strip c2))
               (\<lambda>_ w. os_set_len os w p (byte_len (?strip c2))))) = (w', Ok ())"
          by (auto simp: clean_rules_file_def bind_io_Ok Let_def)
        have c2: "files w p = Some (utf8_encode c2)" "files w3 = files w"
          using law_readD [OF l(5) read3] law_quietD [OF l(1) read3] w1 w2 by simp_all
        have "files w' = (files w)(p \<mapsto> utf8_encode (?strip c2))"
        proof (cases "?strip c2 = c2")
          case True
          with rest c2 show ?thesis by auto
        next
          case changed: False
          with rest obtain w4 w5 where s: "os_seek_start os w3 p = (w4, Ok ())"
            "os_write_start os w4 p (?strip c2) = (w5, Ok ())"
            "os_set_len os w5 p (byte_len (?strip c2)) = (w', Ok ())" by (auto simp: bind_io_Ok)
          have "files w4 = files w" using law_quietD [OF l(6) s(1)] c2 by simp
          with c2 have "files w4 p = Some (utf8_encode c2)" by simp
          from law_write_startD [OF l(7) s(2) this] have w5: "files w5 =
            (files w)(p \<mapsto> utf8_encode (?strip c2) @ drop (byte_len (?strip c2)) (utf8_encode c2))"
            using \<open>files w4 = files w\<close> by simp
          then have "files w5 p = Some (utf8_encode (?strip c2) @ drop (byte_len (?strip c2)) (utf8_encode c2))"
            by simp
          from law_set_lenD [OF l(8) s(3) this] w5 show ?thesis by (auto simp: fun_eq_iff)
        qed
        with c2 show ?thesis by blast
      qed
    qed
  qed
qed

lemma write_migration_marker_run:
  assumes laws: "amend_laws os files" and run: "write_migration_marker os home m w = (w', Ok ())"
  shows "files w' m \<noteq> None \<and> (\<forall>q. q \<noteq> m \<longrightarrow> files w' q = files w q)"
proof -
  from laws have l: "law_quiet (os_create_dir_all os) files" "law_persist os files"
    by (simp_all add: amend_laws_def)
  from run obtain w1 where dir: "os_create_dir_all os w home = (w1, Ok ())"
    and rest: "(case os_persist_new os w1 home m (str ''v1'' @ [LF]) of
             (w, Ok _) \<Rightarrow> (w, Ok ())
           | (w, Err err) \<Rightarrow> if io_kind err = AlreadyExists then (w, Ok ()) else (w, Err err)) = (w', Ok ())"
    by (auto simp: write_migration_marker_def bind_io_Ok)
  obtain w2 r where per: "os_persist_new os w1 home m (str ''v1'' @ [LF]) = (w2, r)"
    by (cases "os_persist_new os w1 home m (str ''v1'' @ [LF])")
  note w1 = law_quietD [OF l(1) dir]
  show ?thesis
  proof (cases r)
    case (Inl e)
    with rest per have "io_kind e = AlreadyExists" "w' = w2" by (auto split: if_splits)
    with law_persistD(2) [OF l(2) per [unfolded Inl]] w1 show ?thesis by auto
  next
    case (Inr u)
    with rest per law_persistD(1) [OF l(2) per [unfolded Inr]] w1 show ?thesis by auto
  qed
qed

lemma migration_marked:
  assumes "amend_laws os files" "files w (marker_path_of home) \<noteq> None"
    "prefix_rule_migration from_json os home p banned w = (w', Ok ())"
  shows "w' = w"
proof -
  from assms(1) have l: "law_exists os files" by (simp add: amend_laws_def)
  from assms(3) obtain w1 there where ex: "os_try_exists os w (marker_path_of home) = (w1, Ok there)"
    and rest: "(if there then (w1, Ok ())
      else bind_io (clean_rules_file from_json os p banned w1)
        (\<lambda>_ w. write_migration_marker os home (marker_path_of home) w)) = (w', Ok ())"
    by (auto simp: prefix_rule_migration_def bind_io_Ok)
  from law_existsD [OF l ex] assms(2) have "there" "w1 = w" by simp_all
  with rest show ?thesis by simp
qed


section \<open>Instances\<close>

text \<open>A file system of bytes in memory; only ASCII text can be read.\<close>

type_synonym byte_files = "(path \<times> nat list) list"

definition mem_amend_os :: "byte_files amend_os" where
  "mem_amend_os =
     \<lparr>os_create_dir = (\<lambda>w p. (w, Ok ())), os_open_append = (\<lambda>w p. ((p, case map_of w p of None \<Rightarrow> [] | Some b \<Rightarrow> b) # w, Ok ())),
      os_lock = (\<lambda>w p. (w, Ok ())), os_seek_start = (\<lambda>w p. (w, Ok ())),
      os_read_to_string = (\<lambda>w p. (w,
        case map_of w p of
          None \<Rightarrow> Err \<lparr>io_kind = NotFound, io_message = []\<rparr>
        | Some b \<Rightarrow> if list_all (\<lambda>x. x < 128) b then Ok b else Err \<lparr>io_kind = InvalidData, io_message = []\<rparr>)),
      os_append = (\<lambda>w p s. ((p, the (map_of w p) @ utf8_encode s) # w, Ok ())),
      os_try_exists = (\<lambda>w p. (w, Ok (map_of w p \<noteq> None))),
      os_open_read_write = (\<lambda>w p. (w, if map_of w p = None then Err \<lparr>io_kind = NotFound, io_message = []\<rparr> else Ok ())),
      os_write_start = (\<lambda>w p s. ((p, utf8_encode s @ drop (byte_len s) (the (map_of w p))) # w, Ok ())),
      os_set_len = (\<lambda>w p n. ((p, take n (the (map_of w p))) # w, Ok ())),
      os_create_dir_all = (\<lambda>w p. (w, Ok ())),
      os_persist_new = (\<lambda>w d p s.
        if map_of w p = None then ((p, utf8_encode s) # w, Ok ())
        else (w, Err \<lparr>io_kind = AlreadyExists, io_message = []\<rparr>))\<rparr>"

lemma utf8_encode_ascii: "list_all (\<lambda>x. x < 128) b \<Longrightarrow> utf8_encode b = b"
  by (induction b) (simp_all add: utf8_char_def)

lemma mem_amend_laws: "amend_laws mem_amend_os map_of"
  by (auto simp: amend_laws_def law_quiet_def law_missing_def law_read_def law_open_append_def law_append_def
      law_write_start_def law_set_len_def law_exists_def law_persist_def mem_amend_os_def utf8_encode_ascii
      split: option.splits if_splits sum.splits)

text \<open>Quoting of strings without special characters, and the list parser that reads it back.\<close>

definition plain_json :: json_printer where
  "plain_json s = (if list_all (\<lambda>c. 32 \<le> c \<and> c \<noteq> 34 \<and> c \<noteq> BS) s then Ok ([34] @ s @ [34]) else Err [])"

definition git_json :: json_list_parser where
  "git_json s = (if s = str ''[\"GIT\", \"push\"]'' then Ok [str ''GIT'', str ''push''] else Err [])"

definition rules_path :: path where
  "rules_path = path_components (str ''/home/me/rules/default.rules'')"

definition rules_before :: ustring where
  "rules_before = str ''x = 1'' @ [LF]"

definition appended :: "byte_files \<times> (unit, amend_error) result" where
  "appended = blocking_append_allow_prefix_rule plain_json mem_amend_os rules_path [str ''GIT'', str ''push'']
     [(rules_path, rules_before)]"

theorem append_allow_rule_witness:
  "\<exists>c'. map_of (fst appended) rules_path = Some (utf8_encode c') \<and>
     allow_rule_line [str ''\"GIT\"'', str ''\"push\"''] \<in> set (lines c')"
proof -
  have ok: "is_ok (snd appended)" "try_map plain_json [str ''GIT'', str ''push''] = Ok [str ''\"GIT\"'', str ''\"push\"'']"
    by code_simp+
  then have run: "blocking_append_allow_prefix_rule plain_json mem_amend_os rules_path [str ''GIT'', str ''push'']
      [(rules_path, rules_before)] = (fst appended, Ok ())"
    by (auto simp: appended_def is_ok_def prod_eq_iff split: sum.splits)
  have "\<forall>s t. plain_json s = Ok t \<longrightarrow> LF \<notin> set t"
    by (auto simp: plain_json_def list_all_iff split: if_splits)
  from append_allow_rule [OF mem_amend_laws this run] ok(2) show ?thesis by auto
qed

theorem strip_undoes_append_witness:
  "strip_banned_allow_rules git_json [[str ''git'', str ''push'']]
     (append_line rules_before (allow_rule_line [str ''\"GIT\"'', str ''\"push\"''])) = rules_before"
proof -
  have a: "rules_before = [] \<or> last rules_before = LF"
    "LF \<notin> set (allow_rule_line [str ''\"GIT\"'', str ''\"push\"''])"
    "git_json (str ''['' @ join (str '', '') [str ''\"GIT\"'', str ''\"push\"''] @ str '']'') =
       Ok [str ''GIT'', str ''push'']"
    "map to_ascii_lowercase [str ''GIT'', str ''push''] \<in>
       set (map (map to_ascii_lowercase) [[str ''git'', str ''push'']])"
    "strip_banned_allow_rules git_json [[str ''git'', str ''push'']] rules_before = rules_before" by code_simp+
  from strip_undoes_append [where from_json = git_json, OF a(1-4)] a(5) show ?thesis by simp
qed

definition migrated :: "byte_files \<times> (unit, io_error) result" where
  "migrated = prefix_rule_migration git_json mem_amend_os [RootDir] rules_path [[str ''git'', str ''push'']] (fst appended)"


end
