(* ===== verification/Head_Tail.thy ===== *)
theory Head_Tail
  imports Rust_Prelude
begin

text \<open>
  \<open>core/src/unified_exec/head_tail_buffer.rs\<close>: the capped buffer that keeps the first and the last
  bytes of the output of a process and counts what it dropped in between.

  \<open>head_tail_of m xs\<close> says what a buffer of capacity \<open>m\<close> promises to hold after the bytes \<open>xs\<close>
  went in. Pushing a chunk and appending a drained buffer of the same capacity are shown to refine
  appending bytes to \<open>xs\<close>, so what is held depends on the output alone and not on how it was cut
  into chunks or collected through intermediate buffers.
\<close>

section \<open>The buffer\<close>

type_synonym byte = nat

record head_tail_buffer =
  max_bytes :: nat
  head_budget :: nat
  tail_budget :: nat
  head :: "byte list"
  tail :: "byte list"
  omitted_bytes :: nat

definition UNIFIED_EXEC_OUTPUT_MAX_BYTES :: nat where
  "UNIFIED_EXEC_OUTPUT_MAX_BYTES = 1024 * 1024"

definition format_output_omission_marker :: "nat \<Rightarrow> ustring" where
  "format_output_omission_marker omitted = str ''... '' @ show_nat omitted @ str '' bytes omitted ...''"

definition new_buffer :: "nat \<Rightarrow> head_tail_buffer" where
  "new_buffer m =
     (let h = m div 2; t = m - h
      in \<lparr>max_bytes = m, head_budget = h, tail_budget = t,
          head = [], tail = [], omitted_bytes = 0\<rparr>)"

definition default_buffer :: head_tail_buffer where
  "default_buffer = new_buffer UNIFIED_EXEC_OUTPUT_MAX_BYTES"

definition retained_bytes :: "head_tail_buffer \<Rightarrow> nat" where
  "retained_bytes b = saturating_add (length (head b)) (length (tail b))"

definition total_bytes :: "head_tail_buffer \<Rightarrow> nat" where
  "total_bytes b = saturating_add (retained_bytes b) (omitted_bytes b)"

definition omit :: "nat \<Rightarrow> head_tail_buffer \<Rightarrow> head_tail_buffer" where
  "omit n b = b\<lparr>omitted_bytes := saturating_add (omitted_bytes b) n\<rparr>"

definition trim_tail_to_budget :: "head_tail_buffer \<Rightarrow> head_tail_buffer" where
  "trim_tail_to_budget b =
     (let excess = length (tail b) - tail_budget b
      in if excess > 0 then omit excess (b\<lparr>tail := drop excess (tail b)\<rparr>) else b)"

definition push_to_tail :: "head_tail_buffer \<Rightarrow> byte list \<Rightarrow> head_tail_buffer" where
  "push_to_tail b chunk =
     (if chunk = [] then b
      else if tail_budget b = 0 then omit (length chunk) b
      else if length chunk \<ge> tail_budget b
      then (let start = length chunk - tail_budget b;
                kept = drop start chunk;
                dropped = length chunk - length kept
            in (omit dropped (omit (length (tail b)) b))\<lparr>tail := kept\<rparr>)
      else trim_tail_to_budget (b\<lparr>tail := tail b @ chunk\<rparr>))"

definition push_chunk :: "head_tail_buffer \<Rightarrow> byte list \<Rightarrow> head_tail_buffer" where
  "push_chunk b chunk =
     (if chunk = [] then b
      else if max_bytes b = 0 then omit (length chunk) b
      else (let remaining_head = head_budget b - length (head b);
                head_len = min remaining_head (length chunk);
                b' = (if head_len > 0 then b\<lparr>head := head b @ take head_len chunk\<rparr> else b)
            in push_to_tail b' (drop head_len chunk)))"

definition snapshot_chunks :: "head_tail_buffer \<Rightarrow> byte list list" where
  "snapshot_chunks b =
     (if head b \<noteq> [] then [head b] else []) @ (if tail b \<noteq> [] then [tail b] else [])"

definition to_bytes :: "head_tail_buffer \<Rightarrow> byte list" where
  "to_bytes b = head b @ tail b"

definition to_bytes_with_omission_marker :: "head_tail_buffer \<Rightarrow> byte list" where
  "to_bytes_with_omission_marker b =
     (if omitted_bytes b = 0 then to_bytes b
      else head b @ [LF] @ utf8_encode (format_output_omission_marker (omitted_bytes b)) @ [LF] @ tail b)"

text \<open>\<open>drain\<close> returns what the buffer held and the emptied buffer.\<close>

definition drain :: "head_tail_buffer \<Rightarrow> head_tail_buffer \<times> head_tail_buffer" where
  "drain b =
     (\<lparr>max_bytes = max_bytes b, head_budget = head_budget b, tail_budget = tail_budget b,
       head = head b, tail = tail b, omitted_bytes = omitted_bytes b\<rparr>,
      b\<lparr>head := [], tail := [], omitted_bytes := 0\<rparr>)"

definition push_buffer :: "head_tail_buffer \<Rightarrow> head_tail_buffer \<Rightarrow> head_tail_buffer" where
  "push_buffer b buffer = omit (omitted_bytes buffer) (push_chunk (push_chunk b (head buffer)) (tail buffer))"

section \<open>What the buffer holds\<close>

definition last_bytes :: "nat \<Rightarrow> 'a list \<Rightarrow> 'a list" where
  "last_bytes n xs = drop (length xs - n) xs"

definition head_tail_of :: "nat \<Rightarrow> byte list \<Rightarrow> head_tail_buffer" where
  "head_tail_of m xs =
     \<lparr>max_bytes = m, head_budget = m div 2, tail_budget = m - m div 2,
      head = take (m div 2) xs, tail = last_bytes (m - m div 2) (drop (m div 2) xs),
      omitted_bytes = length xs - m\<rparr>"

lemma length_last_bytes [simp]: "length (last_bytes n xs) = min n (length xs)"
  by (simp add: last_bytes_def)

lemma last_bytes_last [simp]: "last_bytes n (last_bytes n xs @ ys) = last_bytes n (xs @ ys)"
proof -
  have "length xs + length ys - (length xs - n + n) + (length xs - n) = length xs + length ys - n \<or>
        length xs \<le> length xs + length ys - n" by arith
  then show ?thesis by (auto simp: last_bytes_def)
qed

lemma last_bytes_all: "length xs \<le> n \<Longrightarrow> last_bytes n xs = xs"
  by (simp add: last_bytes_def)

lemma new_buffer_of: "new_buffer m = head_tail_of m []"
  by (simp add: new_buffer_def head_tail_of_def last_bytes_def Let_def)

lemma omit_exact: "omitted_bytes b + n \<le> USIZE_MAX \<Longrightarrow>
    omit n b = b\<lparr>omitted_bytes := omitted_bytes b + n\<rparr>"
  by (simp add: omit_def saturating_add_def)

text \<open>The tail alone: it holds the last bytes of what reached it.\<close>

lemma push_to_tail_exact:
  assumes "length (tail b) \<le> tail_budget b" "omitted_bytes b + length (tail b) + length c \<le> USIZE_MAX"
  shows "push_to_tail b c =
     b\<lparr>tail := last_bytes (tail_budget b) (tail b @ c),
       omitted_bytes := omitted_bytes b + (length (tail b) + length c - tail_budget b)\<rparr>"
  using assms
  by (cases b) (auto simp: push_to_tail_def trim_tail_to_budget_def Let_def omit_exact last_bytes_def)

lemma push_chunk_exact_nonempty:
  assumes fits: "length xs + length c \<le> USIZE_MAX" and ne: "c \<noteq> []" "m \<noteq> 0"
  shows "push_chunk (head_tail_of m xs) c = head_tail_of m (xs @ c)"
proof -
  define h where "h = m div 2"
  define k where "k = min (h - length (take h xs)) (length c)"
  define b where "b = (head_tail_of m xs)\<lparr>head := take h (xs @ c)\<rparr>"
  have h: "take h xs @ take k c = take h (xs @ c)"
    by (auto simp: k_def min_def)
  have "push_chunk (head_tail_of m xs) c = push_to_tail b (drop k c)"
    using ne h by (auto simp: push_chunk_def Let_def b_def head_tail_of_def h_def k_def)
  also have "\<dots> = b\<lparr>tail := last_bytes (m - h) (tail b @ drop k c),
       omitted_bytes := omitted_bytes b + (length (tail b) + length (drop k c) - (m - h))\<rparr>"
  proof -
    have budget: "tail_budget b = m - h" and len: "length (tail b) = min (m - h) (length xs - h)"
      and om: "omitted_bytes b = length xs - m" by (simp_all add: b_def head_tail_of_def h_def)
    have "length xs - m + min (m - h) (length xs - h) \<le> length xs"
      by (simp add: min_def h_def)
    then have "omitted_bytes b + length (tail b) \<le> length xs" by (simp add: len om)
    moreover have "length (drop k c) \<le> length c" by simp
    ultimately have "omitted_bytes b + length (tail b) + length (drop k c) \<le> USIZE_MAX"
      using fits by linarith
    moreover have "length (tail b) \<le> tail_budget b" by (simp add: budget len)
    ultimately show ?thesis using push_to_tail_exact [of b "drop k c"] by (simp only: budget)
  qed
  also have "\<dots> = head_tail_of m (xs @ c)"
  proof (cases "length xs \<le> h")
    case True
    then have "drop k c = drop h (xs @ c)" by (auto simp: k_def min_def)
    moreover have "tail b = []" "omitted_bytes b = 0"
      using True by (simp_all add: b_def head_tail_of_def h_def last_bytes_def)
    ultimately show ?thesis by (simp add: b_def head_tail_of_def h_def)
  next
    case False
    then have "k = 0" "tail b = last_bytes (m - h) (drop h xs)" "omitted_bytes b = length xs - m"
      by (simp_all add: k_def b_def head_tail_of_def h_def)
    moreover have "h \<le> m" by (simp add: h_def)
    ultimately show ?thesis
      using False by (simp add: b_def head_tail_of_def last_bytes_last flip: h_def)
  qed
  finally show ?thesis .
qed

lemma push_chunk_exact:
  assumes fits: "length xs + length c \<le> USIZE_MAX"
  shows "push_chunk (head_tail_of m xs) c = head_tail_of m (xs @ c)"
proof -
  consider "c = []" | "c \<noteq> []" "m = 0" | "c \<noteq> []" "m \<noteq> 0" by blast
  then show ?thesis
  proof cases
    case 1
    then show ?thesis by (simp add: push_chunk_def)
  next
    case 2
    with fits show ?thesis by (simp add: push_chunk_def head_tail_of_def omit_exact last_bytes_def)
  next
    case 3
    with fits show ?thesis by (rule push_chunk_exact_nonempty)
  qed
qed

lemma push_chunks_exact:
  "length xs + length (concat cs) \<le> USIZE_MAX \<Longrightarrow>
   foldl push_chunk (head_tail_of m xs) cs = head_tail_of m (xs @ concat cs)"
proof (induction cs arbitrary: xs)
  case (Cons c cs)
  then show ?case using Cons.IH [of "xs @ c"] by (simp add: push_chunk_exact)
qed simp

lemma drain_exact: "drain (head_tail_of m xs) = (head_tail_of m xs, new_buffer m)"
  by (simp add: drain_def head_tail_of_def new_buffer_def Let_def)

lemma push_buffer_exact:
  assumes fits: "length xs + length ys \<le> USIZE_MAX"
  shows "push_buffer (head_tail_of m xs) (head_tail_of m ys) = head_tail_of m (xs @ ys)"
proof -
  define zs where "zs = head (head_tail_of m ys) @ tail (head_tail_of m ys)"
  have len: "length zs = min m (length ys)"
    by (auto simp: zs_def head_tail_of_def)
  have "push_chunk (push_chunk (head_tail_of m xs) (head (head_tail_of m ys))) (tail (head_tail_of m ys))
        = head_tail_of m (xs @ zs)"
    using push_chunks_exact [of xs "[head (head_tail_of m ys), tail (head_tail_of m ys)]" m] fits len
    by (simp add: zs_def)
  then have "push_buffer (head_tail_of m xs) (head_tail_of m ys) =
      (head_tail_of m (xs @ zs))\<lparr>omitted_bytes := length xs + length ys - m\<rparr>"
    using fits len by (auto simp: push_buffer_def omit_exact head_tail_of_def)
  also have "\<dots> = head_tail_of m (xs @ ys)"
  proof (cases "length ys \<le> m")
    case True
    then have "zs = ys" by (simp add: zs_def head_tail_of_def last_bytes_all)
    then show ?thesis by (simp add: head_tail_of_def)
  next
    case False
    then show ?thesis
      by (auto simp: head_tail_of_def zs_def last_bytes_def min_def)
  qed
  finally show ?thesis .
qed

section \<open>Properties\<close>

text \<open>
  C23: The buffer refines appending to the output. A new buffer holds no output; pushing a chunk and
  appending a buffer of the same capacity that holds the output \<open>ys\<close> take the buffer of \<open>xs\<close> to
  the buffer of the concatenation, omission count included; draining returns what was held and
  leaves a new buffer. The total output is only required to be countable in a \<open>usize\<close>.
\<close>

theorem head_tail_refines:
  assumes "length xs + length ys \<le> USIZE_MAX"
  shows "new_buffer m = head_tail_of m [] \<and>
    push_chunk (head_tail_of m xs) ys = head_tail_of m (xs @ ys) \<and>
    push_buffer (head_tail_of m xs) (head_tail_of m ys) = head_tail_of m (xs @ ys) \<and>
    drain (head_tail_of m xs) = (head_tail_of m xs, new_buffer m)"
  using assms by (simp add: new_buffer_of push_chunk_exact push_buffer_exact drain_exact)

theorem head_tail_refines_witness:
  "length [1, 2, 3 :: nat] + length [4, 5 :: nat] \<le> USIZE_MAX \<and>
   push_chunk (head_tail_of 4 [1, 2, 3]) [4, 5] = head_tail_of 4 [1, 2, 3, 4, 5] \<and>
   push_buffer (head_tail_of 4 [1, 2, 3]) (head_tail_of 4 [4, 5]) =
     \<lparr>max_bytes = 4, head_budget = 2, tail_budget = 2, head = [1, 2], tail = [4, 5], omitted_bytes = 1\<rparr>"
  using head_tail_refines [of "[1, 2, 3]" "[4, 5]" 4]
  by (simp add: USIZE_MAX_def head_tail_of_def last_bytes_def)

lemma retained_exact:
  assumes "length xs \<le> USIZE_MAX"
  shows "retained_bytes (head_tail_of m xs) = min m (length xs)"
proof -
  have "min (length xs) (m div 2) + min (m - m div 2) (length xs - m div 2) = min m (length xs)"
    by linarith
  with assms show ?thesis by (simp add: retained_bytes_def saturating_add_def head_tail_of_def)
qed

lemma total_exact: "length xs \<le> USIZE_MAX \<Longrightarrow> total_bytes (head_tail_of m xs) = length xs"
  by (simp add: total_bytes_def retained_exact saturating_add_def) (simp add: head_tail_of_def)

lemma printed_exact:
  "to_bytes_with_omission_marker (head_tail_of m xs) =
     (if length xs \<le> m then xs
      else take (m div 2) xs
           @ [LF] @ utf8_encode (format_output_omission_marker (length xs - m)) @ [LF]
           @ last_bytes (m - m div 2) xs)"
proof -
  have "last_bytes (m - m div 2) (drop (m div 2) xs) = last_bytes (m - m div 2) xs" if "\<not> length xs \<le> m"
    using that by (simp add: last_bytes_def)
  then show ?thesis
    by (simp add: to_bytes_with_omission_marker_def to_bytes_def head_tail_of_def last_bytes_all)
qed

text \<open>
  C24: However the output is cut into chunks, the buffer never holds more than its capacity, it counts
  every byte that went in, and what it prints is the whole output when that fits and otherwise the
  first half of the capacity, a line with the exact number of bytes left out, and the last bytes.
\<close>

theorem head_tail_output:
  assumes "length (concat cs) \<le> USIZE_MAX"
  shows "retained_bytes (foldl push_chunk (new_buffer m) cs) = min m (length (concat cs)) \<and>
    total_bytes (foldl push_chunk (new_buffer m) cs) = length (concat cs) \<and>
    to_bytes_with_omission_marker (foldl push_chunk (new_buffer m) cs) =
      (if length (concat cs) \<le> m then concat cs
       else take (m div 2) (concat cs)
            @ [LF] @ utf8_encode (format_output_omission_marker (length (concat cs) - m)) @ [LF]
            @ last_bytes (m - m div 2) (concat cs))"
proof -
  have "foldl push_chunk (new_buffer m) cs = head_tail_of m (concat cs)"
    using push_chunks_exact [of "[]" cs m] assms by (simp add: new_buffer_of)
  with assms show ?thesis by (simp only: retained_exact total_exact printed_exact)
qed

theorem head_tail_output_witness:
  "length (concat [[65, 66], [67, 68, 69 :: nat]]) \<le> USIZE_MAX \<and>
   total_bytes (foldl push_chunk (new_buffer 2) [[65, 66], [67, 68, 69]]) = 5 \<and>
   to_bytes_with_omission_marker (foldl push_chunk (new_buffer 2) [[65, 66], [67, 68, 69]]) =
     [65] @ [LF] @ utf8_encode (str ''... 3 bytes omitted ...'') @ [LF] @ [69]"
  using head_tail_output [of "[[65, 66], [67, 68, 69]]" 2]
  by (simp add: USIZE_MAX_def last_bytes_def format_output_omission_marker_def show_nat.simps str_def)

end
