(* ===== verification/Text_Truncate.thy ===== *)
theory Text_Truncate
  imports Rust_Prelude
begin

text \<open>
  \<open>utils/string/src/truncate.rs\<close> and \<open>lib.rs\<close>, \<open>utils/output-truncation/src/lib.rs\<close> and the
  truncation policy of \<open>protocol/src/protocol.rs\<close>: cutting the middle out of a long text on
  character boundaries, and spending one budget over the items of a tool output.

  Slices at byte offsets are the partial operations of the prelude, so every function that slices
  returns \<open>None\<close> where the code would panic; that it never does is part of what is shown.
\<close>

section \<open>Cutting the middle out of a string\<close>

definition APPROX_BYTES_PER_TOKEN :: nat where
  "APPROX_BYTES_PER_TOKEN = 4"

definition approx_token_count :: "ustring \<Rightarrow> nat" where
  "approx_token_count text =
     saturating_add (byte_len text) (APPROX_BYTES_PER_TOKEN - 1) div APPROX_BYTES_PER_TOKEN"

definition approx_bytes_for_tokens :: "nat \<Rightarrow> nat" where
  "approx_bytes_for_tokens tokens = saturating_mul tokens APPROX_BYTES_PER_TOKEN"

definition approx_tokens_from_byte_count :: "nat \<Rightarrow> nat" where
  "approx_tokens_from_byte_count bytes =
     saturating_add bytes (APPROX_BYTES_PER_TOKEN - 1) div APPROX_BYTES_PER_TOKEN"

record split_state =
  prefix_end :: nat
  suffix_start :: nat
  removed_chars :: nat
  suffix_started :: bool

definition split_step :: "nat \<Rightarrow> nat \<Rightarrow> nat \<times> uchar \<Rightarrow> split_state \<Rightarrow> split_state" where
  "split_step beginning_bytes tail_start_target p st =
     (let idx = fst p; char_end = idx + utf8_len (snd p)
      in if char_end \<le> beginning_bytes then st\<lparr>prefix_end := char_end\<rparr>
         else if idx \<ge> tail_start_target
         then (if suffix_started st then st else st\<lparr>suffix_start := idx, suffix_started := True\<rparr>)
         else st\<lparr>removed_chars := saturating_add (removed_chars st) 1\<rparr>)"

definition split_string :: "ustring \<Rightarrow> nat \<Rightarrow> nat \<Rightarrow> (nat \<times> ustring \<times> ustring) option" where
  "split_string s beginning_bytes end_bytes =
     (if s = [] then Some (0, [], [])
      else
        (let len = byte_len s;
             st = fold (split_step beginning_bytes (len - end_bytes)) (char_indices 0 s)
                    \<lparr>prefix_end = 0, suffix_start = len, removed_chars = 0, suffix_started = False\<rparr>;
             start = (if suffix_start st < prefix_end st then prefix_end st else suffix_start st)
         in case (str_upto s (prefix_end st), str_from s start) of
              (Some before, Some after) \<Rightarrow> Some (removed_chars st, before, after)
            | _ \<Rightarrow> None))"

definition split_budget :: "nat \<Rightarrow> nat \<times> nat" where
  "split_budget budget = (let left = budget div 2 in (left, budget - left))"

abbreviation ELLIPSIS :: uchar where "ELLIPSIS \<equiv> 0x2026"

definition format_truncation_marker :: "bool \<Rightarrow> nat \<Rightarrow> ustring" where
  "format_truncation_marker use_tokens removed_count =
     (if use_tokens
      then [ELLIPSIS] @ show_nat removed_count @ str '' tokens truncated'' @ [ELLIPSIS]
      else [ELLIPSIS] @ show_nat removed_count @ str '' chars truncated'' @ [ELLIPSIS])"

definition removed_units :: "bool \<Rightarrow> nat \<Rightarrow> nat \<Rightarrow> nat" where
  "removed_units use_tokens removed_bytes removed =
     (if use_tokens then approx_tokens_from_byte_count removed_bytes else removed)"

definition assemble_truncated_output :: "ustring \<Rightarrow> ustring \<Rightarrow> ustring \<Rightarrow> ustring" where
  "assemble_truncated_output pre suf marker = pre @ marker @ suf"

definition truncate_with_byte_estimate :: "ustring \<Rightarrow> nat \<Rightarrow> bool \<Rightarrow> ustring option" where
  "truncate_with_byte_estimate s max_bytes use_tokens =
     (if s = [] then Some []
      else if max_bytes = 0
      then Some (format_truncation_marker use_tokens (removed_units use_tokens (byte_len s) (length s)))
      else if byte_len s \<le> max_bytes then Some s
      else
        (let (left_budget, right_budget) = split_budget max_bytes
         in case split_string s left_budget right_budget of
              None \<Rightarrow> None
            | Some (removed, left, right) \<Rightarrow>
                (let marker = format_truncation_marker use_tokens
                       (removed_units use_tokens (byte_len s - max_bytes) removed)
                 in Some (assemble_truncated_output left right marker))))"

definition truncate_middle_chars :: "ustring \<Rightarrow> nat \<Rightarrow> ustring option" where
  "truncate_middle_chars s max_bytes = truncate_with_byte_estimate s max_bytes False"

definition truncate_middle_with_token_budget :: "ustring \<Rightarrow> nat \<Rightarrow> (ustring \<times> nat option) option" where
  "truncate_middle_with_token_budget s max_tokens =
     (if s = [] then Some ([], None)
      else if max_tokens > 0 \<and> byte_len s \<le> approx_bytes_for_tokens max_tokens then Some (s, None)
      else
        (case truncate_with_byte_estimate s (approx_bytes_for_tokens max_tokens) True of
           None \<Rightarrow> None
         | Some truncated \<Rightarrow>
             (let total_tokens = approx_token_count s
              in if truncated = s then Some (truncated, None)
                 else Some (truncated, Some total_tokens))))"

text \<open>
  What is kept: the longest prefix and the longest suffix that fit their budgets, cut between
  characters, and the number of characters in between.
\<close>

definition middle_cut :: "ustring \<Rightarrow> nat \<Rightarrow> nat \<Rightarrow> ustring \<Rightarrow> ustring \<Rightarrow> ustring \<Rightarrow> bool" where
  "middle_cut s b e left mid right \<longleftrightarrow>
     s = left @ mid @ right \<and> byte_len left \<le> b \<and> byte_len right \<le> e \<and>
     (mid = [] \<or> b < byte_len left + utf8_len (hd mid) \<and> e < utf8_len (last mid) + byte_len right)"

lemma split_suffix:
  assumes "s = [] \<or> b < idx + utf8_len (hd s)" "t \<le> idx"
  shows "fold (split_step b t) (char_indices idx s) st =
    (if s = [] \<or> suffix_started st then st else st\<lparr>suffix_start := idx, suffix_started := True\<rparr>)"
  using assms
proof (induction s arbitrary: idx st)
  case (Cons c s)
  then have "s = [] \<or> b < idx + utf8_len c + utf8_len (hd s)" "t \<le> idx + utf8_len c" by auto
  from Cons.IH [OF this] Cons.prems show ?case by (simp add: split_step_def Let_def)
qed simp

lemma split_middle:
  assumes "s = [] \<or> b < idx + utf8_len (hd s)" "\<not> suffix_started st"
    and "suffix_start st = idx + byte_len s" "removed_chars st + length s \<le> USIZE_MAX"
  obtains mid right st' where "s = mid @ right"
    and "fold (split_step b t) (char_indices idx s) st = st'"
    and "prefix_end st' = prefix_end st" "suffix_start st' = idx + byte_len mid"
    and "removed_chars st' = removed_chars st + length mid"
    and "right = [] \<or> t \<le> idx + byte_len mid"
    and "mid = [] \<or> idx + byte_len (butlast mid) < t"
  using assms
proof (induction s arbitrary: idx st thesis)
  case Nil
  then show ?case by (metis append_Nil2 append_Nil char_indices.simps(1) fold_simps(1) list.size(3) Nat.add_0_right)
next
  case (Cons c s)
  show ?case
  proof (cases "t \<le> idx")
    case True
    have "fold (split_step b t) (char_indices idx (c # s)) st =
        st\<lparr>suffix_start := idx, suffix_started := True\<rparr>"
      using split_suffix [of "c # s" b idx t st] Cons.prems True by simp
    then show ?thesis
      using True by (intro Cons.prems(1) [of "[]" "c # s" "st\<lparr>suffix_start := idx, suffix_started := True\<rparr>"]) auto
  next
    case False
    define st1 where "st1 = st\<lparr>removed_chars := Suc (removed_chars st)\<rparr>"
    have step: "split_step b t (idx, c) st = st1"
      using Cons.prems False by (simp add: split_step_def st1_def Let_def saturating_add_def)
    have "s = [] \<or> b < idx + utf8_len c + utf8_len (hd s)" using Cons.prems(2) by auto
    then obtain mid right st' where ih: "s = mid @ right"
      "fold (split_step b t) (char_indices (idx + utf8_len c) s) st1 = st'"
      "prefix_end st' = prefix_end st1" "suffix_start st' = idx + utf8_len c + byte_len mid"
      "removed_chars st' = removed_chars st1 + length mid"
      "right = [] \<or> t \<le> idx + utf8_len c + byte_len mid"
      "mid = [] \<or> idx + utf8_len c + byte_len (butlast mid) < t"
      using Cons.IH [of "idx + utf8_len c" st1] Cons.prems(3-5) by (auto simp: st1_def)
    show ?thesis
      using ih False step
      by (intro Cons.prems(1) [of "c # mid" right st']) (auto simp: st1_def)
  qed
qed

lemma split_prefix:
  assumes "prefix_end st = idx" "idx \<le> b"
  obtains left rest where "s = left @ rest" "idx + byte_len left \<le> b"
    and "rest = [] \<or> b < idx + byte_len left + utf8_len (hd rest)"
    and "fold (split_step b t) (char_indices idx s) st =
         fold (split_step b t) (char_indices (idx + byte_len left) rest)
           (st\<lparr>prefix_end := idx + byte_len left\<rparr>)"
  using assms
proof (induction s arbitrary: idx st thesis)
  case Nil
  then show ?case by (intro Nil.prems(1) [of "[]" "[]"]) auto
next
  case (Cons c s)
  show ?case
  proof (cases "idx + utf8_len c \<le> b")
    case True
    define st1 where "st1 = st\<lparr>prefix_end := idx + utf8_len c\<rparr>"
    have step: "split_step b t (idx, c) st = st1"
      using True by (simp add: split_step_def st1_def Let_def)
    obtain left rest where ih: "s = left @ rest" "idx + utf8_len c + byte_len left \<le> b"
      "rest = [] \<or> b < idx + utf8_len c + byte_len left + utf8_len (hd rest)"
      "fold (split_step b t) (char_indices (idx + utf8_len c) s) st1 =
       fold (split_step b t) (char_indices (idx + utf8_len c + byte_len left) rest)
           (st1\<lparr>prefix_end := idx + utf8_len c + byte_len left\<rparr>)"
      using Cons.IH [of "idx + utf8_len c" st1] True by (auto simp: st1_def)
    show ?thesis
      using ih step by (intro Cons.prems(1) [of "c # left" rest]) (auto simp: st1_def add.assoc)
  next
    case False
    then show ?thesis using Cons.prems by (intro Cons.prems(1) [of "[]" "c # s"]) auto
  qed
qed

lemma split_string_cut:
  assumes "length s \<le> USIZE_MAX"
  obtains left mid right where "middle_cut s b e left mid right"
    and "split_string s b e = Some (length mid, left, right)"
proof (cases "s = []")
  case True
  then show ?thesis using that [of "[]" "[]" "[]"] by (simp add: middle_cut_def split_string_def)
next
  case False
  define t where "t = byte_len s - e"
  define st0 where "st0 = \<lparr>prefix_end = 0, suffix_start = byte_len s, removed_chars = 0, suffix_started = False\<rparr>"
  obtain left rest where pre: "s = left @ rest" "byte_len left \<le> b"
    "rest = [] \<or> b < byte_len left + utf8_len (hd rest)"
    "fold (split_step b t) (char_indices 0 s) st0 =
     fold (split_step b t) (char_indices (byte_len left) rest) (st0\<lparr>prefix_end := byte_len left\<rparr>)"
    using split_prefix [of st0 0 b s t] by (auto simp: st0_def)
  obtain mid right st where mid: "rest = mid @ right"
    "fold (split_step b t) (char_indices (byte_len left) rest) (st0\<lparr>prefix_end := byte_len left\<rparr>) = st"
    "prefix_end st = byte_len left" "suffix_start st = byte_len left + byte_len mid"
    "removed_chars st = length mid"
    "right = [] \<or> t \<le> byte_len left + byte_len mid"
    "mid = [] \<or> byte_len left + byte_len (butlast mid) < t"
    using split_middle [of rest b "byte_len left" "st0\<lparr>prefix_end := byte_len left\<rparr>" t] pre assms
    by (auto simp: st0_def)
  have "mid \<noteq> [] \<Longrightarrow> byte_len mid = byte_len (butlast mid) + utf8_len (last mid)"
    by (metis append_butlast_last_id byte_len_simps(1,2,3) add_0_right)
  then have "middle_cut s b e left mid right"
    using pre mid by (auto simp: middle_cut_def t_def)
  moreover have "split_string s b e = Some (length mid, left, right)"
  proof -
    have "fold (split_step b t) (char_indices 0 s) st0 = st" using pre mid by simp
    moreover have "str_upto s (byte_len left) = Some left" by (simp add: pre)
    moreover have "str_from s (byte_len left + byte_len mid) = Some right"
      using str_slices(2) [of "left @ mid" right] by (simp add: pre mid)
    ultimately show ?thesis
      using False mid(3-5) unfolding split_string_def Let_def t_def st0_def by simp
  qed
  ultimately show ?thesis by (rule that)
qed

lemma truncate_estimate_cut:
  assumes "length s \<le> USIZE_MAX" "n < byte_len s"
  obtains left mid right where "middle_cut s (n div 2) (n - n div 2) left mid right"
    and "truncate_with_byte_estimate s n ut =
         Some (left @ format_truncation_marker ut (removed_units ut (byte_len s - n) (length mid)) @ right)"
proof (cases "n = 0")
  case True
  have "s \<noteq> []" using assms by auto
  then show ?thesis
    using True utf8_len_bounds(1) [of "hd s"] utf8_len_bounds(1) [of "last s"]
    by (intro that [of "[]" s "[]"]) (simp_all add: truncate_with_byte_estimate_def middle_cut_def)
next
  case False
  obtain left mid right where cut: "middle_cut s (n div 2) (n - n div 2) left mid right"
    "split_string s (n div 2) (n - n div 2) = Some (length mid, left, right)"
    using split_string_cut [OF assms(1)] by blast
  show ?thesis
    using cut assms False
    by (intro that [of left mid right])
      (auto simp: truncate_with_byte_estimate_def split_budget_def Let_def assemble_truncated_output_def)
qed

lemma truncate_estimate_fits: "byte_len s \<le> n \<Longrightarrow> truncate_with_byte_estimate s n ut = Some s"
  by (auto simp: truncate_with_byte_estimate_def)

text \<open>The marker is short whatever it counts.\<close>

abbreviation MARKER_MAX :: nat where "MARKER_MAX \<equiv> 43"

lemma marker_bound:
  assumes "n \<le> USIZE_MAX"
  shows "byte_len (format_truncation_marker ut n) \<le> MARKER_MAX"
proof -
  have "length (show_nat n) \<le> 20" using assms length_show_nat [of n 19] by (simp add: USIZE_MAX_def)
  then show ?thesis by (simp add: format_truncation_marker_def str_def utf8_len_def)
qed

lemma removed_units_bound:
  "a \<le> USIZE_MAX \<Longrightarrow> b \<le> USIZE_MAX \<Longrightarrow> removed_units ut a b \<le> USIZE_MAX"
  by (simp add: removed_units_def approx_tokens_from_byte_count_def saturating_add_def
      APPROX_BYTES_PER_TOKEN_def div_le_mono le_trans [OF div_le_dividend])

section \<open>Truncation policies\<close>

datatype TruncationPolicy = Bytes nat | Tokens nat

definition token_budget :: "TruncationPolicy \<Rightarrow> nat" where
  "token_budget policy =
     (case policy of Bytes bytes \<Rightarrow> approx_tokens_from_byte_count bytes | Tokens tokens \<Rightarrow> tokens)"

definition byte_budget :: "TruncationPolicy \<Rightarrow> nat" where
  "byte_budget policy =
     (case policy of Bytes bytes \<Rightarrow> bytes | Tokens tokens \<Rightarrow> approx_bytes_for_tokens tokens)"

definition truncate_text :: "ustring \<Rightarrow> TruncationPolicy \<Rightarrow> ustring option" where
  "truncate_text content policy =
     (case policy of
        Bytes bytes \<Rightarrow> truncate_middle_chars content bytes
      | Tokens tokens \<Rightarrow> map_option fst (truncate_middle_with_token_budget content tokens))"

definition formatted_truncate_text :: "ustring \<Rightarrow> TruncationPolicy \<Rightarrow> ustring option" where
  "formatted_truncate_text content policy =
     (if byte_len content \<le> byte_budget policy then Some content
      else
        (let original_token_count = approx_token_count content;
             total_lines = length (lines content)
         in case truncate_text content policy of
              None \<Rightarrow> None
            | Some result \<Rightarrow>
                Some (str ''Warning: truncated output (original token count: '' @ show_nat original_token_count
                      @ str '')'' @ [LF] @ str ''Total output lines: '' @ show_nat total_lines
                      @ [LF, LF] @ result)))"

datatype ImageDetail = Auto | Low | High | Original

datatype FunctionCallOutputContentItem =
    InputText ustring
  | InputImage ustring "ImageDetail option"
  | InputAudio ustring
  | EncryptedContent ustring

definition text_segment :: "FunctionCallOutputContentItem \<Rightarrow> ustring option" where
  "text_segment item =
     (case item of
        InputText text \<Rightarrow> Some text
      | InputImage _ _ \<Rightarrow> None | InputAudio _ \<Rightarrow> None | EncryptedContent _ \<Rightarrow> None)"

definition formatted_truncate_text_content_items_with_policy ::
    "FunctionCallOutputContentItem list \<Rightarrow> TruncationPolicy \<Rightarrow>
     (FunctionCallOutputContentItem list \<times> nat option) option" where
  "formatted_truncate_text_content_items_with_policy items policy =
     (let text_segments = List.map_filter text_segment items
      in if text_segments = [] then Some (items, None)
         else
           (let combined = fold (\<lambda>text combined. (if combined \<noteq> [] then combined @ [LF] else combined) @ text)
                             text_segments []
            in if byte_len combined \<le> byte_budget policy then Some (items, None)
               else
                 (case formatted_truncate_text combined policy of
                    None \<Rightarrow> None
                  | Some text \<Rightarrow>
                      Some (InputText text # filter (\<lambda>item. text_segment item = None) items,
                            Some (approx_token_count combined)))))"

record items_state =
  out :: "FunctionCallOutputContentItem list"
  remaining_budget :: nat
  omitted_text_items :: nat
  omitted_audio_items :: nat

definition text_cost :: "TruncationPolicy \<Rightarrow> ustring \<Rightarrow> nat" where
  "text_cost policy text = (case policy of Bytes _ \<Rightarrow> byte_len text | Tokens _ \<Rightarrow> approx_token_count text)"

definition audio_cost :: "(ustring \<Rightarrow> nat) \<Rightarrow> TruncationPolicy \<Rightarrow> ustring \<Rightarrow> nat" where
  "audio_cost estimate_audio_token_count policy audio_url =
     (let token_cost = estimate_audio_token_count audio_url
      in case policy of Bytes _ \<Rightarrow> approx_bytes_for_tokens token_cost | Tokens _ \<Rightarrow> token_cost)"

definition push_item :: "FunctionCallOutputContentItem \<Rightarrow> items_state \<Rightarrow> items_state" where
  "push_item item st = st\<lparr>out := out st @ [item]\<rparr>"

fun truncate_item ::
    "(ustring \<Rightarrow> nat) \<Rightarrow> TruncationPolicy \<Rightarrow> FunctionCallOutputContentItem \<Rightarrow> items_state \<Rightarrow> items_state option" where
  "truncate_item est policy (InputText text) st =
     (if remaining_budget st = 0 then Some (st\<lparr>omitted_text_items := omitted_text_items st + 1\<rparr>)
      else
        (let cost = text_cost policy text
         in if cost \<le> remaining_budget st
            then Some (push_item (InputText text) (st\<lparr>remaining_budget := remaining_budget st - cost\<rparr>))
            else
              (let snippet_policy = (case policy of
                     Bytes _ \<Rightarrow> Bytes (remaining_budget st) | Tokens _ \<Rightarrow> Tokens (remaining_budget st))
               in case truncate_text text snippet_policy of
                    None \<Rightarrow> None
                  | Some snippet \<Rightarrow>
                      Some ((if snippet = [] then st\<lparr>omitted_text_items := omitted_text_items st + 1\<rparr>
                             else push_item (InputText snippet) st)\<lparr>remaining_budget := 0\<rparr>))))"
| "truncate_item est policy (InputImage image_url detail) st = Some (push_item (InputImage image_url detail) st)"
| "truncate_item est policy (InputAudio audio_url) st =
     (let cost = audio_cost est policy audio_url
      in if cost \<le> remaining_budget st
         then Some (push_item (InputAudio audio_url) (st\<lparr>remaining_budget := remaining_budget st - cost\<rparr>))
         else Some (st\<lparr>omitted_audio_items := omitted_audio_items st + 1\<rparr>))"
| "truncate_item est policy (EncryptedContent encrypted) st = Some (push_item (EncryptedContent encrypted) st)"

fun truncate_items ::
    "(ustring \<Rightarrow> nat) \<Rightarrow> TruncationPolicy \<Rightarrow> FunctionCallOutputContentItem list \<Rightarrow> items_state \<Rightarrow> items_state option" where
  "truncate_items est policy [] st = Some st"
| "truncate_items est policy (item # items) st =
     (case truncate_item est policy item st of
        None \<Rightarrow> None | Some st' \<Rightarrow> truncate_items est policy items st')"

definition initial_budget :: "TruncationPolicy \<Rightarrow> nat" where
  "initial_budget policy =
     (case policy of Bytes _ \<Rightarrow> byte_budget policy | Tokens _ \<Rightarrow> token_budget policy)"

definition omission_notes :: "items_state \<Rightarrow> FunctionCallOutputContentItem list" where
  "omission_notes st =
     (if omitted_text_items st > 0
      then [InputText (str ''[omitted '' @ show_nat (omitted_text_items st) @ str '' text items ...]'')] else [])
     @ (if omitted_audio_items st > 0
        then [InputText (str ''[omitted '' @ show_nat (omitted_audio_items st) @ str '' audio items ...]'')] else [])"

definition truncate_function_output_items_with_policy ::
    "FunctionCallOutputContentItem list \<Rightarrow> TruncationPolicy \<Rightarrow> (ustring \<Rightarrow> nat) \<Rightarrow>
     FunctionCallOutputContentItem list option" where
  "truncate_function_output_items_with_policy items policy est =
     (case truncate_items est policy items
             \<lparr>out = [], remaining_budget = initial_budget policy,
              omitted_text_items = 0, omitted_audio_items = 0\<rparr> of
        None \<Rightarrow> None
      | Some st \<Rightarrow> Some (out st @ omission_notes st))"

definition approx_tokens_from_byte_count_i64 :: "int \<Rightarrow> int" where
  "approx_tokens_from_byte_count_i64 bytes =
     (if bytes \<le> 0 then 0
      else min (2 ^ 63 - 1) (int (approx_tokens_from_byte_count (nat bytes))))"

section \<open>What truncation keeps\<close>

definition use_tokens :: "TruncationPolicy \<Rightarrow> bool" where
  "use_tokens policy = (case policy of Bytes _ \<Rightarrow> False | Tokens _ \<Rightarrow> True)"

lemma truncate_text_estimate:
  "length s \<le> USIZE_MAX \<Longrightarrow>
   truncate_text s policy = truncate_with_byte_estimate s (byte_budget policy) (use_tokens policy)"
proof (cases policy)
  case (Tokens n)
  assume "length s \<le> USIZE_MAX"
  then have "truncate_with_byte_estimate s (byte_budget policy) True \<noteq> None"
    by (metis truncate_estimate_cut truncate_estimate_fits linorder_not_le option.discI)
  with Tokens show ?thesis
    by (auto simp: truncate_text_def truncate_middle_with_token_budget_def use_tokens_def byte_budget_def
        truncate_estimate_fits split: option.splits)
qed (simp add: truncate_text_def truncate_middle_chars_def byte_budget_def use_tokens_def)

definition truncated_to :: "ustring \<Rightarrow> nat \<Rightarrow> bool \<Rightarrow> ustring \<Rightarrow> bool" where
  "truncated_to s n ut r \<longleftrightarrow>
     (if byte_len s \<le> n then r = s
      else \<exists>left mid right. middle_cut s (n div 2) (n - n div 2) left mid right \<and>
             r = left @ format_truncation_marker ut (removed_units ut (byte_len s - n) (length mid)) @ right)"

lemma truncate_text_to:
  assumes "length s \<le> USIZE_MAX"
  obtains r where "truncate_text s policy = Some r"
    and "truncated_to s (byte_budget policy) (use_tokens policy) r"
proof (cases "byte_len s \<le> byte_budget policy")
  case True
  then show ?thesis
    using assms that [of s] by (simp add: truncate_text_estimate truncate_estimate_fits truncated_to_def)
next
  case False
  then obtain left mid right where cut:
    "middle_cut s (byte_budget policy div 2) (byte_budget policy - byte_budget policy div 2) left mid right"
    "truncate_text s policy = Some (left @ format_truncation_marker (use_tokens policy)
       (removed_units (use_tokens policy) (byte_len s - byte_budget policy) (length mid)) @ right)"
    using truncate_estimate_cut [OF assms, of "byte_budget policy" "use_tokens policy"] assms
    by (auto simp: truncate_text_estimate)
  then show ?thesis using False by (intro that) (auto simp: truncated_to_def)
qed

lemma truncated_to_bound:
  assumes "truncated_to s n ut r" "byte_len s \<le> USIZE_MAX"
  shows "byte_len r \<le> n + MARKER_MAX"
proof (cases "byte_len s \<le> n")
  case False
  with assms obtain left mid right where cut: "middle_cut s (n div 2) (n - n div 2) left mid right"
    "r = left @ format_truncation_marker ut (removed_units ut (byte_len s - n) (length mid)) @ right"
    by (auto simp: truncated_to_def)
  have "length mid \<le> byte_len s"
    using cut(1) length_le_byte_len [of mid] by (simp add: middle_cut_def)
  then have "byte_len (format_truncation_marker ut (removed_units ut (byte_len s - n) (length mid))) \<le> MARKER_MAX"
    using assms(2) by (intro marker_bound removed_units_bound) auto
  moreover have "byte_len left \<le> n div 2" "byte_len right \<le> n - n div 2"
    using cut(1) by (simp_all add: middle_cut_def)
  ultimately show ?thesis unfolding cut(2) byte_len_simps by linarith
qed (use assms in \<open>simp add: truncated_to_def\<close>)

text \<open>The items of an output: images and encrypted content stay, the text is bounded.\<close>

definition is_media :: "FunctionCallOutputContentItem \<Rightarrow> bool" where
  "is_media item = (case item of InputImage _ _ \<Rightarrow> True | EncryptedContent _ \<Rightarrow> True | _ \<Rightarrow> False)"

definition text_bytes :: "FunctionCallOutputContentItem list \<Rightarrow> nat" where
  "text_bytes items = sum_list (map byte_len (List.map_filter text_segment items))"

definition unit_bytes :: "TruncationPolicy \<Rightarrow> nat" where
  "unit_bytes policy = (case policy of Bytes _ \<Rightarrow> 1 | Tokens _ \<Rightarrow> APPROX_BYTES_PER_TOKEN)"

definition item_cost :: "(ustring \<Rightarrow> nat) \<Rightarrow> TruncationPolicy \<Rightarrow> FunctionCallOutputContentItem \<Rightarrow> nat" where
  "item_cost est policy item =
     (case item of InputText text \<Rightarrow> text_cost policy text | InputAudio url \<Rightarrow> audio_cost est policy url | _ \<Rightarrow> 0)"

definition text_in_memory :: "FunctionCallOutputContentItem \<Rightarrow> bool" where
  "text_in_memory item = (case item of InputText text \<Rightarrow> byte_len text \<le> ISIZE_MAX | _ \<Rightarrow> True)"

text \<open>The bytes already out, the budget left, and the marker that may still be spent.\<close>

definition committed :: "TruncationPolicy \<Rightarrow> items_state \<Rightarrow> nat" where
  "committed policy st = text_bytes (out st) + unit_bytes policy * remaining_budget st
     + (if remaining_budget st = 0 then 0 else MARKER_MAX)"

lemma text_bytes_simps [simp]:
  "text_bytes [] = 0" "text_bytes (xs @ ys) = text_bytes xs + text_bytes ys"
  "text_bytes [InputText t] = byte_len t" "text_bytes [InputImage u d] = 0"
  "text_bytes [InputAudio u] = 0" "text_bytes [EncryptedContent e] = 0"
  by (simp_all add: text_bytes_def text_segment_def List.map_filter_def)

lemma push_item_simps [simp]:
  "out (push_item i st) = out st @ [i]" "remaining_budget (push_item i st) = remaining_budget st"
  by (simp_all add: push_item_def)

lemma text_cost_bytes: "byte_len t \<le> ISIZE_MAX \<Longrightarrow> byte_len t \<le> unit_bytes policy * text_cost policy t"
  by (simp add: unit_bytes_def text_cost_def approx_token_count_def APPROX_BYTES_PER_TOKEN_def
      saturating_add_def ISIZE_MAX_def USIZE_MAX_def split: TruncationPolicy.split) linarith

lemma truncate_item_step:
  assumes "text_in_memory item"
  shows "\<exists>st'. truncate_item est policy item st = Some st' \<and>
    filter is_media (out st') = filter is_media (out st) @ filter is_media [item] \<and>
    committed policy st' \<le> committed policy st"
proof (cases item)
  case (InputText t)
  with assms have mem: "byte_len t \<le> ISIZE_MAX" by (simp add: text_in_memory_def)
  consider "remaining_budget st = 0" | "remaining_budget st \<noteq> 0" "text_cost policy t \<le> remaining_budget st"
    | "remaining_budget st \<noteq> 0" "\<not> text_cost policy t \<le> remaining_budget st" by blast
  then show ?thesis
  proof cases
    case 1
    with InputText show ?thesis by (auto simp: is_media_def committed_def)
  next
    case 2
    have "unit_bytes policy * text_cost policy t + unit_bytes policy * (remaining_budget st - text_cost policy t)
        = unit_bytes policy * remaining_budget st"
      using 2 by (simp flip: add_mult_distrib2)
    with 2 InputText text_cost_bytes [OF mem, of policy] show ?thesis
      by (auto simp: is_media_def committed_def Let_def)
  next
    case 3
    define sp where "sp = (case policy of Bytes _ \<Rightarrow> Bytes (remaining_budget st) | Tokens _ \<Rightarrow> Tokens (remaining_budget st))"
    have "length t \<le> USIZE_MAX" "byte_len t \<le> USIZE_MAX"
      using mem length_le_byte_len [of t] by (simp_all add: ISIZE_MAX_def USIZE_MAX_def)
    then obtain r where r: "truncate_text t sp = Some r" "byte_len r \<le> byte_budget sp + MARKER_MAX"
      using truncate_text_to truncated_to_bound by metis
    have "byte_budget sp \<le> unit_bytes policy * remaining_budget st"
      by (simp add: sp_def byte_budget_def unit_bytes_def approx_bytes_for_tokens_def saturating_mul_def
          mult.commute [of "remaining_budget st"] split: TruncationPolicy.split)
    with 3 r InputText show ?thesis
      by (auto simp: is_media_def committed_def Let_def simp flip: sp_def)
  qed
next
  case (InputAudio u)
  show ?thesis
  proof (cases "audio_cost est policy u \<le> remaining_budget st")
    case True
    have "unit_bytes policy * (remaining_budget st - audio_cost est policy u) \<le> unit_bytes policy * remaining_budget st"
      by simp
    with True InputAudio show ?thesis
      by (auto simp: is_media_def committed_def Let_def)
  qed (use InputAudio in \<open>auto simp: is_media_def committed_def Let_def\<close>)
qed (use assms in \<open>auto simp: is_media_def committed_def push_item_def\<close>)

lemma truncate_items_steps:
  "list_all text_in_memory items \<Longrightarrow>
   \<exists>st'. truncate_items est policy items st = Some st' \<and>
     filter is_media (out st') = filter is_media (out st) @ filter is_media items \<and>
     committed policy st' \<le> committed policy st"
proof (induction items arbitrary: st)
  case (Cons item items)
  then obtain st1 where st1: "truncate_item est policy item st = Some st1"
    "filter is_media (out st1) = filter is_media (out st) @ filter is_media [item]"
    "committed policy st1 \<le> committed policy st"
    using truncate_item_step [of item est policy st] by auto
  from Cons obtain st' where "truncate_items est policy items st1 = Some st'"
    "filter is_media (out st') = filter is_media (out st1) @ filter is_media items"
    "committed policy st' \<le> committed policy st1" by fastforce
  with st1 show ?case by (auto simp del: filter.simps)
      (metis append_Cons append_Nil append_assoc filter_append)
qed simp

lemma text_cost_pos: "t \<noteq> [] \<Longrightarrow> byte_len t \<le> ISIZE_MAX \<Longrightarrow> 0 < text_cost policy t"
proof -
  assume "t \<noteq> []" "byte_len t \<le> ISIZE_MAX"
  then have "0 < byte_len t" using byte_len_eq_0 [of t] by blast
  with \<open>byte_len t \<le> ISIZE_MAX\<close> show ?thesis using text_cost_bytes [of t policy] by (cases "text_cost policy t") auto
qed

lemma truncate_items_fit:
  assumes "list_all text_in_memory items" "InputText [] \<notin> set items"
    and "sum_list (map (item_cost est policy) items) \<le> remaining_budget st"
  shows "truncate_items est policy items st =
    Some (st\<lparr>out := out st @ items,
             remaining_budget := remaining_budget st - sum_list (map (item_cost est policy) items)\<rparr>)"
  using assms
proof (induction items arbitrary: st)
  case (Cons item items)
  define st1 where "st1 = push_item item (st\<lparr>remaining_budget := remaining_budget st - item_cost est policy item\<rparr>)"
  have "truncate_item est policy item st = Some st1"
  proof (cases item)
    case (InputText t)
    with Cons.prems have "0 < text_cost policy t" "text_cost policy t \<le> remaining_budget st"
      using text_cost_pos [of t policy] by (auto simp: text_in_memory_def item_cost_def)
    with InputText show ?thesis by (simp add: st1_def item_cost_def Let_def)
  qed (use Cons.prems in \<open>auto simp: st1_def item_cost_def Let_def push_item_def\<close>)
  moreover have "truncate_items est policy items st1 =
      Some (st1\<lparr>out := out st1 @ items,
             remaining_budget := remaining_budget st1 - sum_list (map (item_cost est policy) items)\<rparr>)"
    using Cons.prems by (intro Cons.IH) (auto simp: st1_def)
  ultimately show ?case by (simp add: st1_def push_item_def)
qed simp

section \<open>The other string helpers\<close>

fun take_loop :: "nat \<Rightarrow> (nat \<times> uchar) list \<Rightarrow> nat \<Rightarrow> nat" where
  "take_loop maxb [] last_ok = last_ok"
| "take_loop maxb ((i, ch) # rest) last_ok =
     (let nb = i + utf8_len ch in if nb > maxb then last_ok else take_loop maxb rest nb)"

definition take_bytes_at_char_boundary :: "ustring \<Rightarrow> nat \<Rightarrow> ustring option" where
  "take_bytes_at_char_boundary s maxb =
     (if byte_len s \<le> maxb then Some s else str_upto s (take_loop maxb (char_indices 0 s) 0))"

definition is_tag_char :: "uchar \<Rightarrow> bool" where
  "is_tag_char ch \<longleftrightarrow> is_ascii_alphanumeric ch \<or> ch \<in> set (str ''._-/'')"

definition sanitize_metric_tag_value :: "ustring \<Rightarrow> ustring option" where
  "sanitize_metric_tag_value v =
     (let MAX_LEN = 256;
          sanitized = map (\<lambda>ch. if is_tag_char ch then ch else of_char (CHR ''_'')) v;
          underscore = (\<lambda>ch. ch = of_char (CHR ''_''));
          trimmed = trim_end_matches underscore (trim_start_matches underscore sanitized)
      in if trimmed = [] \<or> list_all (\<lambda>ch. \<not> is_ascii_alphanumeric ch) trimmed
         then Some (str ''unspecified'')
         else if byte_len trimmed \<le> MAX_LEN then Some trimmed
         else str_upto trimmed MAX_LEN)"

definition parse_markdown_hash_location_point :: "ustring \<Rightarrow> (ustring \<times> ustring option) option" where
  "parse_markdown_hash_location_point point =
     (case strip_prefix (str ''L'') point of
        None \<Rightarrow> None
      | Some point' \<Rightarrow>
          (case split_once (of_char (CHR ''C'')) point' of
             Some (line, column) \<Rightarrow> Some (line, Some column)
           | None \<Rightarrow> Some (point', None)))"

definition push_point :: "ustring \<times> ustring option \<Rightarrow> ustring \<Rightarrow> ustring" where
  "push_point p normalized =
     (normalized @ fst p) @ (case snd p of None \<Rightarrow> [] | Some column \<Rightarrow> str '':'' @ column)"

definition normalize_markdown_hash_location_suffix :: "ustring \<Rightarrow> ustring option" where
  "normalize_markdown_hash_location_suffix suf =
     (case strip_prefix (str ''#'') suf of
        None \<Rightarrow> None
      | Some fragment \<Rightarrow>
          (let (start, end) = (case split_once (of_char (CHR ''-'')) fragment of
                 Some (start, end) \<Rightarrow> (start, Some end) | None \<Rightarrow> (fragment, None))
           in case parse_markdown_hash_location_point start of
                None \<Rightarrow> None
              | Some p \<Rightarrow>
                  (let normalized = push_point p (str '':'')
                   in case end of
                        None \<Rightarrow> Some normalized
                      | Some e \<Rightarrow>
                          (case parse_markdown_hash_location_point e of
                             None \<Rightarrow> None
                           | Some q \<Rightarrow> Some (push_point q (normalized @ str ''-''))))))"

lemma take_loop_prefix:
  "\<exists>left right. s = left @ right \<and> take_loop maxb (char_indices idx s) idx = idx + byte_len left \<and>
     (idx \<le> maxb \<longrightarrow> idx + byte_len left \<le> maxb) \<and>
     (right = [] \<or> maxb < idx + byte_len left + utf8_len (hd right))"
proof (induction s arbitrary: idx)
  case (Cons c s)
  show ?case
  proof (cases "idx + utf8_len c \<le> maxb")
    case True
    obtain left right where "s = left @ right"
      "take_loop maxb (char_indices (idx + utf8_len c) s) (idx + utf8_len c) = idx + utf8_len c + byte_len left"
      "idx + utf8_len c + byte_len left \<le> maxb"
      "right = [] \<or> maxb < idx + utf8_len c + byte_len left + utf8_len (hd right)"
      using Cons [of "idx + utf8_len c"] True by blast
    with True show ?thesis
      by (intro exI [of _ "c # left"] exI [of _ right]) (auto simp: Let_def add.assoc)
  next
    case False
    then show ?thesis by (intro exI [of _ "[]"] exI [of _ "c # s"]) (auto simp: Let_def)
  qed
qed simp

lemma take_bytes_longest:
  "\<exists>left right. s = left @ right \<and> take_bytes_at_char_boundary s maxb = Some left \<and>
     byte_len left \<le> maxb \<and> (right = [] \<or> maxb < byte_len left + utf8_len (hd right))"
proof (cases "byte_len s \<le> maxb")
  case True
  then show ?thesis by (auto simp: take_bytes_at_char_boundary_def)
next
  case False
  obtain left right where "s = left @ right" "take_loop maxb (char_indices 0 s) 0 = byte_len left"
    "byte_len left \<le> maxb" "right = [] \<or> maxb < byte_len left + utf8_len (hd right)"
    using take_loop_prefix [of s maxb 0] by auto
  with False show ?thesis by (auto simp: take_bytes_at_char_boundary_def)
qed

lemma ascii_byte_len: "\<forall>c \<in> set s. c < 0x80 \<Longrightarrow> byte_len s = length s"
  by (induction s) (auto simp: utf8_len_def)

lemma ascii_str_upto:
  assumes "\<forall>c \<in> set s. c < 0x80" "n \<le> length s"
  shows "str_upto s n = Some (take n s)"
proof -
  have "byte_len (take n s) = n" using ascii_byte_len [of "take n s"] assms by (auto dest: in_set_takeD)
  then show ?thesis using str_slices(1) [of "take n s" "drop n s"] by simp
qed

lemma tag_char_ascii: "is_tag_char c \<Longrightarrow> c < 0x80"
  by (auto simp: is_tag_char_def is_ascii_alphanumeric_def is_ascii_digit_def str_def)

section \<open>Properties\<close>

lemmas truncate_eval = truncate_text_def truncate_middle_chars_def truncate_with_byte_estimate_def
  split_budget_def split_string_def split_step_def utf8_len_def saturating_add_def USIZE_MAX_def str_upto_def
  str_from_def Let_def format_truncation_marker_def removed_units_def assemble_truncated_output_def
  show_nat.simps str_def

text \<open>
  C25: Truncating a text never panics and is exact. A text within the byte budget comes back as it
  is; otherwise the result is the longest prefix that fits half of the budget, a marker, and the
  longest suffix that fits the rest, both cut between characters and not overlapping. In byte mode
  the marker counts exactly the characters left out, in token mode the tokens over budget, and the
  result is over budget by at most the marker.
\<close>

theorem truncate_text_exact:
  assumes "byte_len s \<le> ISIZE_MAX"
  shows "\<exists>r. truncate_text s policy = Some r \<and>
    truncated_to s (byte_budget policy) (use_tokens policy) r \<and>
    byte_len r \<le> byte_budget policy + MARKER_MAX"
proof -
  have mem: "byte_len s \<le> USIZE_MAX" "length s \<le> USIZE_MAX"
    using assms length_le_byte_len [of s] by (simp_all add: ISIZE_MAX_def USIZE_MAX_def)
  obtain r where "truncate_text s policy = Some r" "truncated_to s (byte_budget policy) (use_tokens policy) r"
    using truncate_text_to [OF mem(2)] by blast
  with truncated_to_bound mem(1) show ?thesis by blast
qed

theorem truncate_text_exact_witness:
  "byte_len [97, 0xE9, 98, 0xE9, 99] \<le> ISIZE_MAX \<and>
   (\<exists>r. truncate_text [97, 0xE9, 98, 0xE9, 99] (Bytes 4) = Some r \<and>
        byte_len r \<le> byte_budget (Bytes 4) + MARKER_MAX) \<and>
   truncate_text [97, 0xE9, 98, 0xE9, 99] (Bytes 4) =
     Some ([97, ELLIPSIS] @ str ''3 chars truncated'' @ [ELLIPSIS, 99])"
proof -
  have mem: "byte_len [97, 0xE9, 98, 0xE9, 99] \<le> ISIZE_MAX"
    by (simp add: utf8_len_def ISIZE_MAX_def)
  moreover have "truncate_text [97, 0xE9, 98, 0xE9, 99] (Bytes 4) =
      Some ([97, ELLIPSIS] @ str ''3 chars truncated'' @ [ELLIPSIS, 99])"
    by (simp add: truncate_eval)
  ultimately show ?thesis using truncate_text_exact [OF mem, of "Bytes 4"] by blast
qed

text \<open>
  Truncating the items of a tool output never panics. Images and encrypted content all stay, in
  order; the text kept is within the budget, whatever the sizes and the order of the items, but for
  one truncation marker; at most two notes on omitted items follow; and when everything fits and no
  text is empty, nothing changes. The audio estimate is any function.
\<close>

theorem truncate_items_budget:
  assumes "list_all text_in_memory items"
  shows "\<exists>kept notes. truncate_function_output_items_with_policy items policy est = Some (kept @ notes) \<and>
    filter is_media kept = filter is_media items \<and>
    text_bytes kept \<le> unit_bytes policy * initial_budget policy + MARKER_MAX \<and>
    length notes \<le> 2 \<and> list_all (\<lambda>note. \<not> is_media note) notes \<and>
    (InputText [] \<notin> set items \<and> sum_list (map (item_cost est policy) items) \<le> initial_budget policy \<longrightarrow>
      kept = items \<and> notes = [])"
proof -
  define st0 where "st0 = \<lparr>out = [], remaining_budget = initial_budget policy,
    omitted_text_items = 0, omitted_audio_items = 0\<rparr>"
  obtain st where st: "truncate_items est policy items st0 = Some st"
    "filter is_media (out st) = filter is_media items" "committed policy st \<le> committed policy st0"
    using truncate_items_steps [OF assms, of est policy st0] by (auto simp: st0_def)
  have "text_bytes (out st) \<le> unit_bytes policy * initial_budget policy + MARKER_MAX"
    using st(3) by (simp add: committed_def st0_def split: if_splits)
  moreover have "truncate_function_output_items_with_policy items policy est = Some (out st @ omission_notes st)"
    using st(1) by (simp add: truncate_function_output_items_with_policy_def st0_def)
  moreover have "length (omission_notes st) \<le> 2" "list_all (\<lambda>note. \<not> is_media note) (omission_notes st)"
    by (simp_all add: omission_notes_def is_media_def)
  moreover have "out st = items \<and> omission_notes st = []"
    if "InputText [] \<notin> set items" "sum_list (map (item_cost est policy) items) \<le> initial_budget policy"
    using truncate_items_fit [OF assms that(1), of est policy st0] that(2) st(1)
    by (auto simp: st0_def omission_notes_def)
  ultimately show ?thesis using st(2) by blast
qed

theorem truncate_items_budget_witness:
  "list_all text_in_memory [InputText (str ''abc''), InputImage (str ''i'') None, InputText (str ''g'')] \<and>
   (\<exists>kept notes. truncate_function_output_items_with_policy
        [InputText (str ''abc''), InputImage (str ''i'') None, InputText (str ''g'')] (Bytes 2) (\<lambda>_. 0) =
          Some (kept @ notes) \<and>
      filter is_media kept = [InputImage (str ''i'') None] \<and> text_bytes kept \<le> 45) \<and>
   truncate_function_output_items_with_policy
        [InputText (str ''abc''), InputImage (str ''i'') None, InputText (str ''g'')] (Bytes 2) (\<lambda>_. 0) =
     Some [InputText (str ''a'' @ [ELLIPSIS] @ str ''1 chars truncated'' @ [ELLIPSIS] @ str ''c''),
           InputImage (str ''i'') None, InputText (str ''[omitted 1 text items ...]'')]"
proof -
  define items where "items = [InputText (str ''abc''), InputImage (str ''i'') None, InputText (str ''g'')]"
  have mem: "list_all text_in_memory items"
    by (simp add: items_def text_in_memory_def ISIZE_MAX_def str_def utf8_len_def)
  have "filter is_media items = [InputImage (str ''i'') None]"
    by (simp add: items_def is_media_def)
  moreover have "unit_bytes (Bytes 2) * initial_budget (Bytes 2) + MARKER_MAX = 45"
    by (simp add: unit_bytes_def initial_budget_def byte_budget_def)
  moreover have "truncate_function_output_items_with_policy items (Bytes 2) (\<lambda>_. 0) =
     Some [InputText (str ''a'' @ [ELLIPSIS] @ str ''1 chars truncated'' @ [ELLIPSIS] @ str ''c''),
           InputImage (str ''i'') None, InputText (str ''[omitted 1 text items ...]'')]"
    unfolding items_def
    by (simp add: truncate_function_output_items_with_policy_def initial_budget_def byte_budget_def text_cost_def
        push_item_def omission_notes_def truncate_eval)
  ultimately show ?thesis
    using truncate_items_budget [OF mem, of "Bytes 2" "\<lambda>_. 0"] mem unfolding items_def by metis
qed

text \<open>
  A sanitised metric tag is always produced, has between 1 and 256 bytes and only the characters
  the tag rules allow, whatever the value was: the slice at 256 bytes cannot panic because every
  character left is ASCII.
\<close>

theorem sanitize_tag_bounds:
  "\<exists>r. sanitize_metric_tag_value v = Some r \<and> 0 < byte_len r \<and> byte_len r \<le> 256 \<and> list_all is_tag_char r"
proof -
  define u where "u = (\<lambda>ch :: uchar. ch = of_char (CHR ''_''))"
  define clean where "clean = map (\<lambda>ch. if is_tag_char ch then ch else of_char (CHR ''_'')) v"
  define t where "t = trim_end_matches u (trim_start_matches u clean)"
  have "is_tag_char (of_char (CHR ''_''))" by (simp add: is_tag_char_def str_def)
  then have "list_all is_tag_char clean" by (auto simp: clean_def list_all_iff)
  moreover have "set t \<subseteq> set clean"
    using set_trim_end_matches [of u "trim_start_matches u clean"]
    by (auto simp: t_def trim_start_matches_def dest: set_dropWhileD)
  ultimately have tag: "list_all is_tag_char t" by (auto simp: list_all_iff)
  then have "\<forall>c \<in> set t. c < 0x80" by (auto simp: list_all_iff tag_char_ascii)
  note len = ascii_byte_len [OF this] and cut = ascii_str_upto [OF this, of 256]
  have ascii: "\<forall>c \<in> set (take 256 t). c < 0x80"
    using \<open>\<forall>c \<in> set t. c < 0x80\<close> by (auto dest: in_set_takeD)
  have r: "sanitize_metric_tag_value v =
      (if t = [] \<or> list_all (\<lambda>ch. \<not> is_ascii_alphanumeric ch) t then Some (str ''unspecified'')
       else if byte_len t \<le> 256 then Some t else str_upto t 256)"
    by (simp add: sanitize_metric_tag_value_def Let_def t_def u_def clean_def)
  consider "sanitize_metric_tag_value v = Some (str ''unspecified'')"
    | "t \<noteq> []" "length t \<le> 256" "sanitize_metric_tag_value v = Some t"
    | "256 < length t" "sanitize_metric_tag_value v = Some (take 256 t)"
    using r len cut by (cases "t = [] \<or> list_all (\<lambda>ch. \<not> is_ascii_alphanumeric ch) t"; cases "byte_len t \<le> 256") auto
  then show ?thesis
  proof cases
    case 1
    moreover have "0 < byte_len (str ''unspecified'') \<and> byte_len (str ''unspecified'') \<le> 256
        \<and> list_all is_tag_char (str ''unspecified'')" by code_simp
    ultimately show ?thesis by blast
  next
    case 2
    with tag len show ?thesis by simp
  next
    case 3
    with tag ascii_byte_len [OF ascii] show ?thesis by (auto simp: list_all_iff dest: in_set_takeD)
  qed
qed

end
