(* ===== verification/Stream_Text.thy ===== *)
theory Stream_Text
  imports Rust_Prelude
begin

text \<open>
  \<open>utils/stream-parser/src/stream_text.rs\<close>: the trait of parsers that are fed a text in chunks and
  give back visible text and extracted payloads, as a record of operations, and its contract as a
  locale.

  A call that never returns is the value \<open>None\<close>. The contract says that calls return, that feeding a
  text in two chunks is feeding it in one, and that feeding nothing does nothing, where payloads are
  compared through a \<open>view\<close>: a parser may cut the same payload into different segments. What clients
  need, that the result does not depend on the chunks at all, is proved once from it.
\<close>

record 'e StreamTextChunk =
  visible_text :: ustring
  extracted :: "'e list"

definition default_stream_chunk :: "'e StreamTextChunk" where
  "default_stream_chunk = \<lparr>visible_text = [], extracted = []\<rparr>"

definition stream_chunk_is_empty :: "'e StreamTextChunk \<Rightarrow> bool" where
  "stream_chunk_is_empty c \<longleftrightarrow> visible_text c = [] \<and> extracted c = []"

text \<open>How every caller collects the chunks it receives: \<open>push_str\<close> and \<open>extend\<close>.\<close>

definition chunk_append :: "'e StreamTextChunk \<Rightarrow> 'e StreamTextChunk \<Rightarrow> 'e StreamTextChunk" where
  "chunk_append a b = \<lparr>visible_text = visible_text a @ visible_text b, extracted = extracted a @ extracted b\<rparr>"

record ('s, 'e) StreamTextParser =
  push_str :: "'s \<Rightarrow> ustring \<Rightarrow> ('s \<times> 'e StreamTextChunk) option"
  finish :: "'s \<Rightarrow> 's \<times> 'e StreamTextChunk"

lemma chunk_simps [simp]:
  "visible_text (chunk_append a b) = visible_text a @ visible_text b"
  "extracted (chunk_append a b) = extracted a @ extracted b"
  "visible_text default_stream_chunk = []" "extracted default_stream_chunk = []"
  by (simp_all add: chunk_append_def default_stream_chunk_def)

lemma chunk_append_monoid [simp]:
  "chunk_append default_stream_chunk a = a" "chunk_append a default_stream_chunk = a"
  "chunk_append (chunk_append a b) c = chunk_append a (chunk_append b c)"
  by (simp_all add: chunk_append_def default_stream_chunk_def)

lemma chunk_append_self: "a = chunk_append a b \<Longrightarrow> b = default_stream_chunk"
  by (cases a; cases b) (auto simp: chunk_append_def default_stream_chunk_def)

fun push_all :: "('s, 'e) StreamTextParser \<Rightarrow> 's \<Rightarrow> ustring list \<Rightarrow> ('s \<times> 'e StreamTextChunk) option" where
  "push_all P s [] = Some (s, default_stream_chunk)"
| "push_all P s (c # cs) =
     (case push_str P s c of
        None \<Rightarrow> None
      | Some (s', out) \<Rightarrow>
          (case push_all P s' cs of None \<Rightarrow> None | Some (s'', out') \<Rightarrow> Some (s'', chunk_append out out')))"

definition collect_chunks :: "('s, 'e) StreamTextParser \<Rightarrow> 's \<Rightarrow> ustring list \<Rightarrow> ('s \<times> 'e StreamTextChunk) option" where
  "collect_chunks P s cs =
     (case push_all P s cs of
        None \<Rightarrow> None
      | Some (s', out) \<Rightarrow> (let (s'', tail) = finish P s' in Some (s'', chunk_append out tail)))"

definition same_chunk :: "('e list \<Rightarrow> 'v list) \<Rightarrow> 'e StreamTextChunk \<Rightarrow> 'e StreamTextChunk \<Rightarrow> bool" where
  "same_chunk view a b \<longleftrightarrow> visible_text a = visible_text b \<and> view (extracted a) = view (extracted b)"

lemma same_chunk_refl [simp]: "same_chunk view a a"
  by (simp add: same_chunk_def)

locale stream_text_parser =
  fixes P :: "('s, 'e) StreamTextParser"
    and inv :: "'s \<Rightarrow> bool"
    and view :: "'e list \<Rightarrow> 'v list"
  assumes view_append: "view (xs @ ys) = view xs @ view ys"
    and push_returns: "inv s \<Longrightarrow> \<exists>s' out. push_str P s a = Some (s', out) \<and> inv s'"
    and push_nothing: "inv s \<Longrightarrow> push_str P s [] = Some (s, default_stream_chunk)"
    and push_append: "inv s \<Longrightarrow> push_str P s a = Some (s1, out1) \<Longrightarrow> push_str P s1 b = Some (s2, out2) \<Longrightarrow>
      \<exists>out. push_str P s (a @ b) = Some (s2, out) \<and> same_chunk view out (chunk_append out1 out2)"
begin

lemma same_append:
  "same_chunk view a a' \<Longrightarrow> same_chunk view b b' \<Longrightarrow> same_chunk view (chunk_append a b) (chunk_append a' b')"
  by (simp add: same_chunk_def view_append)

lemma same_trans: "same_chunk view a b \<Longrightarrow> same_chunk view b c \<Longrightarrow> same_chunk view a c"
  by (simp add: same_chunk_def)

lemma push_all_concat:
  "inv s \<Longrightarrow> \<exists>s' out out'. push_all P s cs = Some (s', out) \<and> push_str P s (concat cs) = Some (s', out') \<and>
     inv s' \<and> same_chunk view out' out"
proof (induction cs arbitrary: s)
  case Nil
  then show ?case by (simp add: push_nothing)
next
  case (Cons c cs)
  obtain s1 out1 where p1: "push_str P s c = Some (s1, out1)" "inv s1"
    using push_returns [OF Cons.prems] by blast
  obtain s2 out2 out2' where p2: "push_all P s1 cs = Some (s2, out2)" "push_str P s1 (concat cs) = Some (s2, out2')"
    "inv s2" "same_chunk view out2' out2"
    using Cons.IH [OF p1(2)] by blast
  obtain out where "push_str P s (c @ concat cs) = Some (s2, out)" "same_chunk view out (chunk_append out1 out2')"
    using push_append [OF Cons.prems p1(1) p2(2)] by blast
  moreover have "same_chunk view (chunk_append out1 out2') (chunk_append out1 out2)"
    using p2(4) by (simp add: same_append)
  ultimately show ?case using p1 p2 by (auto intro: same_trans)
qed

lemma collect_concat:
  assumes "inv s"
  shows "\<exists>s' out out'. collect_chunks P s cs = Some (s', out) \<and>
    collect_chunks P s [concat cs] = Some (s', out') \<and> same_chunk view out' out"
proof -
  obtain s1 out out' where p: "push_all P s cs = Some (s1, out)" "push_str P s (concat cs) = Some (s1, out')"
    "same_chunk view out' out"
    using push_all_concat [OF assms] by blast
  obtain s' tail where "finish P s1 = (s', tail)" by fastforce
  with p show ?thesis by (simp add: collect_chunks_def same_append)
qed

lemma collect_chunking:
  assumes "inv s" "concat cs = concat ds"
  shows "\<exists>s' out out'. collect_chunks P s cs = Some (s', out) \<and> collect_chunks P s ds = Some (s', out') \<and>
    same_chunk view out out'"
proof -
  obtain s1 o1 o1' where "collect_chunks P s cs = Some (s1, o1)"
    "collect_chunks P s [concat cs] = Some (s1, o1')" "same_chunk view o1' o1"
    using collect_concat [OF assms(1)] by blast
  moreover obtain s2 o2 o2' where "collect_chunks P s ds = Some (s2, o2)"
    "collect_chunks P s [concat ds] = Some (s2, o2')" "same_chunk view o2' o2"
    using collect_concat [OF assms(1)] by blast
  ultimately show ?thesis using assms(2) by (auto simp: same_chunk_def)
qed

end

end
