(* ===== verification/Inline_Tag.thy ===== *)
theory Inline_Tag
  imports Stream_Text
begin

text \<open>
  \<open>utils/stream-parser/src/inline_hidden_tag.rs\<close> and \<open>citation.rs\<close>: hiding inline tags in a streamed
  text and extracting what they enclose.

  Positions in the pending text are counted in characters: every offset the code slices at comes
  from a match of a delimiter, and so lies between characters. The loop of \<open>push_str\<close> is a partial
  function; it returns because every round that continues removes a delimiter, which the
  constructor asserts to be non-empty.
\<close>

section \<open>Searching a string\<close>

text \<open>\<open>str::find\<close>: the position of the first occurrence.\<close>

fun find_str :: "ustring \<Rightarrow> ustring \<Rightarrow> nat option" where
  "find_str needle [] = (if needle = [] then Some 0 else None)"
| "find_str needle (c # s) =
     (if prefix needle (c # s) then Some 0 else map_option Suc (find_str needle s))"

fun lsp_loop :: "ustring \<Rightarrow> ustring \<Rightarrow> nat \<Rightarrow> nat" where
  "lsp_loop s needle 0 = 0"
| "lsp_loop s needle (Suc k) = (if suffix (take (Suc k) needle) s then Suc k else lsp_loop s needle k)"

definition longest_suffix_prefix_len :: "ustring \<Rightarrow> ustring \<Rightarrow> nat" where
  "longest_suffix_prefix_len s needle = lsp_loop s needle (min (length s) (length needle - 1))"

lemma find_str_Some:
  "find_str n s = Some i \<longleftrightarrow> i \<le> length s \<and> prefix n (drop i s) \<and> (\<forall>j<i. \<not> prefix n (drop j s))"
proof (induction s arbitrary: i)
  case (Cons c s)
  show ?case
  proof (cases "prefix n (c # s)")
    case True
    then show ?thesis by (cases i) auto
  next
    case False
    show ?thesis
    proof (cases i)
      case (Suc k)
      have "(\<forall>j<Suc k. \<not> prefix n (drop j (c # s))) \<longleftrightarrow> (\<forall>j<k. \<not> prefix n (drop j s))"
        using False by (auto simp: less_Suc_eq_0_disj)
      then show ?thesis using False Suc Cons by simp
    qed (use False in auto)
  qed
qed auto

lemma find_str_None: "find_str n s = None \<longleftrightarrow> (\<forall>j \<le> length s. \<not> prefix n (drop j s))"
proof -
  have "find_str n s \<noteq> None" if "j \<le> length s" "prefix n (drop j s)" for j
    using that
  proof (induction s arbitrary: j)
    case (Cons c s)
    then show ?case by (cases j) auto
  qed simp
  moreover have "\<exists>j \<le> length s. prefix n (drop j s)" if "find_str n s = Some i" for i
    using that by (auto simp: find_str_Some)
  ultimately show ?thesis by fastforce
qed

lemma find_str_fits: "find_str n s = Some i \<Longrightarrow> i + length n \<le> length s"
  by (auto simp: find_str_Some dest: prefix_length_le)

lemma prefix_append_fits: "length n \<le> length s \<Longrightarrow> prefix n (s @ t) \<longleftrightarrow> prefix n s"
  by (auto simp: prefix_def append_eq_append_conv2)

lemma find_str_append: "find_str n s = Some i \<Longrightarrow> find_str n (s @ t) = Some i"
  using find_str_fits [of n s i] by (auto simp: find_str_Some prefix_append_fits)

text \<open>An occurrence in \<open>d @ u\<close> that does not start in \<open>d\<close> is an occurrence in \<open>u\<close>.\<close>

lemma find_str_skip:
  "\<forall>j < length d. \<not> prefix n (drop j (d @ u)) \<Longrightarrow> find_str n (d @ u) = map_option ((+) (length d)) (find_str n u)"
proof (induction d)
  case Nil
  then show ?case by (simp add: option.map_ident)
next
  case (Cons c d)
  have "\<forall>j < length d. \<not> prefix n (drop j (d @ u))"
    using Cons.prems by (metis Suc_less_eq append_Cons drop_Suc_Cons length_Cons)
  moreover have "\<not> prefix n (c # d @ u)" using Cons.prems by force
  ultimately show ?case using Cons.IH by (simp add: option.map_comp comp_def)
qed

text \<open>It is the length of the longest suffix that is a proper prefix of the needle.\<close>

lemma lsp_loop_props:
  "lsp_loop s n m \<le> m" "suffix (take (lsp_loop s n m) n) s"
  "j \<le> m \<Longrightarrow> suffix (take j n) s \<Longrightarrow> j \<le> lsp_loop s n m"
  by (induction m) (auto simp: le_Suc_eq)

lemma lsp_greatest:
  assumes "strict_prefix p n" "suffix p s"
  shows "length p \<le> longest_suffix_prefix_len s n"
proof -
  have p: "p = take (length p) n" using assms(1) by (metis append_eq_conv_conj prefix_def strict_prefix_def)
  have "length p < length n" using assms(1) by (rule prefix_length_less)
  then have "length p \<le> min (length s) (length n - 1)" using assms(2) by (auto dest: suffix_length_le)
  with p assms(2) show ?thesis unfolding longest_suffix_prefix_len_def by (metis lsp_loop_props(3))
qed

lemma lsp_bound: "longest_suffix_prefix_len s n \<le> length s"
  using lsp_loop_props(1) [of s n "min (length s) (length n - 1)"] by (simp add: longest_suffix_prefix_len_def)

lemma lsp_attained:
  assumes "n \<noteq> []"
  obtains p where "strict_prefix p n" "suffix p s" "length p = longest_suffix_prefix_len s n"
proof -
  define k where "k = longest_suffix_prefix_len s n"
  have "k \<le> length n - 1"
    using lsp_loop_props(1) [of s n "min (length s) (length n - 1)"] by (simp add: k_def longest_suffix_prefix_len_def)
  with assms have "k < length n" by (cases n) auto
  then have "strict_prefix (take k n) n"
    by (metis dual_order.strict_iff_not strict_prefix_def take_all_iff take_is_prefix)
  moreover have "suffix (take k n) s"
    by (simp add: k_def longest_suffix_prefix_len_def lsp_loop_props(2))
  moreover have "length (take k n) = longest_suffix_prefix_len s n" using \<open>k < length n\<close> by (simp add: k_def)
  ultimately show ?thesis by (rule that)
qed

text \<open>
  A suffix of the text kept back is at least as long as every overlap with a delimiter. Text dropped
  in front of it can then neither start an occurrence nor lengthen a later overlap.
\<close>

lemma find_str_kept:
  assumes "find_str n (d @ p) = None" "longest_suffix_prefix_len (d @ p) n \<le> length p"
  shows "find_str n (d @ p @ t) = map_option ((+) (length d)) (find_str n (p @ t))"
proof (rule find_str_skip, intro allI impI notI)
  fix j assume j: "j < length d" and pre: "prefix n (drop j (d @ p @ t))"
  define r where "r = drop j (d @ p)"
  have pre': "prefix n (r @ t)" using pre j by (simp add: r_def)
  have "j \<le> length (d @ p)" using j by simp
  then have "\<not> prefix n r" using assms(1) unfolding find_str_None r_def by blast
  then have "strict_prefix r n"
    using pre' by (metis prefix_append_fits prefix_same_cases prefixI strict_prefixI' strict_prefix_def)
  moreover have "suffix r (d @ p)" by (simp only: r_def suffix_drop)
  ultimately have "length r \<le> length p" using lsp_greatest assms(2) le_trans by blast
  with j show False by (simp add: r_def)
qed

lemma lsp_kept:
  assumes "longest_suffix_prefix_len (d @ p) n \<le> length p" "n \<noteq> []"
  shows "longest_suffix_prefix_len (d @ p @ t) n = longest_suffix_prefix_len (p @ t) n"
proof (rule antisym)
  obtain q where q: "strict_prefix q n" "suffix q (d @ p @ t)" "length q = longest_suffix_prefix_len (d @ p @ t) n"
    using lsp_attained [OF assms(2)] by blast
  have "suffix q (p @ t)"
  proof (rule ccontr)
    assume no: "\<not> suffix q (p @ t)"
    then have "length (p @ t) < length q"
      using q(2) by (metis linorder_not_le suffixI suffix_length_suffix)
    then have "suffix (p @ t) q" using q(2)
      by (metis append_assoc less_imp_le suffixI suffix_length_suffix)
    then obtain u where u: "q = u @ p @ t" by (auto simp: suffix_def)
    then have "suffix (u @ p) (d @ p)" using q(2) by (auto simp: suffix_def)
    moreover have "strict_prefix (u @ p) n" using q(1) u
      by (metis append_assoc prefixI prefix_order.le_less_trans)
    ultimately have "length (u @ p) \<le> length p" using lsp_greatest assms(1) le_trans by blast
    with u no q(2) show False by auto
  qed
  then show "longest_suffix_prefix_len (d @ p @ t) n \<le> longest_suffix_prefix_len (p @ t) n"
    using q lsp_greatest by metis
next
  obtain q where "strict_prefix q n" "suffix q (p @ t)" "length q = longest_suffix_prefix_len (p @ t) n"
    using lsp_attained [OF assms(2)] by blast
  then show "longest_suffix_prefix_len (p @ t) n \<le> longest_suffix_prefix_len (d @ p @ t) n"
    using lsp_greatest suffix_appendI by metis
qed

section \<open>The parser\<close>

record 't InlineTagSpec =
  spec_tag :: 't
  spec_open :: ustring
  spec_close :: ustring

record 't ExtractedInlineTag =
  tag :: 't
  content :: ustring

record 't ActiveTag =
  active_tag :: 't
  active_close :: ustring
  active_content :: ustring

record 't InlineHiddenTagParser =
  specs :: "'t InlineTagSpec list"
  pending :: ustring
  active :: "'t ActiveTag option"

text \<open>The assertions of the constructor: a failed one is a panic.\<close>

definition specs_ok :: "'t InlineTagSpec list \<Rightarrow> bool" where
  "specs_ok ss \<longleftrightarrow> ss \<noteq> [] \<and> list_all (\<lambda>spec. spec_open spec \<noteq> [] \<and> spec_close spec \<noteq> []) ss"

definition new_inline_parser :: "'t InlineTagSpec list \<Rightarrow> 't InlineHiddenTagParser option" where
  "new_inline_parser ss =
     (if specs_ok ss then Some \<lparr>specs = ss, pending = [], active = None\<rparr> else None)"

text \<open>\<open>min_by\<close> keeps the first of several minima.\<close>

definition min_by :: "('a \<Rightarrow> 'a \<Rightarrow> bool) \<Rightarrow> 'a list \<Rightarrow> 'a option" where
  "min_by lt xs =
     (case xs of [] \<Rightarrow> None | x # xs' \<Rightarrow> Some (fold (\<lambda>y best. if lt y best then y else best) xs' x))"

definition open_before :: "nat \<times> nat \<times> nat \<Rightarrow> nat \<times> nat \<times> nat \<Rightarrow> bool" where
  "open_before a b =
     (case (a, b) of ((pos_a, len_a, idx_a), (pos_b, len_b, idx_b)) \<Rightarrow>
        pos_a < pos_b \<or> pos_a = pos_b \<and> (len_b < len_a \<or> len_b = len_a \<and> idx_a < idx_b))"

definition open_candidates :: "'t InlineTagSpec list \<Rightarrow> ustring \<Rightarrow> (nat \<times> nat \<times> nat) list" where
  "open_candidates ss text =
     List.map_filter (\<lambda>(idx, spec). map_option (\<lambda>pos. (pos, byte_len (spec_open spec), idx))
                                   (find_str (spec_open spec) text)) (enumerate 0 ss)"

definition find_next_open :: "'t InlineTagSpec list \<Rightarrow> ustring \<Rightarrow> (nat \<times> nat) option" where
  "find_next_open ss text =
     map_option (\<lambda>(pos, len, idx). (pos, idx)) (min_by open_before (open_candidates ss text))"

definition max_open_prefix_suffix_len :: "'t InlineTagSpec list \<Rightarrow> ustring \<Rightarrow> nat" where
  "max_open_prefix_suffix_len ss text =
     fold max (map (\<lambda>spec. longest_suffix_prefix_len text (spec_open spec)) ss) 0"

text \<open>One round of the loop of \<open>push_str\<close>: it continues or breaks, with the output it pushed.\<close>

datatype 't round =
    Continue ustring "'t ActiveTag option" "'t ExtractedInlineTag StreamTextChunk"
  | Break ustring "'t ActiveTag option" "'t ExtractedInlineTag StreamTextChunk"

definition visible_prefix :: "ustring \<Rightarrow> 'e StreamTextChunk" where
  "visible_prefix text = \<lparr>visible_text = text, extracted = []\<rparr>"

definition close_round :: "ustring \<Rightarrow> 't ActiveTag \<Rightarrow> 't round" where
  "close_round text act =
     (case find_str (active_close act) text of
        Some close_idx \<Rightarrow>
          Continue (drop (close_idx + length (active_close act)) text) None
            \<lparr>visible_text = [],
             extracted = [\<lparr>tag = active_tag act, content = active_content act @ take close_idx text\<rparr>]\<rparr>
      | None \<Rightarrow>
          (let keep = longest_suffix_prefix_len text (active_close act);
               n = length text - keep
           in Break (drop n text) (Some (act\<lparr>active_content := active_content act @ take n text\<rparr>)) default_stream_chunk))"

definition open_round :: "'t InlineTagSpec list \<Rightarrow> ustring \<Rightarrow> 't round" where
  "open_round ss text =
     (case find_next_open ss text of
        Some (open_idx, spec_idx) \<Rightarrow>
          (let spec = ss ! spec_idx
           in Continue (drop (open_idx + length (spec_open spec)) text)
                (Some \<lparr>active_tag = spec_tag spec, active_close = spec_close spec, active_content = []\<rparr>)
                (visible_prefix (take open_idx text)))
      | None \<Rightarrow>
          (let keep = max_open_prefix_suffix_len ss text;
               n = length text - keep
           in Break (drop n text) None (visible_prefix (take n text))))"

definition push_round :: "'t InlineTagSpec list \<Rightarrow> ustring \<Rightarrow> 't ActiveTag option \<Rightarrow> 't round" where
  "push_round ss text act = (case act of Some a \<Rightarrow> close_round text a | None \<Rightarrow> open_round ss text)"

partial_function (option) push_loop ::
    "'t InlineTagSpec list \<Rightarrow> ustring \<Rightarrow> 't ActiveTag option \<Rightarrow> 't ExtractedInlineTag StreamTextChunk \<Rightarrow>
     (ustring \<times> 't ActiveTag option \<times> 't ExtractedInlineTag StreamTextChunk) option" where
  "push_loop ss text act out =
     (case push_round ss text act of
        Continue text' act' new \<Rightarrow> push_loop ss text' act' (chunk_append out new)
      | Break text' act' new \<Rightarrow> Some (text', act', chunk_append out new))"

declare push_loop.simps [code]

definition inline_push_str ::
    "'t InlineHiddenTagParser \<Rightarrow> ustring \<Rightarrow> ('t InlineHiddenTagParser \<times> 't ExtractedInlineTag StreamTextChunk) option" where
  "inline_push_str p chunk =
     (case push_loop (specs p) (pending p @ chunk) (active p) default_stream_chunk of
        None \<Rightarrow> None
      | Some (text, act, out) \<Rightarrow> Some (p\<lparr>pending := text, active := act\<rparr>, out))"

definition inline_finish ::
    "'t InlineHiddenTagParser \<Rightarrow> 't InlineHiddenTagParser \<times> 't ExtractedInlineTag StreamTextChunk" where
  "inline_finish p =
     (case active p of
        Some act \<Rightarrow>
          (p\<lparr>active := None, pending := []\<rparr>,
           \<lparr>visible_text = [],
            extracted = [\<lparr>tag = active_tag act, content = active_content act @ pending p\<rparr>]\<rparr>)
      | None \<Rightarrow> (p\<lparr>pending := []\<rparr>, visible_prefix (pending p)))"

definition inline_parser :: "('t InlineHiddenTagParser, 't ExtractedInlineTag) StreamTextParser" where
  "inline_parser = \<lparr>push_str = inline_push_str, finish = inline_finish\<rparr>"

section \<open>The next opening tag\<close>

lemma open_before_order:
  "open_before a b \<Longrightarrow> open_before b c \<Longrightarrow> open_before a c"
  "\<not> open_before a a" "a = b \<or> open_before a b \<or> open_before b a"
  by (auto simp: open_before_def split: prod.splits)

abbreviation keep_min :: "nat \<times> nat \<times> nat \<Rightarrow> nat \<times> nat \<times> nat \<Rightarrow> nat \<times> nat \<times> nat" where
  "keep_min y best \<equiv> (if open_before y best then y else best)"

lemma fold_min:
  "fold keep_min xs x \<in> set (x # xs) \<and> (\<forall>y \<in> set (x # xs). \<not> open_before y (fold keep_min xs x))"
proof (induction xs arbitrary: x)
  case Nil
  then show ?case by (simp add: open_before_order(2))
next
  case (Cons y xs)
  define m where "m = fold keep_min xs (keep_min y x)"
  have m: "m \<in> set (keep_min y x # xs)" "\<forall>z \<in> set (keep_min y x # xs). \<not> open_before z m"
    using Cons.IH [of "keep_min y x"] unfolding m_def by blast+
  then have "\<not> open_before x m" "\<not> open_before y m"
    using open_before_order(1) [of y x m] open_before_order(1) [of x y m] open_before_order(3) [of x y]
    by (auto split: if_splits)
  with m show ?case by (auto simp flip: m_def split: if_splits)
qed

lemma min_by_Some:
  "min_by open_before xs = Some m \<longleftrightarrow> m \<in> set xs \<and> (\<forall>x \<in> set xs. \<not> open_before x m)"
proof (cases xs)
  case (Cons x ys)
  then show ?thesis
    using fold_min [of ys x] open_before_order(3) [of m "fold keep_min ys x"] by (auto simp: min_by_def)
qed (simp add: min_by_def)

lemma min_by_None [simp]: "min_by lt xs = None \<longleftrightarrow> xs = []"
  by (simp add: min_by_def split: list.split)

lemma set_open_candidates:
  "(pos, len, idx) \<in> set (open_candidates ss text) \<longleftrightarrow>
     idx < length ss \<and> len = byte_len (spec_open (ss ! idx)) \<and> find_str (spec_open (ss ! idx)) text = Some pos"
  by (auto simp: open_candidates_def map_filter_def in_set_enumerate_eq image_iff split: prod.splits)

definition opens_at :: "'t InlineTagSpec list \<Rightarrow> nat \<Rightarrow> nat \<Rightarrow> nat \<times> nat \<times> nat" where
  "opens_at ss pos idx = (pos, byte_len (spec_open (ss ! idx)), idx)"

lemma find_next_open_Some:
  "find_next_open ss text = Some (pos, idx) \<longleftrightarrow>
     idx < length ss \<and> find_str (spec_open (ss ! idx)) text = Some pos \<and>
     (\<forall>j < length ss. \<forall>q. find_str (spec_open (ss ! j)) text = Some q \<longrightarrow>
        \<not> open_before (opens_at ss q j) (opens_at ss pos idx))"
  by (auto simp: find_next_open_def min_by_Some set_open_candidates opens_at_def)

lemma find_next_open_None:
  "find_next_open ss text = None \<longleftrightarrow> (\<forall>j < length ss. find_str (spec_open (ss ! j)) text = None)"
proof -
  have "open_candidates ss text = [] \<longleftrightarrow> (\<forall>pos len idx. (pos, len, idx) \<notin> set (open_candidates ss text))"
    by (cases "open_candidates ss text") auto
  then show ?thesis by (auto simp: find_next_open_def set_open_candidates) (meson not_None_eq)
qed

lemma find_next_open_skip:
  assumes "\<forall>j < length ss. find_str (spec_open (ss ! j)) (d @ u) =
      map_option ((+) (length d)) (find_str (spec_open (ss ! j)) u)"
  shows "find_next_open ss (d @ u) = map_option (\<lambda>(pos, idx). (length d + pos, idx)) (find_next_open ss u)"
proof (cases "find_next_open ss u")
  case None
  then have "find_next_open ss (d @ u) = None" using assms by (simp add: find_next_open_None)
  with None show ?thesis by simp
next
  case (Some p)
  moreover have "open_before (opens_at ss (length d + q) j) (opens_at ss (length d + pos) idx) =
      open_before (opens_at ss q j) (opens_at ss pos idx)" for q j pos idx
    by (simp add: open_before_def opens_at_def)
  ultimately have "find_next_open ss (d @ u) = Some (length d + fst p, snd p)"
    using assms by (cases p) (auto simp: find_next_open_Some)
  with Some show ?thesis by (simp split: prod.split)
qed

text \<open>
  No opening delimiter occurs inside another one. Without it the result can depend on the chunks: of
  two delimiters, the inner one may be complete before the rest of the outer one arrives.
\<close>

definition no_nested_opens :: "'t InlineTagSpec list \<Rightarrow> bool" where
  "no_nested_opens ss \<longleftrightarrow>
     list_all (\<lambda>a. list_all (\<lambda>b. spec_open a = spec_open b \<or> \<not> sublist (spec_open a) (spec_open b)) ss) ss"

lemma find_str_within: "find_str n (s @ t) = Some i \<Longrightarrow> i + length n \<le> length s \<Longrightarrow> find_str n s = Some i"
  by (auto simp: find_str_Some prefix_append_fits)

lemma prefix_drop_sublist:
  assumes "prefix a (drop i s)" "prefix b (drop j s)" "j \<le> i" "i + length a \<le> j + length b"
  shows "sublist a b"
proof -
  have "drop (i - j) (drop j s) = drop i s" using assms(3) by simp
  moreover obtain r where "drop j s = b @ r" using assms(2) by (auto simp: prefix_def)
  ultimately have "prefix a (drop (i - j) b @ drop (i - j - length b) r)"
    using assms(1) by (metis drop_append)
  then have "prefix a (drop (i - j) b)"
    using assms(3,4) by (subst (asm) prefix_append_fits) auto
  then show ?thesis by (metis append_take_drop_id prefix_imp_sublist sublist_appendI sublist_order.order_trans sublist_append_leftI)
qed

lemma find_next_open_append:
  assumes nxt: "find_next_open ss s = Some (pos, idx)" and ok: "no_nested_opens ss"
  shows "find_next_open ss (s @ t) = Some (pos, idx)"
  unfolding find_next_open_Some
proof (intro conjI allI impI)
  have idx: "idx < length ss" "find_str (spec_open (ss ! idx)) s = Some pos"
    using nxt by (auto simp: find_next_open_Some)
  then show "idx < length ss" "find_str (spec_open (ss ! idx)) (s @ t) = Some pos"
    by (auto simp: find_str_append)
  fix j q assume j: "j < length ss" and q: "find_str (spec_open (ss ! j)) (s @ t) = Some q"
  let ?a = "spec_open (ss ! idx)" and ?b = "spec_open (ss ! j)"
  show "\<not> open_before (opens_at ss q j) (opens_at ss pos idx)"
  proof (cases "q + length ?b \<le> length s")
    case True
    then show ?thesis using find_str_within [OF q] nxt j by (auto simp: find_next_open_Some)
  next
    case False
    have fits: "pos + length ?a \<le> length s" using idx find_str_fits by blast
    have "\<not> q \<le> pos"
    proof
      assume "q \<le> pos"
      moreover have "prefix ?a (drop pos (s @ t))" "prefix ?b (drop q (s @ t))"
        using find_str_append [OF idx(2), of t] q by (auto simp: find_str_Some)
      ultimately have "sublist ?a ?b" using False fits prefix_drop_sublist [of ?a pos "s @ t" ?b q] by simp
      then have "?a = ?b" using ok idx(1) j by (auto simp: no_nested_opens_def list_all_length)
      with fits False \<open>q \<le> pos\<close> show False by simp
    qed
    then show ?thesis by (auto simp: open_before_def opens_at_def)
  qed
qed

section \<open>Rounds on a longer text\<close>

fun after_output :: "'t ExtractedInlineTag StreamTextChunk \<Rightarrow> 't round \<Rightarrow> 't round" where
  "after_output out (Continue text act new) = Continue text act (chunk_append out new)"
| "after_output out (Break text act new) = Break text act (chunk_append out new)"

lemma max_open_bound: "max_open_prefix_suffix_len ss s \<le> length s"
proof -
  have "fold max ns (b :: nat) \<le> length s" if "list_all (\<lambda>n. n \<le> length s) ns" "b \<le> length s" for ns b
    using that by (induction ns arbitrary: b) auto
  then show ?thesis by (simp add: max_open_prefix_suffix_len_def list_all_iff lsp_bound)
qed

lemma fold_max_ge: "(b :: nat) \<le> fold max ns b"
  by (induction ns arbitrary: b) (auto intro: order_trans [OF max.cobounded2])

lemma fold_max_mem: "n \<in> set ns \<Longrightarrow> (n :: nat) \<le> fold max ns b"
  by (induction ns arbitrary: b) (auto intro: order_trans [OF max.cobounded1 fold_max_ge])

lemma max_open_ge:
  "spec \<in> set ss \<Longrightarrow> longest_suffix_prefix_len s (spec_open spec) \<le> max_open_prefix_suffix_len ss s"
  unfolding max_open_prefix_suffix_len_def by (rule fold_max_mem) simp

lemma close_round_continue:
  "close_round s act = Continue s' act' d \<Longrightarrow> close_round (s @ t) act = Continue (s' @ t) act' d"
  by (auto simp: close_round_def Let_def find_str_append dest: find_str_fits split: option.splits)

lemma open_round_continue:
  assumes "open_round ss s = Continue s' act' d" "no_nested_opens ss"
  shows "open_round ss (s @ t) = Continue (s' @ t) act' d"
proof -
  obtain pos idx where nxt: "find_next_open ss s = Some (pos, idx)"
    using assms(1) by (auto simp: open_round_def Let_def split: option.splits)
  then have "pos + length (spec_open (ss ! idx)) \<le> length s"
    by (auto simp: find_next_open_Some dest: find_str_fits)
  with nxt find_next_open_append [OF nxt assms(2), of t] assms(1) show ?thesis
    by (auto simp: open_round_def Let_def)
qed

lemma push_round_continue:
  "push_round ss s act = Continue s' act' d \<Longrightarrow> no_nested_opens ss \<Longrightarrow>
   push_round ss (s @ t) act = Continue (s' @ t) act' d"
  by (auto simp: push_round_def close_round_continue open_round_continue split: option.splits)

lemma close_round_break:
  assumes "close_round s act = Break p act' out" "active_close act \<noteq> []"
  obtains a where "act' = Some a" "active_close a = active_close act"
    and "close_round (s @ t) act = after_output out (close_round (p @ t) a)"
proof -
  let ?c = "active_close act"
  define d where "d = take (length s - longest_suffix_prefix_len s ?c) s"
  define a where "a = act\<lparr>active_content := active_content act @ d\<rparr>"
  have none: "find_str ?c s = None" and p: "p = drop (length s - longest_suffix_prefix_len s ?c) s"
    and act': "act' = Some a" and out: "out = default_stream_chunk"
    using assms(1) by (auto simp: close_round_def Let_def d_def a_def split: option.splits)
  have s: "s = d @ p" by (simp add: d_def p)
  have "length p = longest_suffix_prefix_len s ?c" using lsp_bound [of s ?c] by (simp add: p)
  then have kept: "longest_suffix_prefix_len (d @ p) ?c \<le> length p" by (simp add: s)
  have "close_round (d @ p @ t) act = close_round (p @ t) a"
  proof (cases "find_str ?c (p @ t)")
    case None
    then have "find_str ?c (d @ p @ t) = None" using find_str_kept [OF none [unfolded s] kept] by simp
    moreover have "length (d @ p @ t) - longest_suffix_prefix_len (p @ t) ?c =
        length d + (length (p @ t) - longest_suffix_prefix_len (p @ t) ?c)"
      using lsp_bound [of "p @ t" ?c] by simp
    ultimately show ?thesis
      using None lsp_kept [OF kept assms(2), of t] by (simp add: close_round_def Let_def a_def)
  next
    case (Some i)
    then have "find_str ?c (d @ p @ t) = Some (length d + i)"
      using find_str_kept [OF none [unfolded s] kept] by simp
    with Some show ?thesis by (simp add: close_round_def a_def)
  qed
  moreover have "after_output default_stream_chunk r = r" for r :: "'a round" by (cases r) simp_all
  ultimately show ?thesis using that [OF act'] by (simp add: a_def out s)
qed

lemma open_round_break:
  assumes "open_round ss s = Break p act' out" "specs_ok ss"
  shows "act' = None \<and> open_round ss (s @ t) = after_output out (open_round ss (p @ t))"
proof -
  define d where "d = take (length s - max_open_prefix_suffix_len ss s) s"
  have none: "find_next_open ss s = None" and p: "p = drop (length s - max_open_prefix_suffix_len ss s) s"
    and act': "act' = None" and out: "out = visible_prefix d"
    using assms(1) by (auto simp: open_round_def Let_def d_def split: option.splits prod.splits)
  have s: "s = d @ p" by (simp add: d_def p)
  have "length p = max_open_prefix_suffix_len ss s" using max_open_bound [of ss s] by (simp add: p)
  then have kept: "longest_suffix_prefix_len (d @ p) (spec_open spec) \<le> length p" if "spec \<in> set ss" for spec
    using max_open_ge [OF that, of s] by (simp add: s)
  have "\<forall>j < length ss. find_str (spec_open (ss ! j)) (d @ p @ t) =
      map_option ((+) (length d)) (find_str (spec_open (ss ! j)) (p @ t))"
    using none kept by (auto simp: find_next_open_None s intro!: find_str_kept)
  note nxt = find_next_open_skip [OF this]
  have max: "max_open_prefix_suffix_len ss (d @ p @ t) = max_open_prefix_suffix_len ss (p @ t)"
    using assms(2) kept
    by (auto simp: max_open_prefix_suffix_len_def specs_ok_def list_all_iff lsp_kept cong: map_cong
        intro!: arg_cong2 [of _ _ _ _ "fold max"])
  have "open_round ss (d @ p @ t) = after_output out (open_round ss (p @ t))"
  proof (cases "find_next_open ss (p @ t)")
    case None
    have "length (d @ p @ t) - max_open_prefix_suffix_len ss (p @ t) =
        length d + (length (p @ t) - max_open_prefix_suffix_len ss (p @ t))"
      using max_open_bound [of ss "p @ t"] by simp
    with None nxt max show ?thesis
      by (simp add: open_round_def Let_def out visible_prefix_def chunk_append_def)
  next
    case (Some q)
    with nxt show ?thesis
      by (cases q) (simp add: open_round_def Let_def out visible_prefix_def chunk_append_def)
  qed
  then show ?thesis by (simp add: act' s)
qed

section \<open>The contract of the parser\<close>

definition act_ok :: "'t ActiveTag option \<Rightarrow> bool" where
  "act_ok act \<longleftrightarrow> (case act of None \<Rightarrow> True | Some a \<Rightarrow> active_close a \<noteq> [])"

lemma push_round_break:
  assumes "push_round ss s act = Break p act' out" "specs_ok ss" "act_ok act"
  shows "act_ok act' \<and> push_round ss (s @ t) act = after_output out (push_round ss (p @ t) act')"
proof (cases act)
  case None
  with assms open_round_break [of ss s p act' out t] show ?thesis by (simp add: push_round_def act_ok_def)
next
  case (Some a)
  with assms have "close_round s a = Break p act' out" "active_close a \<noteq> []"
    by (simp_all add: push_round_def act_ok_def)
  then obtain b where "act' = Some b" "active_close b = active_close a"
    "close_round (s @ t) a = after_output out (close_round (p @ t) b)"
    by (rule close_round_break)
  with Some assms(3) show ?thesis by (simp add: push_round_def act_ok_def)
qed

text \<open>A round that continues consumes a delimiter.\<close>

lemma push_round_shrinks:
  assumes "push_round ss s act = Continue s' act' out" "specs_ok ss" "act_ok act"
  shows "length s' < length s \<and> act_ok act'"
proof (cases act)
  case None
  with assms(1) obtain pos idx where nxt: "find_next_open ss s = Some (pos, idx)"
    by (auto simp: push_round_def open_round_def Let_def split: option.splits)
  then have idx: "idx < length ss" "pos + length (spec_open (ss ! idx)) \<le> length s"
    by (auto simp: find_next_open_Some dest: find_str_fits)
  then have "spec_open (ss ! idx) \<noteq> []" "spec_close (ss ! idx) \<noteq> []"
    using assms(2) by (auto simp: specs_ok_def list_all_length)
  moreover from this(1) idx(2) have "length s - (pos + length (spec_open (ss ! idx))) < length s"
    by (cases "spec_open (ss ! idx)") auto
  ultimately show ?thesis
    using None assms(1) nxt idx(2) by (auto simp: push_round_def open_round_def Let_def act_ok_def)
next
  case (Some a)
  with assms(1) obtain i where i: "find_str (active_close a) s = Some i"
    by (auto simp: push_round_def close_round_def Let_def split: option.splits)
  have "active_close a \<noteq> []" using assms(3) Some by (simp add: act_ok_def)
  then have "length s - (i + length (active_close a)) < length s"
    using find_str_fits [OF i] by (cases "active_close a") auto
  with Some assms(1) i show ?thesis
    by (auto simp: push_round_def close_round_def act_ok_def)
qed

fun after_loop ::
    "'t ExtractedInlineTag StreamTextChunk \<Rightarrow> ustring \<times> 't ActiveTag option \<times> 't ExtractedInlineTag StreamTextChunk \<Rightarrow>
     ustring \<times> 't ActiveTag option \<times> 't ExtractedInlineTag StreamTextChunk" where
  "after_loop out (text, act, new) = (text, act, chunk_append out new)"

lemma push_loop_out:
  "specs_ok ss \<Longrightarrow> act_ok act \<Longrightarrow>
   push_loop ss s act out = map_option (after_loop out) (push_loop ss s act default_stream_chunk)"
proof (induction "length s" arbitrary: s act out rule: less_induct)
  case less
  show ?case
  proof (cases "push_round ss s act")
    case (Continue s' act' d)
    have sh: "length s' < length s" "act_ok act'" using push_round_shrinks [OF Continue less.prems] by auto
    have IH: "push_loop ss s' act' o' = map_option (after_loop o') (push_loop ss s' act' default_stream_chunk)" for o'
      using less.hyps [OF sh(1) less.prems(1) sh(2)] .
    have "push_loop ss s act out = push_loop ss s' act' (chunk_append out d)"
      "push_loop ss s act default_stream_chunk = push_loop ss s' act' d"
      by (simp_all add: Continue push_loop.simps [of ss s])
    then show ?thesis
      using IH [of "chunk_append out d"] IH [of d] by (cases "push_loop ss s' act' default_stream_chunk") auto
  qed (simp add: push_loop.simps)
qed

lemma push_loop_split:
  assumes "specs_ok ss" "no_nested_opens ss"
  shows "act_ok act \<Longrightarrow> \<exists>p a out. push_loop ss s act default_stream_chunk = Some (p, a, out) \<and> act_ok a \<and>
    push_round ss p a = Break p a default_stream_chunk \<and>
    (\<forall>t. push_loop ss (s @ t) act default_stream_chunk = map_option (after_loop out) (push_loop ss (p @ t) a default_stream_chunk))"
proof (induction "length s" arbitrary: s act rule: less_induct)
  case less
  show ?case
  proof (cases "push_round ss s act")
    case (Continue s' act' d)
    have sh: "length s' < length s" "act_ok act'" using push_round_shrinks [OF Continue assms(1) less.prems] by auto
    obtain p a out where IH: "push_loop ss s' act' default_stream_chunk = Some (p, a, out)" "act_ok a"
      "push_round ss p a = Break p a default_stream_chunk"
      "\<And>t. push_loop ss (s' @ t) act' default_stream_chunk = map_option (after_loop out) (push_loop ss (p @ t) a default_stream_chunk)"
      using less.hyps [OF sh] by blast
    have "push_loop ss (s @ t) act default_stream_chunk = push_loop ss (s' @ t) act' d" for t
      using push_round_continue [OF Continue assms(2), of t] by (simp add: push_loop.simps [of ss "s @ t"])
    moreover have "push_loop ss s act default_stream_chunk = push_loop ss s' act' d"
      using Continue by (simp add: push_loop.simps [of ss s])
    moreover have "push_loop ss (s' @ t) act' d = map_option (after_loop d) (push_loop ss (s' @ t) act' default_stream_chunk)"
      "push_loop ss s' act' d = map_option (after_loop d) (push_loop ss s' act' default_stream_chunk)" for t
      using push_loop_out assms(1) sh(2) by blast+
    ultimately show ?thesis
      using IH by (auto simp: option.map_comp comp_def intro!: option.map_cong)
  next
    case (Break p a d)
    note step = push_round_break [OF Break assms(1) less.prems]
    have "push_round ss p a = Break p a default_stream_chunk"
      using step [of "[]"] Break by (cases "push_round ss p a") (auto dest: chunk_append_self)
    moreover have "push_loop ss (s @ t) act default_stream_chunk = map_option (after_loop d) (push_loop ss (p @ t) a default_stream_chunk)" for t
    proof (cases "push_round ss (p @ t) a")
      case (Continue q b e)
      have "act_ok b" using push_round_shrinks [OF Continue assms(1)] step by blast
      then have out: "push_loop ss q b o' = map_option (after_loop o') (push_loop ss q b default_stream_chunk)" for o'
        using push_loop_out assms(1) by blast
      have "push_loop ss (s @ t) act default_stream_chunk = push_loop ss q b (chunk_append d e)"
        using step [of t] Continue by (simp add: push_loop.simps [of ss "s @ t"])
      moreover have "push_loop ss (p @ t) a default_stream_chunk = push_loop ss q b e"
        using Continue by (simp add: push_loop.simps [of ss "p @ t"])
      ultimately show ?thesis
        using out [of "chunk_append d e"] out [of e] by (cases "push_loop ss q b default_stream_chunk") auto
    next
      case (Break q b e)
      then show ?thesis
        using step [of t] by (simp add: push_loop.simps [of ss "s @ t"] push_loop.simps [of ss "p @ t"])
    qed
    moreover have "push_loop ss s act default_stream_chunk = Some (p, a, d)"
      by (simp add: Break push_loop.simps [of ss s])
    ultimately show ?thesis using step by blast
  qed
qed

definition inline_inv :: "'t InlineHiddenTagParser \<Rightarrow> bool" where
  "inline_inv p \<longleftrightarrow> specs_ok (specs p) \<and> no_nested_opens (specs p) \<and> act_ok (active p) \<and>
     push_round (specs p) (pending p) (active p) = Break (pending p) (active p) default_stream_chunk"

interpretation inline: stream_text_parser inline_parser inline_inv "\<lambda>xs. xs"
proof unfold_locales
  fix p :: "'t InlineHiddenTagParser" and a
  assume inv: "inline_inv p"
  then show "\<exists>p' out. push_str inline_parser p a = Some (p', out) \<and> inline_inv p'"
    using push_loop_split [of "specs p" "active p" "pending p @ a"]
    by (auto simp: inline_parser_def inline_push_str_def inline_inv_def)
  show "push_str inline_parser p [] = Some (p, default_stream_chunk)"
    using inv by (simp add: inline_parser_def inline_push_str_def inline_inv_def push_loop.simps)
next
  fix p p1 p2 :: "'t InlineHiddenTagParser" and a b out1 out2
  assume inv: "inline_inv p" and p1: "push_str inline_parser p a = Some (p1, out1)"
    and p2: "push_str inline_parser p1 b = Some (p2, out2)"
  then show "\<exists>out. push_str inline_parser p (a @ b) = Some (p2, out) \<and>
      same_chunk (\<lambda>xs. xs) out (chunk_append out1 out2)"
    using push_loop_split [of "specs p" "active p" "pending p @ a"]
    by (auto simp: inline_parser_def inline_push_str_def inline_inv_def split: option.splits)
qed simp

section \<open>Citations\<close>

datatype CitationTag = Citation

definition CITATION_OPEN :: ustring where
  "CITATION_OPEN = str ''<oai-mem-citation>''"

definition CITATION_CLOSE :: ustring where
  "CITATION_CLOSE = str ''</oai-mem-citation>''"

definition citation_specs :: "CitationTag InlineTagSpec list" where
  "citation_specs = [\<lparr>spec_tag = Citation, spec_open = CITATION_OPEN, spec_close = CITATION_CLOSE\<rparr>]"

type_synonym CitationStreamParser = "CitationTag InlineHiddenTagParser"

definition new_citation_parser :: "CitationStreamParser option" where
  "new_citation_parser = new_inline_parser citation_specs"

definition citation_chunk :: "'t ExtractedInlineTag StreamTextChunk \<Rightarrow> ustring StreamTextChunk" where
  "citation_chunk inner = \<lparr>visible_text = visible_text inner, extracted = map content (extracted inner)\<rparr>"

definition citation_push_str ::
    "CitationStreamParser \<Rightarrow> ustring \<Rightarrow> (CitationStreamParser \<times> ustring StreamTextChunk) option" where
  "citation_push_str p chunk =
     (case inline_push_str p chunk of None \<Rightarrow> None | Some (p', inner) \<Rightarrow> Some (p', citation_chunk inner))"

definition citation_finish :: "CitationStreamParser \<Rightarrow> CitationStreamParser \<times> ustring StreamTextChunk" where
  "citation_finish p = (let (p', inner) = inline_finish p in (p', citation_chunk inner))"

definition citation_parser :: "(CitationStreamParser, ustring) StreamTextParser" where
  "citation_parser = \<lparr>push_str = citation_push_str, finish = citation_finish\<rparr>"

definition strip_citations :: "ustring \<Rightarrow> (ustring \<times> ustring list) option" where
  "strip_citations text =
     (case new_citation_parser of
        None \<Rightarrow> None
      | Some parser \<Rightarrow>
          (case citation_push_str parser text of
             None \<Rightarrow> None
           | Some (parser', out) \<Rightarrow>
               (let (_, tail) = citation_finish parser'
                in Some (visible_text out @ visible_text tail, extracted out @ extracted tail))))"

interpretation citation: stream_text_parser citation_parser inline_inv "\<lambda>xs. xs"
proof unfold_locales
  fix p :: CitationStreamParser and a
  assume inv: "inline_inv p"
  show "\<exists>p' out. push_str citation_parser p a = Some (p', out) \<and> inline_inv p'"
    using inline.push_returns [OF inv, of a]
    by (auto simp: citation_parser_def citation_push_str_def inline_parser_def)
  show "push_str citation_parser p [] = Some (p, default_stream_chunk)"
    using inline.push_nothing [OF inv]
    by (auto simp: citation_parser_def citation_push_str_def inline_parser_def citation_chunk_def default_stream_chunk_def)
next
  fix p p1 p2 :: CitationStreamParser and a b out1 out2
  assume inv: "inline_inv p" and p1: "push_str citation_parser p a = Some (p1, out1)"
    and p2: "push_str citation_parser p1 b = Some (p2, out2)"
  from p1 p2 obtain i1 i2 where i: "inline_push_str p a = Some (p1, i1)" "out1 = citation_chunk i1"
    "inline_push_str p1 b = Some (p2, i2)" "out2 = citation_chunk i2"
    by (auto simp: citation_parser_def citation_push_str_def split: option.splits)
  then obtain o' where "inline_push_str p (a @ b) = Some (p2, o')" "same_chunk (\<lambda>xs. xs) o' (chunk_append i1 i2)"
    using inline.push_append [OF inv, of a p1 i1 b p2 i2] by (auto simp: inline_parser_def)
  with i show "\<exists>out. push_str citation_parser p (a @ b) = Some (p2, out) \<and>
      same_chunk (\<lambda>xs. xs) out (chunk_append out1 out2)"
    by (simp add: citation_parser_def citation_push_str_def same_chunk_def citation_chunk_def)
qed simp

text \<open>A delimiter whose first character does not recur is found where it was put.\<close>

lemma find_str_placed:
  assumes "hd n \<notin> set (tl n)" "n \<noteq> []" "\<not> sublist n v"
  shows "find_str n (v @ n @ r) = Some (length v)"
proof -
  have "\<not> prefix n (drop j (v @ n @ r))" if j: "j < length v" for j
  proof
    assume pre: "prefix n (drop j (v @ n @ r))"
    define u where "u = drop j v"
    have pre': "prefix n (u @ n @ r)" and u: "u \<noteq> []" using pre j by (auto simp: u_def)
    have "\<not> prefix n u"
      using assms(3) by (metis append_take_drop_id prefix_imp_sublist sublist_append_leftI sublist_order.order_trans u_def)
    then have "strict_prefix u n"
      using pre' by (metis prefix_append_fits prefix_same_cases prefixI strict_prefixI' strict_prefix_def linorder_le_cases prefix_length_prefix)
    then obtain w where w: "n = u @ w" "w \<noteq> []" by (auto simp: strict_prefix_def prefix_def)
    then have "prefix w (n @ r)" using pre' by simp
    then have "hd w = hd n" using w(2) assms(2) by (cases w; cases n) auto
    moreover have "hd w \<in> set (tl n)" using w u by (cases u) auto
    ultimately show False using assms(1) by simp
  qed
  then show ?thesis by (auto simp: find_str_Some)
qed

lemma find_str_absent: "\<not> sublist n v \<Longrightarrow> find_str n v = None"
proof (rule ccontr)
  assume "\<not> sublist n v" "find_str n v \<noteq> None"
  then obtain i where "prefix n (drop i v)" by (auto simp: find_str_Some)
  with \<open>\<not> sublist n v\<close> show False
    by (metis append_take_drop_id prefix_imp_sublist sublist_append_leftI sublist_order.order_trans)
qed

definition citation_start :: CitationStreamParser where
  "citation_start = \<lparr>specs = citation_specs, pending = [], active = None\<rparr>"

lemma citation_delims [simp]:
  "hd CITATION_OPEN \<notin> set (tl CITATION_OPEN)" "hd CITATION_CLOSE \<notin> set (tl CITATION_CLOSE)"
  "CITATION_OPEN \<noteq> []" "CITATION_CLOSE \<noteq> []"
  by (simp_all add: CITATION_OPEN_def CITATION_CLOSE_def str_def)

lemma citation_specs_ok: "specs_ok citation_specs" "no_nested_opens citation_specs"
  by (simp_all add: specs_ok_def no_nested_opens_def citation_specs_def)

lemma new_citation: "new_citation_parser = Some citation_start"
  by (simp add: new_citation_parser_def new_inline_parser_def citation_specs_ok citation_start_def)

lemma citation_next_open:
  "find_next_open citation_specs s = map_option (\<lambda>pos. (pos, 0)) (find_str CITATION_OPEN s)"
  by (cases "find_str CITATION_OPEN s")
    (simp_all add: find_next_open_def open_candidates_def citation_specs_def min_by_def map_filter_def)

lemma new_parser_inv:
  assumes "new_inline_parser ss = Some p" "no_nested_opens ss"
  shows "inline_inv p"
proof -
  from assms have p: "p = \<lparr>specs = ss, pending = [], active = None\<rparr>" "specs_ok ss"
    by (simp_all add: new_inline_parser_def split: if_splits)
  have "find_next_open ss [] = None"
    using p(2) by (auto simp: find_next_open_None specs_ok_def list_all_length)
  with assms p show ?thesis
    by (simp add: inline_inv_def act_ok_def push_round_def open_round_def visible_prefix_def default_stream_chunk_def)
qed

lemma citation_start_inv: "inline_inv citation_start"
  using new_parser_inv [of citation_specs] new_citation citation_specs_ok by (simp add: new_citation_parser_def)

definition uncited :: "ustring \<Rightarrow> bool" where
  "uncited v \<longleftrightarrow> \<not> sublist CITATION_OPEN v"

definition cite_body :: "ustring \<Rightarrow> bool" where
  "cite_body c \<longleftrightarrow> \<not> sublist CITATION_CLOSE c"

abbreviation cited :: "ustring \<Rightarrow> CitationTag ExtractedInlineTag" where
  "cited c \<equiv> \<lparr>tag = Citation, content = c\<rparr>"

fun woven :: "(ustring \<times> ustring) list \<Rightarrow> ustring" where
  "woven [] = []"
| "woven ((v, c) # ps) = v @ CITATION_OPEN @ c @ CITATION_CLOSE @ woven ps"

definition unclosed :: "ustring option \<Rightarrow> ustring" where
  "unclosed u = (case u of None \<Rightarrow> [] | Some c \<Rightarrow> CITATION_OPEN @ c)"

lemma open_round_cited:
  "uncited v \<Longrightarrow> push_round citation_specs (v @ CITATION_OPEN @ r) None =
     Continue r (Some \<lparr>active_tag = Citation, active_close = CITATION_CLOSE, active_content = []\<rparr>) (visible_prefix v)"
  using find_str_placed [of CITATION_OPEN v r]
  by (simp add: push_round_def open_round_def citation_next_open uncited_def Let_def)
    (simp add: citation_specs_def)

lemma push_loop_cited:
  assumes "uncited v" "cite_body c"
  shows "push_loop citation_specs (v @ CITATION_OPEN @ c @ CITATION_CLOSE @ r) None out =
    push_loop citation_specs r None (chunk_append out \<lparr>visible_text = v, extracted = [cited c]\<rparr>)"
proof -
  have "push_round citation_specs (c @ CITATION_CLOSE @ r)
      (Some \<lparr>active_tag = Citation, active_close = CITATION_CLOSE, active_content = []\<rparr>) =
      Continue r None \<lparr>visible_text = [], extracted = [cited c]\<rparr>"
    using find_str_placed [of CITATION_CLOSE c r] assms(2)
    by (simp add: push_round_def close_round_def cite_body_def)
  then show ?thesis
    using open_round_cited [OF assms(1), of "c @ CITATION_CLOSE @ r"]
    by (simp add: push_loop.simps [of _ "v @ _"] push_loop.simps [of _ "c @ _"] visible_prefix_def chunk_append_def)
qed

lemma push_loop_woven:
  "list_all (\<lambda>(v, c). uncited v \<and> cite_body c) ps \<Longrightarrow>
   push_loop citation_specs (woven ps @ r) None out =
   push_loop citation_specs r None
     (chunk_append out \<lparr>visible_text = concat (map fst ps), extracted = map (\<lambda>p. cited (snd p)) ps\<rparr>)"
proof (induction ps arbitrary: out)
  case (Cons p ps)
  obtain v c where "p = (v, c)" by fastforce
  with Cons show ?case
    using push_loop_cited [of v c "woven ps @ r" out] by (simp add: chunk_append_def)
qed (simp flip: default_stream_chunk_def)

text \<open>The end of the text: no further tag, or a tag that is never closed.\<close>

lemma finish_woven:
  assumes "uncited t" "list_all cite_body (case u of None \<Rightarrow> [] | Some c \<Rightarrow> [c])"
  shows "\<exists>p out'. push_loop citation_specs (t @ unclosed u) None out = Some (pending p, active p, out') \<and>
    specs p = citation_specs \<and> fst (inline_finish p) = citation_start \<and>
    chunk_append out' (snd (inline_finish p)) =
      chunk_append out \<lparr>visible_text = t, extracted = (case u of None \<Rightarrow> [] | Some c \<Rightarrow> [cited c])\<rparr>"
proof (cases u)
  case None
  have "find_str CITATION_OPEN t = None" using assms(1) by (simp add: find_str_absent uncited_def)
  then show ?thesis
    by (intro exI [of _ "\<lparr>specs = citation_specs,
          pending = drop (length t - max_open_prefix_suffix_len citation_specs t) t, active = None\<rparr>"])
      (simp add: None unclosed_def push_loop.simps push_round_def open_round_def citation_next_open Let_def
        inline_finish_def citation_start_def visible_prefix_def chunk_append_def)
next
  case (Some c)
  let ?a = "\<lparr>active_tag = Citation, active_close = CITATION_CLOSE, active_content = []\<rparr>"
  let ?n = "length c - longest_suffix_prefix_len c CITATION_CLOSE"
  have "find_str CITATION_CLOSE c = None" using assms(2) Some by (simp add: find_str_absent cite_body_def)
  then have "push_round citation_specs c (Some ?a) =
      Break (drop ?n c) (Some (?a\<lparr>active_content := take ?n c\<rparr>)) default_stream_chunk"
    by (simp add: push_round_def close_round_def Let_def)
  then have "push_loop citation_specs (t @ unclosed u) None out =
      Some (drop ?n c, Some (?a\<lparr>active_content := take ?n c\<rparr>), chunk_append out (visible_prefix t))"
    using open_round_cited [OF assms(1), of c]
    by (simp add: Some unclosed_def push_loop.simps [of _ "t @ _"] push_loop.simps [of _ c])
  then show ?thesis
    by (intro exI [of _ "\<lparr>specs = citation_specs, pending = drop ?n c,
          active = Some (?a\<lparr>active_content := take ?n c\<rparr>)\<rparr>"])
      (simp add: Some inline_finish_def citation_start_def visible_prefix_def chunk_append_def)
qed

lemma collect_woven:
  assumes "list_all (\<lambda>(v, c). uncited v \<and> cite_body c) ps" "uncited t"
    and "list_all cite_body (case u of None \<Rightarrow> [] | Some c \<Rightarrow> [c])"
  shows "collect_chunks citation_parser citation_start [woven ps @ t @ unclosed u] =
    Some (citation_start, \<lparr>visible_text = concat (map fst ps) @ t,
      extracted = map snd ps @ (case u of None \<Rightarrow> [] | Some c \<Rightarrow> [c])\<rparr>)"
proof -
  let ?ps = "\<lparr>visible_text = concat (map fst ps), extracted = map (\<lambda>p. cited (snd p)) ps\<rparr>"
  let ?all = "chunk_append ?ps \<lparr>visible_text = t, extracted = (case u of None \<Rightarrow> [] | Some c \<Rightarrow> [cited c])\<rparr>"
  obtain p out' where p: "push_loop citation_specs (t @ unclosed u) None ?ps = Some (pending p, active p, out')"
    "specs p = citation_specs" "fst (inline_finish p) = citation_start"
    "chunk_append out' (snd (inline_finish p)) = ?all"
    using finish_woven [OF assms(2,3)] by blast
  have "inline_push_str citation_start (woven ps @ t @ unclosed u) = Some (p, out')"
    using p(1,2) push_loop_woven [OF assms(1), of "t @ unclosed u" default_stream_chunk]
    by (simp add: inline_push_str_def citation_start_def)
  then have "collect_chunks citation_parser citation_start [woven ps @ t @ unclosed u] =
      Some (citation_start, chunk_append (citation_chunk out') (citation_chunk (snd (inline_finish p))))"
    using p(3) by (cases "inline_finish p")
      (simp add: collect_chunks_def citation_parser_def citation_push_str_def citation_finish_def)
  also have "chunk_append (citation_chunk out') (citation_chunk (snd (inline_finish p))) = citation_chunk ?all"
    unfolding p(4) [symmetric] by (simp add: citation_chunk_def chunk_append_def)
  finally show ?thesis by (simp add: citation_chunk_def comp_def split: option.split)
qed

section \<open>Properties\<close>

text \<open>
  C26: The inline tag parser always returns and its result does not depend on how the text is cut
  into chunks: feeding the same text in any two ways and finishing gives the same visible text, the
  same extracted tags and the same final state. This holds of every parser the constructor accepts
  whose opening delimiters do not occur inside one another.
\<close>

theorem inline_chunking:
  assumes "new_inline_parser ss = Some p" "no_nested_opens ss" "concat cs = concat ds"
  shows "\<exists>p' out. collect_chunks inline_parser p cs = Some (p', out) \<and>
    collect_chunks inline_parser p ds = Some (p', out)"
proof -
  obtain p' out out' where "collect_chunks inline_parser p cs = Some (p', out)"
    "collect_chunks inline_parser p ds = Some (p', out')" "same_chunk (\<lambda>xs. xs) out out'"
    using inline.collect_chunking [OF new_parser_inv [OF assms(1,2)] assms(3)] by blast
  then show ?thesis by (cases out; cases out') (simp add: same_chunk_def)
qed

definition tag_spec :: "string \<Rightarrow> nat InlineTagSpec" where
  "tag_spec name =
     \<lparr>spec_tag = length name, spec_open = str (''<'' @ name @ ''>''), spec_close = str (''</'' @ name @ ''>'')\<rparr>"

theorem inline_chunking_witness:
  "\<exists>p p' out. new_inline_parser [tag_spec ''a'', tag_spec ''ab''] = Some p \<and>
     no_nested_opens [tag_spec ''a'', tag_spec ''ab''] \<and>
     collect_chunks inline_parser p [str ''x<a'', str ''b>y</a'', str ''b>z''] = Some (p', out) \<and>
     collect_chunks inline_parser p [str ''x<ab>y</ab>z''] = Some (p', out) \<and>
     visible_text out = str ''xz''"
proof -
  obtain p where p: "new_inline_parser [tag_spec ''a'', tag_spec ''ab''] = Some p"
    by (simp add: new_inline_parser_def specs_ok_def tag_spec_def str_def)
  have ok: "no_nested_opens [tag_spec ''a'', tag_spec ''ab'']"
    by (simp add: no_nested_opens_def tag_spec_def str_def sublist_Cons_right)
  have "concat [str ''x<a'', str ''b>y</a'', str ''b>z''] = concat [str ''x<ab>y</ab>z'']"
    by (simp add: str_def)
  from inline_chunking [OF p ok this] obtain p' out where
    out: "collect_chunks inline_parser p [str ''x<a'', str ''b>y</a'', str ''b>z''] = Some (p', out)"
      "collect_chunks inline_parser p [str ''x<ab>y</ab>z''] = Some (p', out)" by blast
  have "map_option (\<lambda>p. map_option (\<lambda>(_, out). visible_text out)
      (collect_chunks inline_parser p [str ''x<ab>y</ab>z'']))
      (new_inline_parser [tag_spec ''a'', tag_spec ''ab'']) = Some (Some (str ''xz''))"
    by code_simp
  with p out ok show ?thesis by auto
qed

definition prefix_opener_specs :: "nat InlineTagSpec list" where
  "prefix_opener_specs =
     [\<lparr>spec_tag = 0, spec_open = str ''<a'', spec_close = str ''</a>''\<rparr>,
      \<lparr>spec_tag = 1, spec_open = str ''<ab>'', spec_close = str ''</ab>''\<rparr>]"


text \<open>
  C28: However a text with citations is cut into chunks, the visible text is the text with every
  citation removed and the citations come out in order, a last one that is never closed included;
  the parser ends in its initial state, with nothing held back. The pieces outside citations are
  only required not to contain the opening tag, the bodies not to contain the closing one.
\<close>

theorem citations_stripped:
  assumes "list_all (\<lambda>(v, c). uncited v \<and> cite_body c) ps" "uncited t"
    and "list_all cite_body (case u of None \<Rightarrow> [] | Some c \<Rightarrow> [c])"
    and "concat cs = woven ps @ t @ unclosed u"
  shows "new_citation_parser = Some citation_start \<and>
    collect_chunks citation_parser citation_start cs =
      Some (citation_start, \<lparr>visible_text = concat (map fst ps) @ t,
        extracted = map snd ps @ (case u of None \<Rightarrow> [] | Some c \<Rightarrow> [c])\<rparr>)"
proof -
  let ?text = "woven ps @ t @ unclosed u"
  have "concat cs = concat [?text]" using assms(4) by simp
  from citation.collect_chunking [OF citation_start_inv this] collect_woven [OF assms(1-3)]
  obtain out where "collect_chunks citation_parser citation_start cs = Some (citation_start, out)"
    "same_chunk (\<lambda>xs. xs) out \<lparr>visible_text = concat (map fst ps) @ t,
        extracted = map snd ps @ (case u of None \<Rightarrow> [] | Some c \<Rightarrow> [c])\<rparr>" by auto
  then show ?thesis by (cases out) (simp add: same_chunk_def new_citation)
qed

theorem citations_stripped_witness:
  "list_all (\<lambda>(v, c). uncited v \<and> cite_body c) [(str ''a<'', str ''doc'')] \<and> uncited (str ''b'') \<and>
   collect_chunks citation_parser citation_start
     [str ''a<<oai-mem-'', str ''citation>doc</oai-mem-citation'', str ''>b<oai-mem-citation>e''] =
   Some (citation_start, \<lparr>visible_text = str ''a<b'', extracted = [str ''doc'', str ''e'']\<rparr>)"
proof -
  have short: "\<not> sublist n v" if "length v < length n" for n v :: ustring
    using that by (auto dest: sublist_length_le)
  have "uncited (str ''a<'')" "uncited (str ''b'')" "cite_body (str ''doc'')" "cite_body (str ''e'')"
    unfolding uncited_def cite_body_def
    by (rule short, simp add: CITATION_OPEN_def CITATION_CLOSE_def str_def)+
  moreover have "concat [str ''a<<oai-mem-'', str ''citation>doc</oai-mem-citation'', str ''>b<oai-mem-citation>e''] =
      woven [(str ''a<'', str ''doc'')] @ str ''b'' @ unclosed (Some (str ''e''))"
    by (simp add: CITATION_OPEN_def CITATION_CLOSE_def str_def unclosed_def)
  ultimately show ?thesis
    using citations_stripped [of "[(str ''a<'', str ''doc'')]" "str ''b''" "Some (str ''e'')"]
    by (simp add: str_def)
qed

end
