(* ===== verification/Tagged_Lines.thy ===== *)
theory Tagged_Lines
  imports Stream_Text
begin

text \<open>
  \<open>utils/stream-parser/src/tagged_line_parser.rs\<close> and \<open>proposed_plan.rs\<close>: blocks between tags that
  stand alone on a line, in a streamed text, and the proposed plan of plan mode.

  The parser works on characters and gives up on a line as soon as it cannot be a tag any more. The
  specification reads whole lines: a line is a tag, or it is text of the block it is in. Segments are
  compared through the tokens they stand for, since the parser may cut the same text differently.
\<close>

section \<open>The parser\<close>

record 't TagSpec =
  open_line :: ustring
  close_line :: ustring
  line_tag :: 't

datatype 't TaggedLineSegment =
    Normal ustring
  | TagStart 't
  | TagDelta 't ustring
  | TagEnd 't

record 't TaggedLineParser =
  line_specs :: "'t TagSpec list"
  line_active :: "'t option"
  detect_tag :: bool
  line_buffer :: ustring

definition new_tagged_lines :: "'t TagSpec list \<Rightarrow> 't TaggedLineParser" where
  "new_tagged_lines specs = \<lparr>line_specs = specs, line_active = None, detect_tag = True, line_buffer = []\<rparr>"

definition push_segment :: "'t TaggedLineSegment list \<Rightarrow> 't TaggedLineSegment \<Rightarrow> 't TaggedLineSegment list" where
  "push_segment segments segment =
     (case segment of
        Normal delta \<Rightarrow>
          (if delta = [] then segments
           else (case last_opt segments of
                   Some (Normal existing) \<Rightarrow> butlast segments @ [Normal (existing @ delta)]
                 | _ \<Rightarrow> segments @ [Normal delta]))
      | TagDelta tag delta \<Rightarrow>
          (if delta = [] then segments
           else (case last_opt segments of
                   Some (TagDelta existing_tag existing) \<Rightarrow>
                     (if existing_tag = tag then butlast segments @ [TagDelta existing_tag (existing @ delta)]
                      else segments @ [TagDelta tag delta])
                 | _ \<Rightarrow> segments @ [TagDelta tag delta]))
      | TagStart tag \<Rightarrow> segments @ [TagStart tag]
      | TagEnd tag \<Rightarrow> segments @ [TagEnd tag])"

definition push_text :: "'t TaggedLineParser \<Rightarrow> ustring \<Rightarrow> 't TaggedLineSegment list \<Rightarrow> 't TaggedLineSegment list" where
  "push_text p text segments =
     (case line_active p of
        Some tag \<Rightarrow> push_segment segments (TagDelta tag text)
      | None \<Rightarrow> push_segment segments (Normal text))"

definition is_tag_prefix :: "'t TagSpec list \<Rightarrow> ustring \<Rightarrow> bool" where
  "is_tag_prefix specs slug =
     (let slug = trim_end slug
      in list_ex (\<lambda>spec. prefix slug (open_line spec) \<or> prefix slug (close_line spec)) specs)"

definition match_open :: "'t TagSpec list \<Rightarrow> ustring \<Rightarrow> 't option" where
  "match_open specs slug = map_option line_tag (List.find (\<lambda>spec. open_line spec = slug) specs)"

definition match_close :: "'t TagSpec list \<Rightarrow> ustring \<Rightarrow> 't option" where
  "match_close specs slug = map_option line_tag (List.find (\<lambda>spec. close_line spec = slug) specs)"

definition line_slug :: "ustring \<Rightarrow> ustring" where
  "line_slug line =
     (let without_newline = (case strip_suffix [LF] line of Some l \<Rightarrow> l | None \<Rightarrow> line)
      in trim_end (trim_start without_newline))"

definition finish_tag_line ::
    "'t TaggedLineParser \<Rightarrow> 't TaggedLineSegment list \<Rightarrow> 't TaggedLineParser \<times> 't TaggedLineSegment list" where
  "finish_tag_line p segments =
     (let line = line_buffer p; q = p\<lparr>line_buffer := []\<rparr>; slug = line_slug line;
          opened = match_open (line_specs p) slug; closed = match_close (line_specs p) slug
      in if opened \<noteq> None \<and> line_active q = None
         then (q\<lparr>line_active := opened, detect_tag := True\<rparr>, push_segment segments (TagStart (the opened)))
         else if closed \<noteq> None \<and> line_active q = closed
         then (q\<lparr>line_active := None, detect_tag := True\<rparr>, push_segment segments (TagEnd (the closed)))
         else (q\<lparr>detect_tag := True\<rparr>, push_text q line segments))"

definition parse_char ::
    "uchar \<Rightarrow> 't TaggedLineParser \<times> ustring \<times> 't TaggedLineSegment list \<Rightarrow>
     't TaggedLineParser \<times> ustring \<times> 't TaggedLineSegment list" where
  "parse_char ch cfg =
     (case cfg of (p, run, segments) \<Rightarrow>
        if detect_tag p
        then
          (let (run, segments) = (if run \<noteq> [] then ([], push_text p run segments) else (run, segments));
               p = p\<lparr>line_buffer := line_buffer p @ [ch]\<rparr>
           in if ch = LF then (let (p', segments') = finish_tag_line p segments in (p', run, segments'))
              else
                (let slug = trim_start (line_buffer p)
                 in if slug = [] \<or> is_tag_prefix (line_specs p) slug then (p, run, segments)
                    else
                      (let buffered = line_buffer p; p = p\<lparr>line_buffer := [], detect_tag := False\<rparr>
                       in (p, run, push_text p buffered segments))))
        else
          (let run = run @ [ch]
           in if ch = LF then (p\<lparr>detect_tag := True\<rparr>, [], push_text p run segments)
              else (p, run, segments)))"

definition parse_tagged :: "'t TaggedLineParser \<Rightarrow> ustring \<Rightarrow> 't TaggedLineParser \<times> 't TaggedLineSegment list" where
  "parse_tagged p delta =
     (case fold parse_char delta (p, [], []) of (p', run, segments) \<Rightarrow>
        (p', if run \<noteq> [] then push_text p' run segments else segments))"

definition finish_buffer :: "'t TaggedLineParser \<Rightarrow> 't TaggedLineParser \<times> 't TaggedLineSegment list" where
  "finish_buffer p =
     (if line_buffer p = [] then (p, [])
      else
        (let buffered = line_buffer p; q = p\<lparr>line_buffer := []\<rparr>; slug = line_slug buffered;
             opened = match_open (line_specs p) slug; closed = match_close (line_specs p) slug
         in if opened \<noteq> None \<and> line_active q = None
            then (q\<lparr>line_active := opened\<rparr>, push_segment [] (TagStart (the opened)))
            else if closed \<noteq> None \<and> line_active q = closed
            then (q\<lparr>line_active := None\<rparr>, push_segment [] (TagEnd (the closed)))
            else (q, push_text q buffered [])))"

definition finish_lines :: "'t TaggedLineParser \<Rightarrow> 't TaggedLineParser \<times> 't TaggedLineSegment list" where
  "finish_lines p =
     (let (q, segments) = finish_buffer p;
          segments' = (case line_active q of Some tag \<Rightarrow> push_segment segments (TagEnd tag) | None \<Rightarrow> segments)
      in (q\<lparr>line_active := None, detect_tag := True\<rparr>, segments'))"

section \<open>Tokens\<close>

datatype 't token = TextTok uchar | StartTok 't | DeltaTok 't uchar | EndTok 't

fun segment_tokens :: "'t TaggedLineSegment \<Rightarrow> 't token list" where
  "segment_tokens (Normal s) = map TextTok s"
| "segment_tokens (TagStart t) = [StartTok t]"
| "segment_tokens (TagDelta t s) = map (DeltaTok t) s"
| "segment_tokens (TagEnd t) = [EndTok t]"

definition tokens :: "'t TaggedLineSegment list \<Rightarrow> 't token list" where
  "tokens segments = concat (map segment_tokens segments)"

definition text_tokens :: "'t option \<Rightarrow> ustring \<Rightarrow> 't token list" where
  "text_tokens act s = (case act of None \<Rightarrow> map TextTok s | Some t \<Rightarrow> map (DeltaTok t) s)"

lemma tokens_simps [simp]:
  "tokens [] = []" "tokens (xs @ ys) = tokens xs @ tokens ys" "tokens (x # xs) = segment_tokens x @ tokens xs"
  by (simp_all add: tokens_def)

lemma text_tokens_simps [simp]:
  "text_tokens act [] = []" "text_tokens act (s @ t) = text_tokens act s @ text_tokens act t"
  by (simp_all add: text_tokens_def split: option.split)

lemma tokens_push_segment [simp]: "tokens (push_segment segs s) = tokens segs @ segment_tokens s"
proof -
  have "tokens (butlast segs) @ segment_tokens l = tokens segs" if "last_opt segs = Some l" for l
    using that by (auto simp: last_opt_eq_Some)
  then show ?thesis
    by (auto simp: push_segment_def simp flip: append_assoc split: TaggedLineSegment.split option.split)
qed

lemma tokens_push_text [simp]: "tokens (push_text p s segs) = tokens segs @ text_tokens (line_active p) s"
  by (simp add: push_text_def text_tokens_def split: option.split)

text \<open>What a whole line means.\<close>

definition line_end :: "'t TagSpec list \<Rightarrow> 't option \<Rightarrow> ustring \<Rightarrow> 't option \<times> 't token list" where
  "line_end specs act line =
     (let opened = match_open specs (line_slug line); closed = match_close specs (line_slug line)
      in if opened \<noteq> None \<and> act = None then (opened, [StartTok (the opened)])
         else if closed \<noteq> None \<and> act = closed then (None, [EndTok (the closed)])
         else (act, text_tokens act line))"

fun lines_run :: "'t TagSpec list \<Rightarrow> 't option \<Rightarrow> ustring list \<Rightarrow> 't option \<times> 't token list" where
  "lines_run specs act [] = (act, [])"
| "lines_run specs act (l # ls) =
     (let (act', toks) = line_end specs act l; (act'', toks') = lines_run specs act' ls in (act'', toks @ toks'))"

definition closing :: "'t option \<Rightarrow> 't token list" where
  "closing act = (case act of None \<Rightarrow> [] | Some t \<Rightarrow> [EndTok t])"

definition lines_tokens :: "'t TagSpec list \<Rightarrow> ustring list \<Rightarrow> 't token list" where
  "lines_tokens specs ls = (let (act, toks) = lines_run specs None ls in toks @ closing act)"

section \<open>Characters one by one\<close>

definition char_step :: "'t TaggedLineParser \<Rightarrow> uchar \<Rightarrow> 't TaggedLineParser \<times> 't token list" where
  "char_step p ch =
     (if detect_tag p
      then
        (let b = line_buffer p @ [ch]
         in if ch = LF
            then (let (act, toks) = line_end (line_specs p) (line_active p) b
                  in (p\<lparr>line_active := act, line_buffer := []\<rparr>, toks))
            else if trim_start b = [] \<or> is_tag_prefix (line_specs p) (trim_start b) then (p\<lparr>line_buffer := b\<rparr>, [])
            else (p\<lparr>line_buffer := [], detect_tag := False\<rparr>, text_tokens (line_active p) b))
      else (if ch = LF then p\<lparr>detect_tag := True\<rparr> else p, text_tokens (line_active p) [ch]))"

fun char_steps :: "'t TaggedLineParser \<Rightarrow> ustring \<Rightarrow> 't TaggedLineParser \<times> 't token list" where
  "char_steps p [] = (p, [])"
| "char_steps p (c # s) =
     (let (p', toks) = char_step p c; (p'', toks') = char_steps p' s in (p'', toks @ toks'))"

lemma char_steps_Cons:
  "fst (char_steps p (c # s)) = fst (char_steps (fst (char_step p c)) s)"
  "snd (char_steps p (c # s)) = snd (char_step p c) @ snd (char_steps (fst (char_step p c)) s)"
  by (simp_all add: Let_def split: prod.splits)

lemma char_steps_append:
  "char_steps p (s @ t) =
     (let (p', toks) = char_steps p s; (p'', toks') = char_steps p' t in (p'', toks @ toks'))"
  by (induction s arbitrary: p) (auto simp: Let_def split: prod.splits)

lemma finish_line_step:
  "finish_tag_line p segs = (q, segs') \<Longrightarrow> detect_tag p \<Longrightarrow>
   q = p\<lparr>line_active := fst (line_end (line_specs p) (line_active p) (line_buffer p)), line_buffer := []\<rparr> \<and>
   tokens segs' = tokens segs @ snd (line_end (line_specs p) (line_active p) (line_buffer p))"
  by (cases p) (auto simp: finish_tag_line_def line_end_def Let_def split: if_splits)

lemma parse_char_step:
  assumes "parse_char ch (p, run, segs) = (q, run', segs')" "run = [] \<or> \<not> detect_tag p"
  shows "q = fst (char_step p ch) \<and> (run' = [] \<or> \<not> detect_tag q) \<and>
    tokens segs' @ text_tokens (line_active q) run' =
    tokens segs @ text_tokens (line_active p) run @ snd (char_step p ch)"
proof (cases "detect_tag p")
  case True
  then have run: "run = []" using assms(2) by simp
  show ?thesis
  proof (cases "ch = LF")
    case LF: True
    let ?p = "p\<lparr>line_buffer := line_buffer p @ [ch]\<rparr>"
    obtain r s where fl: "finish_tag_line ?p segs = (r, s)" by fastforce
    with assms(1) True run LF have "q = r" "run' = []" "segs' = s"
      by (auto simp: parse_char_def Let_def)
    then show ?thesis
      using finish_line_step [OF fl] True run LF
      by (auto simp: char_step_def Let_def split: prod.splits)
  next
    case False
    with assms(1) True run show ?thesis
      by (auto simp: parse_char_def char_step_def Let_def split: if_splits)
  qed
next
  case False
  with assms show ?thesis
    by (auto simp: parse_char_def char_step_def Let_def split: if_splits)
qed

lemma fold_parse_char:
  "fold parse_char s (p, run, segs) = (q, run', segs') \<Longrightarrow> run = [] \<or> \<not> detect_tag p \<Longrightarrow>
   q = fst (char_steps p s) \<and> tokens segs' @ text_tokens (line_active q) run' =
     tokens segs @ text_tokens (line_active p) run @ snd (char_steps p s)"
proof (induction s arbitrary: p run segs)
  case (Cons c s)
  obtain p1 run1 segs1 where c: "parse_char c (p, run, segs) = (p1, run1, segs1)"
    by (metis prod_cases3)
  note step = parse_char_step [OF c Cons.prems(2)]
  have f: "fold parse_char s (p1, run1, segs1) = (q, run', segs')" using Cons.prems(1) c by simp
  have "q = fst (char_steps p1 s) \<and> tokens segs' @ text_tokens (line_active q) run' =
      tokens segs1 @ text_tokens (line_active p1) run1 @ snd (char_steps p1 s)"
    using Cons.IH [OF f] step by blast
  moreover have "tokens segs1 @ text_tokens (line_active p1) run1 @ u =
      tokens segs @ text_tokens (line_active p) run @ snd (char_step p c) @ u" for u
    using step by (metis append_assoc)
  ultimately show ?case using step unfolding char_steps_Cons by metis
qed auto

text \<open>Parsing a chunk is the characters of it, whatever the chunk.\<close>

lemma parse_steps: "fst (parse_tagged p s) = fst (char_steps p s) \<and> tokens (snd (parse_tagged p s)) = snd (char_steps p s)"
proof -
  obtain q run segs where f: "fold parse_char s (p, [], []) = (q, run, segs)" by (metis prod_cases3)
  then show ?thesis using fold_parse_char [OF f] by (auto simp: parse_tagged_def)
qed

section \<open>Lines\<close>

text \<open>
  Giving up early is right: a line whose beginning cannot be the beginning of a tag is no tag,
  whatever follows.
\<close>

definition not_a_tag :: "'t TagSpec list \<Rightarrow> ustring \<Rightarrow> bool" where
  "not_a_tag specs slug \<longleftrightarrow> match_open specs slug = None \<and> match_close specs slug = None"

lemma not_a_tag_iff:
  "not_a_tag specs slug \<longleftrightarrow> list_all (\<lambda>spec. open_line spec \<noteq> slug \<and> close_line spec \<noteq> slug) specs"
  by (auto simp: not_a_tag_def match_open_def match_close_def find_None_iff list_all_iff)

lemma trim_end_prefix: "prefix (trim_end s) s"
  using trim_end_matches_split [of s is_whitespace] by (auto simp: trim_end_def prefix_def)

lemma trim_start_append: "trim_start b \<noteq> [] \<Longrightarrow> trim_start (b @ w) = trim_start b @ w"
  by (induction b) (auto simp: trim_simps split: if_splits)

lemma tag_prefix_trim:
  assumes "trim_start b \<noteq> []"
  shows "prefix (trim_end (trim_start b)) (trim_end (trim_start (b @ w)))"
proof -
  define x where "x = trim_start b"
  have "trim_start (b @ w) = x @ w" using assms by (simp add: x_def trim_start_append)
  moreover have "prefix (trim_end x) (trim_end (x @ w))"
    using trim_end_prefix [of x] by (auto simp: trim_end_append prefix_append)
  ultimately show ?thesis by (simp add: x_def)
qed

lemma early_text:
  assumes "trim_start b \<noteq> []" "\<not> is_tag_prefix specs (trim_start b)"
  shows "not_a_tag specs (trim_end (trim_start (b @ w)))"
  using assms tag_prefix_trim [OF assms(1), of w]
  by (auto simp: not_a_tag_iff is_tag_prefix_def Let_def list_all_iff list_ex_iff)

lemma line_slug_LF: "line_slug (w @ [LF]) = trim_end (trim_start w)"
  by (simp add: line_slug_def strip_suffix_def)

lemma line_slug_open: "LF \<notin> set w \<Longrightarrow> line_slug w = trim_end (trim_start w)"
  by (auto simp: line_slug_def strip_suffix_def suffix_def)

lemma line_end_text:
  "not_a_tag specs (line_slug l) \<Longrightarrow> line_end specs act l = (act, text_tokens act l)"
  by (simp add: not_a_tag_def line_end_def)

lemma text_chars:
  "LF \<notin> set w \<Longrightarrow> \<not> detect_tag p \<Longrightarrow> char_steps p w = (p, text_tokens (line_active p) w)"
proof (induction w)
  case (Cons c w)
  have "text_tokens (line_active p) (c # w) = text_tokens (line_active p) [c] @ text_tokens (line_active p) w"
    by (simp flip: text_tokens_simps(2))
  with Cons show ?case by (simp add: char_step_def)
qed simp

lemma line_chars:
  assumes "LF \<notin> set w" "detect_tag p"
  shows "char_steps p w = (p\<lparr>line_buffer := line_buffer p @ w\<rparr>, []) \<or>
    char_steps p w = (p\<lparr>line_buffer := [], detect_tag := False\<rparr>, text_tokens (line_active p) (line_buffer p @ w)) \<and>
      not_a_tag (line_specs p) (trim_end (trim_start (line_buffer p @ w)))"
  using assms
proof (induction w arbitrary: p)
  case (Cons c w)
  let ?b = "line_buffer p @ [c]"
  show ?case
  proof (cases "trim_start ?b = [] \<or> is_tag_prefix (line_specs p) (trim_start ?b)")
    case True
    then have step: "char_step p c = (p\<lparr>line_buffer := ?b\<rparr>, [])"
      using Cons.prems by (auto simp: char_step_def Let_def)
    show ?thesis using Cons.IH [of "p\<lparr>line_buffer := ?b\<rparr>"] Cons.prems by (auto simp: step)
  next
    case False
    then have step: "char_step p c = (p\<lparr>line_buffer := [], detect_tag := False\<rparr>, text_tokens (line_active p) ?b)"
      using Cons.prems by (auto simp: char_step_def Let_def)
    have "char_steps (p\<lparr>line_buffer := [], detect_tag := False\<rparr>) w =
        (p\<lparr>line_buffer := [], detect_tag := False\<rparr>, text_tokens (line_active p) w)"
      using text_chars [of w "p\<lparr>line_buffer := [], detect_tag := False\<rparr>"] Cons.prems by simp
    then show ?thesis
      using early_text [of ?b "line_specs p" w] False by (simp add: step flip: text_tokens_simps(2))
  qed
qed simp

text \<open>At the start of a line the parser has nothing buffered.\<close>

definition at_line_start :: "'t TaggedLineParser \<Rightarrow> bool" where
  "at_line_start p \<longleftrightarrow> detect_tag p \<and> line_buffer p = []"

lemma full_line:
  assumes "LF \<notin> set w" "at_line_start p"
  shows "char_steps p (w @ [LF]) =
    (p\<lparr>line_active := fst (line_end (line_specs p) (line_active p) (w @ [LF]))\<rparr>,
     snd (line_end (line_specs p) (line_active p) (w @ [LF])))"
proof -
  have p: "detect_tag p" "line_buffer p = []" using assms(2) by (auto simp: at_line_start_def)
  from line_chars [OF assms(1) p(1)] p show ?thesis
    by (elim disjE) (cases p, auto simp: char_steps_append char_step_def Let_def line_end_text line_slug_LF split: prod.splits)+
qed

lemma finish_buffer_step:
  "line_buffer p \<noteq> [] \<Longrightarrow> finish_buffer p = (q, segs) \<Longrightarrow>
   q = p\<lparr>line_active := fst (line_end (line_specs p) (line_active p) (line_buffer p)), line_buffer := []\<rparr> \<and>
   tokens segs = snd (line_end (line_specs p) (line_active p) (line_buffer p))"
  by (cases p) (auto simp: finish_buffer_def line_end_def Let_def split: if_splits)

lemma finish_lines_closing:
  "finish_buffer p = (q, segs) \<Longrightarrow>
   fst (finish_lines p) = q\<lparr>line_active := None, detect_tag := True\<rparr> \<and>
   tokens (snd (finish_lines p)) = tokens segs @ closing (line_active q)"
  by (simp add: finish_lines_def closing_def split: option.split)

lemma finish_lines_step:
  assumes "LF \<notin> set w" "at_line_start p" "char_steps p w = (q, toks)" "w \<noteq> []"
  shows "fst (finish_lines q) = p\<lparr>line_active := None\<rparr> \<and>
    toks @ tokens (snd (finish_lines q)) =
      snd (line_end (line_specs p) (line_active p) w) @ closing (fst (line_end (line_specs p) (line_active p) w))"
proof -
  have p: "detect_tag p" "line_buffer p = []" using assms(2) by (auto simp: at_line_start_def)
  from line_chars [OF assms(1) p(1)] show ?thesis
  proof
    assume "char_steps p w = (p\<lparr>line_buffer := line_buffer p @ w\<rparr>, [])"
    then have q: "q = p\<lparr>line_buffer := w\<rparr>" "toks = []" using assms(3) p by simp_all
    obtain r segs where fb: "finish_buffer q = (r, segs)" by fastforce
    have "line_buffer q \<noteq> []" using assms(4) q by simp
    from finish_buffer_step [OF this fb] finish_lines_closing [OF fb] q p show ?thesis by simp
  next
    assume r: "char_steps p w = (p\<lparr>line_buffer := [], detect_tag := False\<rparr>, text_tokens (line_active p) (line_buffer p @ w)) \<and>
      not_a_tag (line_specs p) (trim_end (trim_start (line_buffer p @ w)))"
    then have "line_end (line_specs p) (line_active p) w = (line_active p, text_tokens (line_active p) w)"
      using assms(1) p by (intro line_end_text) (simp add: line_slug_open)
    moreover have q: "q = p\<lparr>line_buffer := [], detect_tag := False\<rparr>" "toks = text_tokens (line_active p) w"
      using r assms(3) p by simp_all
    moreover have "finish_buffer q = (q, [])" using q by (simp add: finish_buffer_def)
    ultimately show ?thesis using finish_lines_closing [of q q "[]"] p by simp
  qed
qed

lemma finish_lines_start:
  "at_line_start p \<Longrightarrow> finish_lines p = (p\<lparr>line_active := None\<rparr>, case line_active p of None \<Rightarrow> [] | Some t \<Rightarrow> [TagEnd t])"
  by (cases p) (auto simp: finish_lines_def finish_buffer_def at_line_start_def push_segment_def split: option.split)

text \<open>The whole text, line by line.\<close>

lemma parse_lines:
  assumes "at_line_start p" "char_steps p s = (q, toks)"
  shows "fst (finish_lines q) = p\<lparr>line_active := None\<rparr> \<and>
    toks @ tokens (snd (finish_lines q)) =
      (let (act, ts) = lines_run (line_specs p) (line_active p) (split_inclusive LF s) in ts @ closing act)"
  using assms
proof (induction "length s" arbitrary: s p toks rule: less_induct)
  case less
  from line_cases [of LF s] show ?case
  proof
    assume free: "LF \<notin> set s"
    show ?thesis
    proof (cases "s = []")
      case True
      with less.prems show ?thesis
        by (auto simp: finish_lines_start split_inclusive_simps closing_def split: option.split)
    next
      case False
      with finish_lines_step [OF free less.prems(1,2) False] free show ?thesis
        by (simp add: split_inclusive_free Let_def split: prod.split)
    qed
  next
    assume "\<exists>w t. s = w @ LF # t \<and> LF \<notin> set w"
    then obtain w t where s: "s = w @ LF # t" "LF \<notin> set w" by blast
    obtain act ts where line: "line_end (line_specs p) (line_active p) (w @ [LF]) = (act, ts)" by fastforce
    define p1 where "p1 = p\<lparr>line_active := act\<rparr>"
    have first: "char_steps p (w @ [LF]) = (p1, ts)"
      using full_line [OF s(2) less.prems(1)] line by (simp add: p1_def)
    obtain toks' where rest: "char_steps p1 t = (q, toks')" "toks = ts @ toks'"
      using less.prems(2) char_steps_append [of p "w @ [LF]" t] first s
      by (auto simp: Let_def split: prod.splits)
    have "at_line_start p1" using less.prems(1) by (simp add: p1_def at_line_start_def)
    from less.hyps [of t p1 toks', OF _ this rest(1)] s show ?thesis
      using rest(2) line by (auto simp: p1_def split_inclusive_simps Let_def split: prod.splits)
  qed
qed

section \<open>Proposed plans\<close>

datatype PlanTag = ProposedPlan

datatype ProposedPlanSegment =
    PlanNormal ustring
  | ProposedPlanStart
  | ProposedPlanDelta ustring
  | ProposedPlanEnd

definition OPEN_TAG :: ustring where
  "OPEN_TAG = str ''<proposed_plan>''"

definition CLOSE_TAG :: ustring where
  "CLOSE_TAG = str ''</proposed_plan>''"

definition plan_specs :: "PlanTag TagSpec list" where
  "plan_specs = [\<lparr>open_line = OPEN_TAG, close_line = CLOSE_TAG, line_tag = ProposedPlan\<rparr>]"

type_synonym ProposedPlanParser = "PlanTag TaggedLineParser"

definition new_plan_parser :: ProposedPlanParser where
  "new_plan_parser = new_tagged_lines plan_specs"

fun map_segment :: "PlanTag TaggedLineSegment \<Rightarrow> ProposedPlanSegment" where
  "map_segment (Normal text) = PlanNormal text"
| "map_segment (TagStart ProposedPlan) = ProposedPlanStart"
| "map_segment (TagDelta ProposedPlan text) = ProposedPlanDelta text"
| "map_segment (TagEnd ProposedPlan) = ProposedPlanEnd"

definition map_segments :: "PlanTag TaggedLineSegment list \<Rightarrow> ProposedPlanSegment StreamTextChunk" where
  "map_segments segments =
     fold (\<lambda>segment out.
        (let mapped = map_segment segment;
             out = (case mapped of PlanNormal text \<Rightarrow> out\<lparr>visible_text := visible_text out @ text\<rparr> | _ \<Rightarrow> out)
         in out\<lparr>extracted := extracted out @ [mapped]\<rparr>)) segments default_stream_chunk"

definition plan_push_str ::
    "ProposedPlanParser \<Rightarrow> ustring \<Rightarrow> ProposedPlanParser \<times> ProposedPlanSegment StreamTextChunk" where
  "plan_push_str p chunk = (let (p', segments) = parse_tagged p chunk in (p', map_segments segments))"

definition plan_finish :: "ProposedPlanParser \<Rightarrow> ProposedPlanParser \<times> ProposedPlanSegment StreamTextChunk" where
  "plan_finish p = (let (p', segments) = finish_lines p in (p', map_segments segments))"

definition plan_parser :: "(ProposedPlanParser, ProposedPlanSegment) StreamTextParser" where
  "plan_parser = \<lparr>push_str = (\<lambda>p chunk. Some (plan_push_str p chunk)), finish = plan_finish\<rparr>"

definition strip_proposed_plan_blocks :: "ustring \<Rightarrow> ustring" where
  "strip_proposed_plan_blocks text =
     (let (parser, out) = plan_push_str new_plan_parser text
      in visible_text out @ visible_text (snd (plan_finish parser)))"

definition extract_step :: "ProposedPlanSegment \<Rightarrow> bool \<times> ustring \<Rightarrow> bool \<times> ustring" where
  "extract_step segment st =
     (case segment of
        ProposedPlanStart \<Rightarrow> (True, [])
      | ProposedPlanDelta delta \<Rightarrow> (fst st, snd st @ delta)
      | ProposedPlanEnd \<Rightarrow> st
      | PlanNormal _ \<Rightarrow> st)"

definition extract_proposed_plan_text :: "ustring \<Rightarrow> ustring option" where
  "extract_proposed_plan_text text =
     (let (parser, out) = plan_push_str new_plan_parser text;
          (saw_plan_block, plan_text) =
            fold extract_step (extracted out @ extracted (snd (plan_finish parser))) (False, [])
      in if saw_plan_block then Some plan_text else None)"

fun plan_tokens :: "ProposedPlanSegment \<Rightarrow> PlanTag token list" where
  "plan_tokens (PlanNormal text) = map TextTok text"
| "plan_tokens ProposedPlanStart = [StartTok ProposedPlan]"
| "plan_tokens (ProposedPlanDelta text) = map (DeltaTok ProposedPlan) text"
| "plan_tokens ProposedPlanEnd = [EndTok ProposedPlan]"

definition plan_view :: "ProposedPlanSegment list \<Rightarrow> PlanTag token list" where
  "plan_view segments = concat (map plan_tokens segments)"

fun visible_token :: "'t token \<Rightarrow> ustring" where
  "visible_token (TextTok c) = [c]"
| "visible_token _ = []"

definition visible_of :: "'t token list \<Rightarrow> ustring" where
  "visible_of toks = concat (map visible_token toks)"

lemma visible_of_simps [simp]:
  "visible_of (xs @ ys) = visible_of xs @ visible_of ys" "visible_of (map TextTok s) = s"
  "visible_of (map (DeltaTok t) s) = []" "visible_of [] = []" "visible_of (StartTok t # xs) = visible_of xs" "visible_of (EndTok t # xs) = visible_of xs"
  by (simp_all add: visible_of_def comp_def)

lemma plan_view_append [simp]: "plan_view (xs @ ys) = plan_view xs @ plan_view ys"
  by (simp add: plan_view_def)

lemma map_segment_tokens: "plan_tokens (map_segment s) = segment_tokens s"
  by (cases s rule: map_segment.cases) simp_all

lemma map_segments_view:
  "plan_view (extracted (map_segments segs)) = tokens segs \<and> visible_text (map_segments segs) = visible_of (tokens segs)"
  unfolding map_segments_def
proof (induction segs rule: rev_induct)
  case (snoc s segs)
  then show ?case
    by (cases s rule: map_segment.cases) (simp_all add: Let_def plan_view_def)
qed (simp add: plan_view_def)

lemma plan_push_steps:
  "plan_push_str p s = (q, out) \<Longrightarrow>
   q = fst (char_steps p s) \<and> plan_view (extracted out) = snd (char_steps p s) \<and>
   visible_text out = visible_of (snd (char_steps p s))"
  using parse_steps [of p s] map_segments_view [of "snd (parse_tagged p s)"]
  by (auto simp: plan_push_str_def split: prod.splits)

interpretation plan: stream_text_parser plan_parser "\<lambda>_. True" plan_view
proof unfold_locales
  fix p and a
  show "\<exists>p' out. push_str plan_parser p a = Some (p', out) \<and> True"
    by (simp add: plan_parser_def)
  show "push_str plan_parser p [] = Some (p, default_stream_chunk)"
    by (simp add: plan_parser_def plan_push_str_def parse_tagged_def map_segments_def)
next
  fix p p1 p2 a b out1 out2
  assume "push_str plan_parser p a = Some (p1, out1)" "push_str plan_parser p1 b = Some (p2, out2)"
  then have 1: "p1 = fst (char_steps p a)" "plan_view (extracted out1) = snd (char_steps p a)"
      "visible_text out1 = visible_of (snd (char_steps p a))"
    and 2: "p2 = fst (char_steps p1 b)" "plan_view (extracted out2) = snd (char_steps p1 b)"
      "visible_text out2 = visible_of (snd (char_steps p1 b))"
    by (auto simp: plan_parser_def dest: plan_push_steps)
  obtain q out where q: "plan_push_str p (a @ b) = (q, out)" by fastforce
  from plan_push_steps [OF q] 1 2 q show "\<exists>out. push_str plan_parser p (a @ b) = Some (p2, out) \<and>
      same_chunk plan_view out (chunk_append out1 out2)"
    by (auto simp: plan_parser_def same_chunk_def char_steps_append Let_def split: prod.splits)
qed simp

text \<open>One chunk and the end of the stream.\<close>

lemma plan_one_chunk:
  assumes "plan_push_str new_plan_parser s = (q, out)"
  defines "tail \<equiv> snd (plan_finish q)"
  shows "fst (plan_finish q) = new_plan_parser"
    and "plan_view (extracted out @ extracted tail) = lines_tokens plan_specs (split_inclusive LF s)"
    and "visible_text out @ visible_text tail = visible_of (lines_tokens plan_specs (split_inclusive LF s))"
proof -
  have start: "at_line_start new_plan_parser"
    by (simp add: at_line_start_def new_plan_parser_def new_tagged_lines_def)
  note out = plan_push_steps [OF assms(1)]
  have "char_steps new_plan_parser s = (q, plan_view (extracted out))" using out by (simp add: prod_eq_iff)
  note lines = parse_lines [OF start this]
  have tail: "fst (plan_finish q) = fst (finish_lines q)"
    "plan_view (extracted tail) = tokens (snd (finish_lines q))"
    "visible_text tail = visible_of (tokens (snd (finish_lines q)))"
    using map_segments_view [of "snd (finish_lines q)"]
    by (auto simp: plan_finish_def tail_def split: prod.splits)
  show "fst (plan_finish q) = new_plan_parser"
    using lines tail by (simp add: new_plan_parser_def new_tagged_lines_def)
  show all: "plan_view (extracted out @ extracted tail) = lines_tokens plan_specs (split_inclusive LF s)"
    using lines tail by (simp add: lines_tokens_def new_plan_parser_def new_tagged_lines_def)
  show "visible_text out @ visible_text tail = visible_of (lines_tokens plan_specs (split_inclusive LF s))"
    using out tail by (simp flip: all)
qed

lemma plan_collect:
  "\<exists>out. collect_chunks plan_parser new_plan_parser cs = Some (new_plan_parser, out) \<and>
     plan_view (extracted out) = lines_tokens plan_specs (split_inclusive LF (concat cs)) \<and>
     visible_text out = visible_of (lines_tokens plan_specs (split_inclusive LF (concat cs)))"
proof -
  obtain q out where q: "plan_push_str new_plan_parser (concat cs) = (q, out)" by fastforce
  note one = plan_one_chunk [OF q]
  have "collect_chunks plan_parser new_plan_parser [concat cs] =
      Some (new_plan_parser, chunk_append out (snd (plan_finish q)))"
    using q one(1) by (cases "plan_finish q") (simp add: collect_chunks_def plan_parser_def)
  with plan.collect_concat [of new_plan_parser cs] obtain out' where
    "collect_chunks plan_parser new_plan_parser cs = Some (new_plan_parser, out')"
    "same_chunk plan_view (chunk_append out (snd (plan_finish q))) out'" by auto
  with one(2,3) show ?thesis by (auto simp: same_chunk_def)
qed

section \<open>Plans in a text\<close>

fun token_step :: "PlanTag token \<Rightarrow> bool \<times> ustring \<Rightarrow> bool \<times> ustring" where
  "token_step (StartTok t) st = (True, [])"
| "token_step (DeltaTok t c) st = (fst st, snd st @ [c])"
| "token_step (EndTok t) st = st"
| "token_step (TextTok c) st = st"

lemma fold_delta: "fold token_step (map (DeltaTok t) s) st = (fst st, snd st @ s)"
  by (induction s arbitrary: st) simp_all

lemma fold_text: "fold token_step (map TextTok s) st = st"
  by (induction s) simp_all

lemma extract_tokens: "fold extract_step segs st = fold token_step (plan_view segs) st"
proof (induction segs arbitrary: st)
  case (Cons s segs)
  have "extract_step s st = fold token_step (plan_tokens s) st"
    by (cases s) (simp_all add: extract_step_def fold_delta fold_text)
  with Cons show ?case by (simp add: plan_view_def)
qed (simp add: plan_view_def)

lemma extract_lines:
  "extract_proposed_plan_text s =
     (let (saw, txt) = fold token_step (lines_tokens plan_specs (split_inclusive LF s)) (False, [])
      in if saw then Some txt else None)"
proof -
  obtain q out where q: "plan_push_str new_plan_parser s = (q, out)" by fastforce
  show ?thesis
    by (simp only: extract_proposed_plan_text_def q Let_def prod.case extract_tokens plan_one_chunk(2) [OF q])
qed

lemma strip_lines: "strip_proposed_plan_blocks s = visible_of (lines_tokens plan_specs (split_inclusive LF s))"
proof -
  obtain q out where q: "plan_push_str new_plan_parser s = (q, out)" by fastforce
  show ?thesis using plan_one_chunk(3) [OF q] by (simp add: strip_proposed_plan_blocks_def q)
qed

lemma lines_run_append:
  "lines_run specs act (xs @ ys) =
     (let (act', ts) = lines_run specs act xs; (act'', ts') = lines_run specs act' ys in (act'', ts @ ts'))"
  by (induction xs arbitrary: act) (auto simp: Let_def split: prod.splits)

definition no_open_line :: "ustring \<Rightarrow> bool" where
  "no_open_line s \<longleftrightarrow> list_all (\<lambda>l. line_slug l \<noteq> OPEN_TAG) (split_inclusive LF s)"

definition no_close_line :: "ustring \<Rightarrow> bool" where
  "no_close_line s \<longleftrightarrow> list_all (\<lambda>l. line_slug l \<noteq> CLOSE_TAG) (split_inclusive LF s)"

lemma plan_line_end:
  "line_slug l \<noteq> OPEN_TAG \<Longrightarrow> line_end plan_specs None l = (None, map TextTok l)"
  "line_slug l \<noteq> CLOSE_TAG \<Longrightarrow>
     line_end plan_specs (Some ProposedPlan) l = (Some ProposedPlan, map (DeltaTok ProposedPlan) l)"
  "line_end plan_specs None (OPEN_TAG @ [LF]) = (Some ProposedPlan, [StartTok ProposedPlan])"
  "line_end plan_specs (Some ProposedPlan) (CLOSE_TAG @ [LF]) = (None, [EndTok ProposedPlan])"
proof -
  have slug: "line_slug (OPEN_TAG @ [LF]) = OPEN_TAG" "line_slug (CLOSE_TAG @ [LF]) = CLOSE_TAG"
    unfolding line_slug_LF by code_simp+
  show "line_slug l \<noteq> OPEN_TAG \<Longrightarrow> line_end plan_specs None l = (None, map TextTok l)"
    "line_slug l \<noteq> CLOSE_TAG \<Longrightarrow>
       line_end plan_specs (Some ProposedPlan) l = (Some ProposedPlan, map (DeltaTok ProposedPlan) l)"
    "line_end plan_specs None (OPEN_TAG @ [LF]) = (Some ProposedPlan, [StartTok ProposedPlan])"
    "line_end plan_specs (Some ProposedPlan) (CLOSE_TAG @ [LF]) = (None, [EndTok ProposedPlan])"
    by (auto simp: line_end_def match_open_def match_close_def plan_specs_def text_tokens_def slug)
qed

lemma lines_run_outside:
  "list_all (\<lambda>l. line_slug l \<noteq> OPEN_TAG) ls \<Longrightarrow> lines_run plan_specs None ls = (None, map TextTok (concat ls))"
  by (induction ls) (simp_all add: plan_line_end)

lemma lines_run_inside:
  "list_all (\<lambda>l. line_slug l \<noteq> CLOSE_TAG) ls \<Longrightarrow>
   lines_run plan_specs (Some ProposedPlan) ls = (Some ProposedPlan, map (DeltaTok ProposedPlan) (concat ls))"
  by (induction ls) (simp_all add: plan_line_end)

definition full_lines :: "ustring \<Rightarrow> bool" where
  "full_lines s \<longleftrightarrow> s = [] \<or> last s = LF"

lemma split_tag_line:
  "split_inclusive LF (OPEN_TAG @ LF # s) = (OPEN_TAG @ [LF]) # split_inclusive LF s"
  "split_inclusive LF (CLOSE_TAG @ LF # s) = (CLOSE_TAG @ [LF]) # split_inclusive LF s"
  by (rule split_inclusive_simps(2), simp add: OPEN_TAG_def CLOSE_TAG_def str_def)+

lemma plan_text_tokens:
  assumes "full_lines before" "full_lines body" "no_open_line before" "no_close_line body" "no_open_line after"
  shows "lines_tokens plan_specs (split_inclusive LF (before @ OPEN_TAG @ LF # body @ CLOSE_TAG @ LF # after)) =
    map TextTok before @ [StartTok ProposedPlan] @ map (DeltaTok ProposedPlan) body @ [EndTok ProposedPlan]
    @ map TextTok after"
proof -
  have "split_inclusive LF (before @ OPEN_TAG @ LF # body @ CLOSE_TAG @ LF # after) =
      split_inclusive LF before @ (OPEN_TAG @ [LF]) # split_inclusive LF body @ (CLOSE_TAG @ [LF]) # split_inclusive LF after"
    using assms(1,2) by (simp add: full_lines_def split_inclusive_append split_tag_line)
  then show ?thesis
    using assms(3-5)
    by (simp add: lines_tokens_def lines_run_append lines_run_outside lines_run_inside plan_line_end
        no_open_line_def no_close_line_def closing_def)
qed

section \<open>Properties\<close>

text \<open>
  C29: The proposed plan parser refines reading the text line by line, however it is cut into chunks:
  a line that is exactly a tag, up to white space around it, opens or closes a block when that makes
  sense in the current state, every other line is text of the block it is in or visible text, and a
  block still open at the end is closed. The visible text is exactly the lines outside blocks, and
  the parser ends in its initial state with nothing held back.
\<close>

theorem plan_lines:
  "\<exists>out. collect_chunks plan_parser new_plan_parser cs = Some (new_plan_parser, out) \<and>
     plan_view (extracted out) = lines_tokens plan_specs (split_inclusive LF (concat cs)) \<and>
     visible_text out = visible_of (lines_tokens plan_specs (split_inclusive LF (concat cs)))"
  by (rule plan_collect)

text \<open>
  The text of a plan comes out as it was put in: from lines without an opening tag, a block
  whose lines contain no closing tag, and further lines without an opening tag, the extracted plan
  is the body of the block and the stripped text is what was around it.
\<close>

theorem plan_extracted:
  assumes "full_lines before" "full_lines body" "no_open_line before" "no_close_line body" "no_open_line after"
  shows "extract_proposed_plan_text (before @ OPEN_TAG @ LF # body @ CLOSE_TAG @ LF # after) = Some body \<and>
    strip_proposed_plan_blocks (before @ OPEN_TAG @ LF # body @ CLOSE_TAG @ LF # after) = before @ after"
  by (simp add: extract_lines strip_lines plan_text_tokens [OF assms] fold_delta fold_text)

theorem plan_extracted_witness:
  "full_lines (str ''a'' @ [LF]) \<and> no_open_line (str ''a'' @ [LF]) \<and>
   extract_proposed_plan_text ((str ''a'' @ [LF]) @ OPEN_TAG @ LF # (str ''- b'' @ [LF]) @ CLOSE_TAG @ LF # str ''c'') =
     Some (str ''- b'' @ [LF])"
proof -
  have "full_lines (str ''a'' @ [LF])" "full_lines (str ''- b'' @ [LF])" "no_open_line (str ''a'' @ [LF])"
    "no_close_line (str ''- b'' @ [LF])" "no_open_line (str ''c'')"
    by code_simp+
  then show ?thesis using plan_extracted by blast
qed

end
