(* ===== verification/Utf8_Stream.thy ===== *)
theory Utf8_Stream
  imports Inline_Tag Tagged_Lines
begin

text \<open>
  \<open>utils/stream-parser/src/utf8_stream.rs\<close>: feeding a stream of bytes to a text parser, holding back
  the bytes of a character that is not complete yet.

  \<open>from_utf8\<close> is the validation of the standard library: it reports how many bytes are valid and,
  unless the input only stops too early, the length of the invalid sequence. The adapter takes the
  wrapped parser as a record of operations, and its lemmas are proved in the locale of its contract.
\<close>

section \<open>UTF-8 validation\<close>

definition is_continuation :: "nat \<Rightarrow> bool" where
  "is_continuation b \<longleftrightarrow> 0x80 \<le> b \<and> b \<le> 0xBF"

definition second_ok :: "nat \<Rightarrow> nat \<Rightarrow> bool" where
  "second_ok first b \<longleftrightarrow>
     (if first = 0xE0 then 0xA0 \<le> b \<and> b \<le> 0xBF
      else if first = 0xED then 0x80 \<le> b \<and> b \<le> 0x9F
      else if first = 0xF0 then 0x90 \<le> b \<and> b \<le> 0xBF
      else if first = 0xF4 then 0x80 \<le> b \<and> b \<le> 0x8F
      else is_continuation b)"

datatype utf8_next = Scalar uchar nat | Bad nat | Truncated

definition next_char :: "nat list \<Rightarrow> utf8_next" where
  "next_char bs =
     (case bs of
        [] \<Rightarrow> Truncated
      | a # as \<Rightarrow>
          if a < 0x80 then Scalar a 1
          else if 0xC2 \<le> a \<and> a \<le> 0xDF
          then (case as of
                  [] \<Rightarrow> Truncated
                | b # _ \<Rightarrow> if is_continuation b then Scalar ((a - 0xC0) * 64 + (b - 0x80)) 2 else Bad 1)
          else if 0xE0 \<le> a \<and> a \<le> 0xEF
          then (case as of
                  [] \<Rightarrow> Truncated
                | b # bs' \<Rightarrow>
                    if \<not> second_ok a b then Bad 1
                    else (case bs' of
                            [] \<Rightarrow> Truncated
                          | c # _ \<Rightarrow>
                              if is_continuation c
                              then Scalar (((a - 0xE0) * 64 + (b - 0x80)) * 64 + (c - 0x80)) 3 else Bad 2))
          else if 0xF0 \<le> a \<and> a \<le> 0xF4
          then (case as of
                  [] \<Rightarrow> Truncated
                | b # bs' \<Rightarrow>
                    if \<not> second_ok a b then Bad 1
                    else (case bs' of
                            [] \<Rightarrow> Truncated
                          | c # cs \<Rightarrow>
                              if \<not> is_continuation c then Bad 2
                              else (case cs of
                                      [] \<Rightarrow> Truncated
                                    | d # _ \<Rightarrow>
                                        if is_continuation d
                                        then Scalar ((((a - 0xF0) * 64 + (b - 0x80)) * 64 + (c - 0x80)) * 64
                                                     + (d - 0x80)) 4
                                        else Bad 3)))
          else Bad 1)"

record utf8_error =
  valid_up_to :: nat
  error_len :: "nat option"

lemma next_char_pos: "next_char bs = Scalar c n \<Longrightarrow> 0 < n \<and> n \<le> length bs"
  by (auto simp: next_char_def split: list.splits if_splits)

function from_utf8 :: "nat list \<Rightarrow> (ustring, utf8_error) result" where
  "from_utf8 bs =
     (if bs = [] then Ok []
      else
        (case next_char bs of
           Scalar c n \<Rightarrow>
             (case from_utf8 (drop n bs) of
                Ok s \<Rightarrow> Ok (c # s)
              | Err e \<Rightarrow> Err (e\<lparr>valid_up_to := n + valid_up_to e\<rparr>))
         | Bad k \<Rightarrow> Err \<lparr>valid_up_to = 0, error_len = Some k\<rparr>
         | Truncated \<Rightarrow> Err \<lparr>valid_up_to = 0, error_len = None\<rparr>))"
  by pat_completeness auto

termination from_utf8
  by (relation "measure length") (auto dest!: next_char_pos)

declare from_utf8.simps [simp del]

text \<open>A Unicode scalar value: a code point that is no surrogate.\<close>

definition is_scalar :: "uchar \<Rightarrow> bool" where
  "is_scalar c \<longleftrightarrow> c < 0xD800 \<or> 0xE000 \<le> c \<and> c < 0x110000"

lemma next_char_encoded:
  assumes "is_scalar c"
  shows "next_char (utf8_char c @ r) = Scalar c (utf8_len c)"
proof -
  have "c < 0x110000" using assms by (auto simp: is_scalar_def)
  then consider "c < 0x80" | "0x80 \<le> c" "c < 0x800" | "0x800 \<le> c" "c < 0x10000" | "0x10000 \<le> c" "c < 0x110000"
    by (meson not_le)
  then show ?thesis
  proof cases
    case 2
    have "c div 64 * 64 + c mod 64 = c" by simp
    moreover have "2 \<le> c div 64" "c div 64 < 32" using 2 by auto
    ultimately show ?thesis
      using 2 by (simp add: next_char_def utf8_char_def utf8_len_def is_continuation_def)
  next
    case 3
    define q r m where "q = c div 64" and "r = q div 64" and "m = q mod 64"
    have rm: "q = r * 64 + m" "m < 64" and c: "c = q * 64 + c mod 64" by (simp_all add: q_def r_def m_def)
    have div: "c div 4096 = r" by (simp add: r_def q_def flip: div_mult2_eq)
    have q: "32 \<le> q" "q < 1024" "q < 864 \<or> 896 \<le> q"
      using 3 assms by (auto simp: q_def is_scalar_def)
    have "r \<noteq> 0 \<or> 32 \<le> m" "r = 13 \<longrightarrow> m < 32" "r < 16" using q rm by linarith+
    then have "second_ok (0xE0 + r) (0x80 + m)" using rm(2) by (auto simp: second_ok_def is_continuation_def)
    moreover have "(r * 64 + m) * 64 + c mod 64 = c" using c rm(1) by simp
    ultimately show ?thesis
      using 3 \<open>r < 16\<close> div
      by (simp add: next_char_def utf8_char_def utf8_len_def is_continuation_def flip: q_def m_def)
  next
    case 4
    define q r m t l where "q = c div 64" and "r = q div 64" and "m = q mod 64" and "t = r div 64" and "l = r mod 64"
    have rm: "q = r * 64 + m" "m < 64" and c: "c = q * 64 + c mod 64" and tl: "r = t * 64 + l" "l < 64"
      by (simp_all add: q_def r_def m_def t_def l_def)
    have div: "c div 4096 = r" "c div 262144 = t" by (simp_all add: t_def r_def q_def flip: div_mult2_eq)
    have "1024 \<le> q" "q < 17408" using 4 by (auto simp: q_def)
    then have "16 \<le> r" "r < 272" using rm by linarith+
    then have "t \<noteq> 0 \<or> 16 \<le> l" "t = 4 \<longrightarrow> l < 16" "t < 5" using tl by linarith+
    then have "second_ok (0xF0 + t) (0x80 + l)" using tl(2) by (auto simp: second_ok_def is_continuation_def)
    moreover have "((t * 64 + l) * 64 + m) * 64 + c mod 64 = c" using c rm(1) tl(1) by simp
    moreover have "is_continuation (0x80 + m)" "is_continuation (0x80 + c mod 64)"
      using rm(2) mod_less_divisor [of 64 c] by (simp_all add: is_continuation_def del: mod_less_divisor)
    ultimately show ?thesis
      using 4 \<open>t < 5\<close> div by (simp add: next_char_def utf8_char_def utf8_len_def flip: q_def m_def l_def)
  qed (simp add: next_char_def utf8_char_def utf8_len_def)
qed

lemma four_cases:
  obtains "xs = []" | a where "xs = [a]" | a b where "xs = [a, b]" | a b c where "xs = [a, b, c]"
    | a b c d ys where "xs = a # b # c # d # ys"
  by (metis list.exhaust)

lemma next_char_whole: "next_char (p @ r) = Scalar c n \<Longrightarrow> n \<le> length p \<Longrightarrow> next_char p = Scalar c n"
  by (cases p rule: four_cases) (auto simp: next_char_def split: list.splits if_splits)

lemma next_char_part: "next_char (p @ r) = Scalar c n \<Longrightarrow> length p < n \<Longrightarrow> next_char p = Truncated"
  by (cases p rule: four_cases) (auto simp: next_char_def split: list.splits if_splits)

lemma length_utf8_char [simp]: "length (utf8_char c) = utf8_len c"
  by (simp add: utf8_char_def utf8_len_def)

lemma from_utf8_Nil [simp]: "from_utf8 [] = Ok []"
  by (simp add: from_utf8.simps)

text \<open>Encoded text, whole and cut inside its last character.\<close>

lemma from_utf8_encoded:
  assumes "list_all is_scalar s"
  shows "from_utf8 (utf8_encode s @ r) =
    (case from_utf8 r of Ok t \<Rightarrow> Ok (s @ t) | Err e \<Rightarrow> Err (e\<lparr>valid_up_to := byte_len s + valid_up_to e\<rparr>))"
  using assms
proof (induction s)
  case (Cons c s)
  have "utf8_char c \<noteq> []" by (simp add: utf8_char_def)
  then have "from_utf8 (utf8_char c @ utf8_encode s @ r) =
      (case from_utf8 (utf8_encode s @ r) of
         Ok t \<Rightarrow> Ok (c # t) | Err e \<Rightarrow> Err (e\<lparr>valid_up_to := utf8_len c + valid_up_to e\<rparr>))"
    using Cons.prems next_char_encoded [of c "utf8_encode s @ r"]
    by (subst from_utf8.simps) simp
  with Cons show ?case by (simp add: add.assoc split: sum.split)
qed (simp split: sum.split)

lemma from_utf8_cut:
  assumes "list_all is_scalar (s @ [c])" "strict_prefix p (utf8_char c)" "p \<noteq> []"
  shows "from_utf8 (utf8_encode s @ p) = Err \<lparr>valid_up_to = byte_len s, error_len = None\<rparr>"
proof -
  obtain r where r: "utf8_char c = p @ r" using assms(2) by (auto simp: strict_prefix_def prefix_def)
  have "length p < utf8_len c" using prefix_length_less [OF assms(2)] by simp
  then have "next_char p = Truncated"
    using next_char_encoded [of c "[]"] assms(1) next_char_part [of p r c] r by simp
  then have "from_utf8 p = Err \<lparr>valid_up_to = 0, error_len = None\<rparr>"
    using assms(3) by (simp add: from_utf8.simps)
  with assms(1) show ?thesis by (simp add: from_utf8_encoded)
qed

lemma encoded_prefix:
  assumes "prefix q (utf8_encode s)"
  obtains t p r where "s = t @ r" "q = utf8_encode t @ p"
    and "p = [] \<or> (\<exists>c r'. r = c # r' \<and> strict_prefix p (utf8_char c))"
  using assms
proof (induction s arbitrary: q thesis)
  case Nil
  then show ?case by (intro Nil.prems(1) [of "[]" "[]" "[]"]) auto
next
  case (Cons c s)
  have pre: "prefix q (utf8_char c @ utf8_encode s)" using Cons.prems(2) by simp
  show ?case
  proof (cases "prefix (utf8_char c) q")
    case True
    then obtain q' where q: "q = utf8_char c @ q'" by (auto simp: prefix_def)
    with pre obtain t p r where "s = t @ r" "q' = utf8_encode t @ p"
      "p = [] \<or> (\<exists>c r'. r = c # r' \<and> strict_prefix p (utf8_char c))"
      using Cons.IH [of q'] by auto
    with q show ?thesis by (intro Cons.prems(1) [of "c # t" r p]) auto
  next
    case False
    then have "strict_prefix q (utf8_char c)"
      using pre by (metis prefixI prefix_order.le_less prefix_same_cases)
    then show ?thesis by (intro Cons.prems(1) [of "[]" "c # s" q]) auto
  qed
qed

section \<open>The adapter\<close>

datatype Utf8StreamParserError =
    InvalidUtf8 nat nat
  | IncompleteUtf8AtEof

definition display_utf8_error :: "Utf8StreamParserError \<Rightarrow> ustring" where
  "display_utf8_error e =
     (case e of
        InvalidUtf8 v n \<Rightarrow>
          str ''invalid UTF-8 in streamed bytes at offset '' @ show_nat v
          @ str '' (error length '' @ show_nat n @ str '')''
      | IncompleteUtf8AtEof \<Rightarrow> str ''incomplete UTF-8 code point at end of stream'')"

record 's Utf8StreamParser =
  inner :: 's
  pending_utf8 :: "nat list"

definition new_utf8_parser :: "'s \<Rightarrow> 's Utf8StreamParser" where
  "new_utf8_parser p = \<lparr>inner = p, pending_utf8 = []\<rparr>"

text \<open>\<open>None\<close> is a call of the wrapped parser that does not return.\<close>

definition push_inner ::
    "('s, 'e) StreamTextParser \<Rightarrow> 's Utf8StreamParser \<Rightarrow> ustring \<Rightarrow> nat list \<Rightarrow>
     ('s Utf8StreamParser \<times> ('e StreamTextChunk, Utf8StreamParserError) result) option" where
  "push_inner P st text rest =
     (case push_str P (inner st) text of
        None \<Rightarrow> None
      | Some (p, out) \<Rightarrow> Some (\<lparr>inner = p, pending_utf8 = rest\<rparr>, Ok out))"

definition push_bytes ::
    "('s, 'e) StreamTextParser \<Rightarrow> 's Utf8StreamParser \<Rightarrow> nat list \<Rightarrow>
     ('s Utf8StreamParser \<times> ('e StreamTextChunk, Utf8StreamParserError) result) option" where
  "push_bytes P st chunk =
     (let old_len = length (pending_utf8 st); pend = pending_utf8 st @ chunk
      in case from_utf8 pend of
           Ok text \<Rightarrow> push_inner P st text []
         | Err err \<Rightarrow>
             (case error_len err of
                Some n \<Rightarrow>
                  Some (st\<lparr>pending_utf8 := take old_len pend\<rparr>, Err (InvalidUtf8 (valid_up_to err) n))
              | None \<Rightarrow>
                  if valid_up_to err = 0 then Some (st\<lparr>pending_utf8 := pend\<rparr>, Ok default_stream_chunk)
                  else
                    (case from_utf8 (take (valid_up_to err) pend) of
                       Ok text \<Rightarrow> push_inner P st text (drop (valid_up_to err) pend)
                     | Err prefix_err \<Rightarrow>
                         Some (st\<lparr>pending_utf8 := take old_len pend\<rparr>,
                               Err (InvalidUtf8 (valid_up_to prefix_err)
                                     (case error_len prefix_err of None \<Rightarrow> 0 | Some n \<Rightarrow> n))))))"

text \<open>The bytes held back are validated once: the second check of the code is on the same bytes.\<close>

definition utf8_finish ::
    "('s, 'e) StreamTextParser \<Rightarrow> 's Utf8StreamParser \<Rightarrow>
     ('s Utf8StreamParser \<times> ('e StreamTextChunk, Utf8StreamParserError) result) option" where
  "utf8_finish P st =
     (case from_utf8 (pending_utf8 st) of
        Err err \<Rightarrow>
          Some (st, Err (case error_len err of
                           Some n \<Rightarrow> InvalidUtf8 (valid_up_to err) n | None \<Rightarrow> IncompleteUtf8AtEof))
      | Ok text \<Rightarrow>
          (let flushed = (if pending_utf8 st = [] then Some (st, Ok default_stream_chunk) else push_inner P st text [])
           in case flushed of
                Some (st', Ok out) \<Rightarrow>
                  (let (p, tail) = finish P (inner st')
                   in Some (st'\<lparr>inner := p\<rparr>, Ok (chunk_append out tail)))
              | r \<Rightarrow> r))"

definition into_inner :: "'s Utf8StreamParser \<Rightarrow> ('s, Utf8StreamParserError) result" where
  "into_inner st =
     (if pending_utf8 st = [] then Ok (inner st)
      else
        (case from_utf8 (pending_utf8 st) of
           Ok _ \<Rightarrow> Ok (inner st)
         | Err err \<Rightarrow>
             (case error_len err of
                Some n \<Rightarrow> Err (InvalidUtf8 (valid_up_to err) n) | None \<Rightarrow> Err IncompleteUtf8AtEof)))"

definition into_inner_lossy :: "'s Utf8StreamParser \<Rightarrow> 's" where
  "into_inner_lossy st = inner st"

text \<open>Feeding chunks of bytes, stopping at the first error, and finishing.\<close>

fun push_all_bytes ::
    "('s, 'e) StreamTextParser \<Rightarrow> 's Utf8StreamParser \<Rightarrow> nat list list \<Rightarrow>
     ('s Utf8StreamParser \<times> ('e StreamTextChunk, Utf8StreamParserError) result) option" where
  "push_all_bytes P st [] = Some (st, Ok default_stream_chunk)"
| "push_all_bytes P st (c # cs) =
     (case push_bytes P st c of
        Some (st', Ok out) \<Rightarrow>
          (case push_all_bytes P st' cs of
             Some (st'', Ok out') \<Rightarrow> Some (st'', Ok (chunk_append out out'))
           | r \<Rightarrow> r)
      | r \<Rightarrow> r)"

definition collect_bytes ::
    "('s, 'e) StreamTextParser \<Rightarrow> 's Utf8StreamParser \<Rightarrow> nat list list \<Rightarrow>
     ('s Utf8StreamParser \<times> ('e StreamTextChunk, Utf8StreamParserError) result) option" where
  "collect_bytes P st cs =
     (case push_all_bytes P st cs of
        Some (st', Ok out) \<Rightarrow>
          (case utf8_finish P st' of
             Some (st'', Ok tail) \<Rightarrow> Some (st'', Ok (chunk_append out tail))
           | r \<Rightarrow> r)
      | r \<Rightarrow> r)"

section \<open>Bytes in, text out\<close>

text \<open>The bytes held back are the beginning of the next character.\<close>

definition cut_char :: "nat list \<Rightarrow> ustring \<Rightarrow> bool" where
  "cut_char p r \<longleftrightarrow> p = [] \<or> (\<exists>c r'. r = c # r' \<and> strict_prefix p (utf8_char c))"

lemma cut_char_all: "cut_char p r \<Longrightarrow> utf8_encode r = p \<Longrightarrow> p = [] \<and> r = []"
  by (cases r) (auto simp: cut_char_def utf8_char_def strict_prefix_def prefix_def split: if_splits)

lemma from_utf8_cut_char:
  assumes "list_all is_scalar (t @ r)" "cut_char p r" "p \<noteq> []"
  shows "from_utf8 (utf8_encode t @ p) = Err \<lparr>valid_up_to = byte_len t, error_len = None\<rparr>"
proof -
  obtain c r' where "r = c # r'" "strict_prefix p (utf8_char c)" using assms(2,3) by (auto simp: cut_char_def)
  with assms show ?thesis by (intro from_utf8_cut [of t c]) auto
qed

lemma push_bytes_whole:
  "from_utf8 (pending_utf8 st @ chunk) = Ok t \<Longrightarrow> push_bytes P st chunk = push_inner P st t []"
  by (simp add: push_bytes_def)

lemma push_bytes_hold:
  "from_utf8 (pending_utf8 st @ chunk) = Err \<lparr>valid_up_to = 0, error_len = None\<rparr> \<Longrightarrow>
   push_bytes P st chunk = Some (st\<lparr>pending_utf8 := pending_utf8 st @ chunk\<rparr>, Ok default_stream_chunk)"
  by (simp add: push_bytes_def)

lemma push_bytes_part:
  assumes "pending_utf8 st @ chunk = utf8_encode t @ p" "from_utf8 (utf8_encode t) = Ok t" "t \<noteq> []"
    and "from_utf8 (utf8_encode t @ p) = Err \<lparr>valid_up_to = byte_len t, error_len = None\<rparr>"
  shows "push_bytes P st chunk = push_inner P st t p"
proof -
  have "byte_len t \<noteq> 0" using assms(3) by simp
  then show ?thesis unfolding push_bytes_def Let_def assms(1,4) by (simp add: assms(2))
qed

context stream_text_parser
begin

lemma push_bytes_encoded:
  assumes inv: "inv (inner st)" and scalar: "list_all is_scalar t"
    and pre: "prefix (pending_utf8 st @ chunk) (utf8_encode t)"
  obtains t1 r p s1 out where "t = t1 @ r" "pending_utf8 st @ chunk = utf8_encode t1 @ p" "cut_char p r"
    and "push_str P (inner st) t1 = Some (s1, out)" "inv s1"
    and "push_bytes P st chunk = Some (\<lparr>inner = s1, pending_utf8 = p\<rparr>, Ok out)"
proof -
  obtain t1 p r where t: "t = t1 @ r" and b: "pending_utf8 st @ chunk = utf8_encode t1 @ p"
    and "p = [] \<or> (\<exists>c r'. r = c # r' \<and> strict_prefix p (utf8_char c))"
    by (rule encoded_prefix [OF pre])
  then have cut: "cut_char p r" by (simp add: cut_char_def)
  obtain s1 out where push: "push_str P (inner st) t1 = Some (s1, out)" "inv s1"
    using push_returns [OF inv] by blast
  have ok: "from_utf8 (utf8_encode t1) = Ok t1"
    using from_utf8_encoded [of t1 "[]"] scalar t by simp
  have "push_bytes P st chunk = Some (\<lparr>inner = s1, pending_utf8 = p\<rparr>, Ok out)"
  proof (cases "p = []")
    case True
    then have "from_utf8 (pending_utf8 st @ chunk) = Ok t1" using b ok by simp
    from push_bytes_whole [OF this, where P = P] push True show ?thesis by (simp add: push_inner_def)
  next
    case False
    note err = from_utf8_cut_char [OF scalar [unfolded t] cut False]
    show ?thesis
    proof (cases "t1 = []")
      case True
      have "from_utf8 (pending_utf8 st @ chunk) = Err \<lparr>valid_up_to = 0, error_len = None\<rparr>"
        using err True unfolding b by simp
      note hold = push_bytes_hold [OF this, where P = P]
      have "s1 = inner st" "out = default_stream_chunk" using push True push_nothing [OF inv] by simp_all
      with hold True show ?thesis unfolding b by (cases st) simp
    next
      case False
      from push_bytes_part [OF b ok this err, where P = P] push show ?thesis by (simp add: push_inner_def)
    qed
  qed
  with t b cut push show ?thesis by (rule that)
qed

lemma push_all_bytes_encoded:
  assumes "inv (inner st)" "list_all is_scalar t" "cut_char (pending_utf8 st) t"
    and "prefix (pending_utf8 st @ concat cs) (utf8_encode t)"
  shows "\<exists>t1 r p s1 out out'. t = t1 @ r \<and> pending_utf8 st @ concat cs = utf8_encode t1 @ p \<and> cut_char p r \<and>
    push_str P (inner st) t1 = Some (s1, out') \<and> inv s1 \<and>
    push_all_bytes P st cs = Some (\<lparr>inner = s1, pending_utf8 = p\<rparr>, Ok out) \<and> same_chunk view out' out"
  using assms
proof (induction cs arbitrary: st t)
  case Nil
  then show ?case
    by (intro exI [of _ "[]"] exI [of _ t] exI [of _ "pending_utf8 st"] exI [of _ "inner st"] exI [of _ default_stream_chunk])
      (simp add: push_nothing)
next
  case (Cons c cs)
  have "prefix (pending_utf8 st @ c) (utf8_encode t)"
    using Cons.prems(4) by (auto simp: prefix_def)
  then obtain t1 r p s1 out1 where one: "t = t1 @ r" "pending_utf8 st @ c = utf8_encode t1 @ p" "cut_char p r"
    "push_str P (inner st) t1 = Some (s1, out1)" "inv s1"
    "push_bytes P st c = Some (\<lparr>inner = s1, pending_utf8 = p\<rparr>, Ok out1)"
    using push_bytes_encoded [OF Cons.prems(1,2)] by metis
  have bytes: "pending_utf8 st @ concat (c # cs) = utf8_encode t1 @ p @ concat cs"
    using one(2) by (metis append_assoc concat.simps(2))
  have pre: "prefix (p @ concat cs) (utf8_encode r)"
    using Cons.prems(4) unfolding bytes one(1) by simp
  have "list_all is_scalar r" using Cons.prems(2) one(1) by simp
  then obtain t2 r2 p2 s2 out2 out2' where two: "r = t2 @ r2" "p @ concat cs = utf8_encode t2 @ p2" "cut_char p2 r2"
    "push_str P s1 t2 = Some (s2, out2')" "inv s2"
    "push_all_bytes P \<lparr>inner = s1, pending_utf8 = p\<rparr> cs = Some (\<lparr>inner = s2, pending_utf8 = p2\<rparr>, Ok out2)"
    "same_chunk view out2' out2"
    using Cons.IH [of "\<lparr>inner = s1, pending_utf8 = p\<rparr>" r] one(3,5) pre by auto
  obtain out where out: "push_str P (inner st) (t1 @ t2) = Some (s2, out)"
    "same_chunk view out (chunk_append out1 out2')"
    using push_append [OF Cons.prems(1) one(4) two(4)] by blast
  have "same_chunk view out (chunk_append out1 out2)"
    using same_trans [OF out(2)] two(7) by (simp add: same_append)
  moreover have "pending_utf8 st @ concat (c # cs) = utf8_encode (t1 @ t2) @ p2"
    unfolding bytes using two(2) by simp
  ultimately show ?case
    using one two out(1)
    by (intro exI [of _ "t1 @ t2"] exI [of _ r2] exI [of _ p2] exI [of _ s2] exI [of _ "chunk_append out1 out2"]
        exI [of _ out]) simp
qed

lemma collect_bytes_encoded:
  assumes "inv s" "list_all is_scalar t" "concat cs = utf8_encode t"
  shows "\<exists>s' out out'. collect_bytes P (new_utf8_parser s) cs = Some (\<lparr>inner = s', pending_utf8 = []\<rparr>, Ok out) \<and>
    collect_chunks P s [t] = Some (s', out') \<and> same_chunk view out' out"
proof -
  obtain t1 r p s1 out out' where all: "t = t1 @ r" "concat cs = utf8_encode t1 @ p" "cut_char p r"
    "push_str P s t1 = Some (s1, out')"
    "push_all_bytes P (new_utf8_parser s) cs = Some (\<lparr>inner = s1, pending_utf8 = p\<rparr>, Ok out)"
    "same_chunk view out' out"
    using push_all_bytes_encoded [of "new_utf8_parser s" t cs] assms
    by (auto simp: new_utf8_parser_def cut_char_def)
  then have "utf8_encode r = p" using assms(3) by simp
  then have "p = []" "r = []" using cut_char_all all(3) by blast+
  obtain s' tail where "finish P s1 = (s', tail)" by fastforce
  with all \<open>p = []\<close> \<open>r = []\<close> show ?thesis
    by (simp add: collect_bytes_def utf8_finish_def collect_chunks_def same_append)
qed

end

section \<open>Properties\<close>

text \<open>
  C30: Feeding the bytes of a text in any chunks, cut inside characters or not, is feeding the text:
  no error is reported, and the citations and the visible text are those of the whole text pushed at
  once; no byte stays behind. The same holds of the proposed plan parser, segments compared by the
  tokens they stand for.
\<close>

theorem utf8_chunking:
  assumes "list_all is_scalar t" "concat cs = utf8_encode t"
  shows "(\<exists>p out. collect_bytes citation_parser (new_utf8_parser citation_start) cs =
        Some (\<lparr>inner = p, pending_utf8 = []\<rparr>, Ok out) \<and>
      collect_chunks citation_parser citation_start [t] = Some (p, out)) \<and>
    (\<exists>p out out'. collect_bytes plan_parser (new_utf8_parser new_plan_parser) cs =
        Some (\<lparr>inner = p, pending_utf8 = []\<rparr>, Ok out) \<and>
      collect_chunks plan_parser new_plan_parser [t] = Some (p, out') \<and> same_chunk plan_view out' out)"
proof (intro conjI)
  obtain p out out' where "collect_bytes citation_parser (new_utf8_parser citation_start) cs =
        Some (\<lparr>inner = p, pending_utf8 = []\<rparr>, Ok out)"
      "collect_chunks citation_parser citation_start [t] = Some (p, out')" "same_chunk (\<lambda>xs. xs) out' out"
    using citation.collect_bytes_encoded [OF citation_start_inv assms] by blast
  then show "\<exists>p out. collect_bytes citation_parser (new_utf8_parser citation_start) cs =
        Some (\<lparr>inner = p, pending_utf8 = []\<rparr>, Ok out) \<and>
      collect_chunks citation_parser citation_start [t] = Some (p, out)"
    by (cases out; cases out') (simp add: same_chunk_def)
  show "\<exists>p out out'. collect_bytes plan_parser (new_utf8_parser new_plan_parser) cs =
        Some (\<lparr>inner = p, pending_utf8 = []\<rparr>, Ok out) \<and>
      collect_chunks plan_parser new_plan_parser [t] = Some (p, out') \<and> same_chunk plan_view out' out"
    using plan.collect_bytes_encoded [OF TrueI assms] by blast
qed

theorem utf8_chunking_witness:
  "list_all is_scalar [0x48, 0xE9, 0x21] \<and> concat [[0x48, 0xC3], [0xA9, 0x21]] = utf8_encode [0x48, 0xE9, 0x21] \<and>
   (\<exists>p out. collect_bytes citation_parser (new_utf8_parser citation_start) [[0x48, 0xC3], [0xA9, 0x21]] =
        Some (\<lparr>inner = p, pending_utf8 = []\<rparr>, Ok out) \<and>
      collect_chunks citation_parser citation_start [[0x48, 0xE9, 0x21]] = Some (p, out))"
  using utf8_chunking [of "[0x48, 0xE9, 0x21]" "[[0x48, 0xC3], [0xA9, 0x21]]"]
  by (simp add: is_scalar_def utf8_char_def)

text \<open>
  A chunk that makes the stream invalid is rolled back as a whole, whatever the wrapped parser:
  when \<open>push_bytes\<close> reports an error the adapter is in the state it was in, the wrapped parser not
  having seen any of the chunk and the bytes held back unchanged, so the caller can go on with other
  bytes.
\<close>

theorem utf8_rollback:
  assumes "push_bytes P st chunk = Some (st', Err e)"
  shows "st' = st"
  using assms
  by (cases st) (auto simp: push_bytes_def push_inner_def Let_def split: sum.splits option.splits if_splits)

theorem utf8_rollback_witness:
  "\<exists>st'. push_bytes plan_parser \<lparr>inner = new_plan_parser, pending_utf8 = [0xC3]\<rparr> [0xA9, 0x41, 0xFF] =
     Some (st', Err (InvalidUtf8 3 1)) \<and> st' = \<lparr>inner = new_plan_parser, pending_utf8 = [0xC3]\<rparr>"
proof -
  have "push_bytes plan_parser \<lparr>inner = new_plan_parser, pending_utf8 = [0xC3]\<rparr> [0xA9, 0x41, 0xFF] =
      Some (\<lparr>inner = new_plan_parser, pending_utf8 = [0xC3]\<rparr>, Err (InvalidUtf8 3 1))"
    by (simp add: push_bytes_def from_utf8.simps next_char_def is_continuation_def)
  with utf8_rollback [OF this] show ?thesis by blast
qed

end
