(* ===== verification/Assistant_Text.thy ===== *)
theory Assistant_Text
  imports Utf8_Stream
begin

text \<open>
  \<open>utils/stream-parser/src/assistant_text.rs\<close>: the parser of assistant messages, which strips
  citations first and, in plan mode, proposed plans from what remains. Its behaviour on a stream is
  composed from the contracts of the two parsers it drives.
\<close>

section \<open>The parser\<close>

record AssistantTextChunk =
  shown_text :: ustring
  citations :: "ustring list"
  plan_segments :: "ProposedPlanSegment list"

definition assistant_chunk_is_empty :: "AssistantTextChunk \<Rightarrow> bool" where
  "assistant_chunk_is_empty c \<longleftrightarrow> shown_text c = [] \<and> citations c = [] \<and> plan_segments c = []"

record AssistantTextStreamParser =
  plan_mode :: bool
  citation_state :: CitationStreamParser
  plan_state :: ProposedPlanParser

text \<open>The constructors of the two inner parsers; the one of citations asserts that its tags are not empty.\<close>

definition new_assistant_parser :: "bool \<Rightarrow> AssistantTextStreamParser option" where
  "new_assistant_parser mode =
     (case new_citation_parser of
        None \<Rightarrow> None
      | Some c \<Rightarrow> Some \<lparr>plan_mode = mode, citation_state = c, plan_state = new_plan_parser\<rparr>)"

definition parse_visible_text ::
    "AssistantTextStreamParser \<Rightarrow> ustring \<Rightarrow> AssistantTextStreamParser \<times> AssistantTextChunk" where
  "parse_visible_text p visible =
     (if \<not> plan_mode p then (p, \<lparr>shown_text = visible, citations = [], plan_segments = []\<rparr>)
      else
        (let (q, plan_chunk) = plan_push_str (plan_state p) visible
         in (p\<lparr>plan_state := q\<rparr>,
             \<lparr>shown_text = visible_text plan_chunk, citations = [], plan_segments = extracted plan_chunk\<rparr>)))"

definition assistant_push_str ::
    "AssistantTextStreamParser \<Rightarrow> ustring \<Rightarrow> (AssistantTextStreamParser \<times> AssistantTextChunk) option" where
  "assistant_push_str p chunk =
     (case citation_push_str (citation_state p) chunk of
        None \<Rightarrow> None
      | Some (c, cited_chunk) \<Rightarrow>
          (let (q, out) = parse_visible_text (p\<lparr>citation_state := c\<rparr>) (visible_text cited_chunk)
           in Some (q, out\<lparr>citations := extracted cited_chunk\<rparr>)))"

definition assistant_finish ::
    "AssistantTextStreamParser \<Rightarrow> AssistantTextStreamParser \<times> AssistantTextChunk" where
  "assistant_finish p =
     (let (c, cited_chunk) = citation_finish (citation_state p);
          (q, out) = parse_visible_text (p\<lparr>citation_state := c\<rparr>) (visible_text cited_chunk);
          (q', out') =
            (if plan_mode q
             then (let (r, tail) = plan_finish (plan_state q)
                   in (q\<lparr>plan_state := r\<rparr>,
                       if stream_chunk_is_empty tail then out
                       else out\<lparr>shown_text := shown_text out @ visible_text tail,
                               plan_segments := plan_segments out @ extracted tail\<rparr>))
             else (q, out))
      in (q', out'\<lparr>citations := extracted cited_chunk\<rparr>))"

definition assistant_append :: "AssistantTextChunk \<Rightarrow> AssistantTextChunk \<Rightarrow> AssistantTextChunk" where
  "assistant_append a b =
     \<lparr>shown_text = shown_text a @ shown_text b, citations = citations a @ citations b,
      plan_segments = plan_segments a @ plan_segments b\<rparr>"

fun assistant_push_all ::
    "AssistantTextStreamParser \<Rightarrow> ustring list \<Rightarrow> (AssistantTextStreamParser \<times> AssistantTextChunk) option" where
  "assistant_push_all p [] = Some (p, \<lparr>shown_text = [], citations = [], plan_segments = []\<rparr>)"
| "assistant_push_all p (c # cs) =
     (case assistant_push_str p c of
        None \<Rightarrow> None
      | Some (p', out) \<Rightarrow>
          (case assistant_push_all p' cs of
             None \<Rightarrow> None | Some (p'', out') \<Rightarrow> Some (p'', assistant_append out out')))"

definition assistant_collect ::
    "AssistantTextStreamParser \<Rightarrow> ustring list \<Rightarrow> (AssistantTextStreamParser \<times> AssistantTextChunk) option" where
  "assistant_collect p cs =
     (case assistant_push_all p cs of
        None \<Rightarrow> None
      | Some (p', out) \<Rightarrow> (let (p'', tail) = assistant_finish p' in Some (p'', assistant_append out tail)))"

section \<open>The two parsers in sequence\<close>

text \<open>In plan mode the plan parser is fed the visible texts of the citation parser.\<close>

lemma assistant_push_plan:
  assumes "plan_mode p" "push_all citation_parser (citation_state p) cs = Some (c, co)"
  shows "\<exists>vs q po. concat vs = visible_text co \<and> push_all plan_parser (plan_state p) vs = Some (q, po) \<and>
    assistant_push_all p cs = Some (p\<lparr>citation_state := c, plan_state := q\<rparr>,
      \<lparr>shown_text = visible_text po, citations = extracted co, plan_segments = extracted po\<rparr>)"
  using assms
proof (induction cs arbitrary: p co)
  case Nil
  then show ?case
    by (intro exI [of _ "[]"] exI [of _ "plan_state p"] exI [of _ default_stream_chunk]) auto
next
  case (Cons t cs)
  obtain c1 co1 co2 where c: "citation_push_str (citation_state p) t = Some (c1, co1)"
    "push_all citation_parser c1 cs = Some (c, co2)" "co = chunk_append co1 co2"
    using Cons.prems(2) by (auto simp: citation_parser_def split: option.splits)
  obtain q1 po1 where q1: "plan_push_str (plan_state p) (visible_text co1) = (q1, po1)" by fastforce
  let ?p1 = "p\<lparr>citation_state := c1, plan_state := q1\<rparr>"
  obtain vs q po where vs: "concat vs = visible_text co2" "push_all plan_parser q1 vs = Some (q, po)"
    "assistant_push_all ?p1 cs = Some (?p1\<lparr>citation_state := c, plan_state := q\<rparr>,
      \<lparr>shown_text = visible_text po, citations = extracted co2, plan_segments = extracted po\<rparr>)"
    using Cons.IH [of ?p1 co2] Cons.prems(1) c(2) by auto
  have "assistant_push_str p t = Some (?p1,
      \<lparr>shown_text = visible_text po1, citations = extracted co1, plan_segments = extracted po1\<rparr>)"
    using Cons.prems(1) c(1) q1 by (simp add: assistant_push_str_def parse_visible_text_def)
  with vs c(3) q1 show ?case
    by (intro exI [of _ "visible_text co1 # vs"] exI [of _ q] exI [of _ "chunk_append po1 po"])
      (simp add: plan_parser_def assistant_append_def)
qed

lemma assistant_push_plain:
  "\<not> plan_mode p \<Longrightarrow> push_all citation_parser (citation_state p) cs = Some (c, co) \<Longrightarrow>
   assistant_push_all p cs = Some (p\<lparr>citation_state := c\<rparr>,
      \<lparr>shown_text = visible_text co, citations = extracted co, plan_segments = []\<rparr>)"
proof (induction cs arbitrary: p co)
  case (Cons t cs)
  obtain c1 co1 co2 where c: "citation_push_str (citation_state p) t = Some (c1, co1)"
    "push_all citation_parser c1 cs = Some (c, co2)" "co = chunk_append co1 co2"
    using Cons.prems(2) by (auto simp: citation_parser_def split: option.splits)
  with Cons.IH [of "p\<lparr>citation_state := c1\<rparr>" co2] Cons.prems(1) show ?case
    by (simp add: assistant_push_str_def parse_visible_text_def assistant_append_def)
qed auto

lemma push_all_snoc:
  "push_all P s (vs @ [v]) =
     (case push_all P s vs of
        None \<Rightarrow> None
      | Some (s', out) \<Rightarrow>
          (case push_str P s' v of None \<Rightarrow> None | Some (s'', out') \<Rightarrow> Some (s'', chunk_append out out')))"
  by (induction vs arbitrary: s) (auto split: option.splits)

lemma assistant_collect_plan:
  assumes "plan_mode p" "collect_chunks citation_parser (citation_state p) cs = Some (c, co)"
  shows "\<exists>vs q po. concat vs = visible_text co \<and> collect_chunks plan_parser (plan_state p) vs = Some (q, po) \<and>
    assistant_collect p cs = Some (p\<lparr>citation_state := c, plan_state := q\<rparr>,
      \<lparr>shown_text = visible_text po, citations = extracted co, plan_segments = extracted po\<rparr>)"
proof -
  obtain c1 co1 cf where c: "push_all citation_parser (citation_state p) cs = Some (c1, co1)"
    "citation_finish c1 = (c, cf)" "co = chunk_append co1 cf"
    using assms(2) by (auto simp: collect_chunks_def citation_parser_def split: option.splits prod.splits)
  obtain vs q po where vs: "concat vs = visible_text co1" "push_all plan_parser (plan_state p) vs = Some (q, po)"
    "assistant_push_all p cs = Some (p\<lparr>citation_state := c1, plan_state := q\<rparr>,
      \<lparr>shown_text = visible_text po, citations = extracted co1, plan_segments = extracted po\<rparr>)"
    using assistant_push_plan [OF assms(1) c(1)] by blast
  obtain q1 po1 where q1: "plan_push_str q (visible_text cf) = (q1, po1)" by fastforce
  obtain q2 po2 where q2: "plan_finish q1 = (q2, po2)" by fastforce
  have "collect_chunks plan_parser (plan_state p) (vs @ [visible_text cf]) =
      Some (q2, chunk_append po (chunk_append po1 po2))"
    using vs(2) q1 q2 by (simp add: collect_chunks_def push_all_snoc) (simp add: plan_parser_def)
  moreover have "assistant_collect p cs = Some (p\<lparr>citation_state := c, plan_state := q2\<rparr>,
      \<lparr>shown_text = visible_text po @ visible_text po1 @ visible_text po2, citations = extracted co1 @ extracted cf,
       plan_segments = extracted po @ extracted po1 @ extracted po2\<rparr>)"
    using assms(1) c(2) vs(3) q1 q2
    by (simp add: assistant_collect_def assistant_finish_def parse_visible_text_def assistant_append_def
        stream_chunk_is_empty_def)
  ultimately show ?thesis
    using vs(1) c(3) by (intro exI [of _ "vs @ [visible_text cf]"] exI [of _ q2]) auto
qed

lemma assistant_collect_plain:
  assumes "\<not> plan_mode p" "collect_chunks citation_parser (citation_state p) cs = Some (c, co)"
  shows "assistant_collect p cs = Some (p\<lparr>citation_state := c\<rparr>,
      \<lparr>shown_text = visible_text co, citations = extracted co, plan_segments = []\<rparr>)"
proof -
  obtain c1 co1 cf where c: "push_all citation_parser (citation_state p) cs = Some (c1, co1)"
    "citation_finish c1 = (c, cf)" "co = chunk_append co1 cf"
    using assms(2) by (auto simp: collect_chunks_def citation_parser_def split: option.splits prod.splits)
  with assms(1) assistant_push_plain [OF assms(1) c(1)] show ?thesis
    by (simp add: assistant_collect_def assistant_finish_def parse_visible_text_def assistant_append_def)
qed

lemma strip_citations_collect:
  "collect_chunks citation_parser citation_start [t] = Some (c, co) \<Longrightarrow>
   strip_citations t = Some (visible_text co, extracted co)"
  by (auto simp: strip_citations_def new_citation collect_chunks_def citation_parser_def split: option.splits prod.splits)

section \<open>Properties\<close>

text \<open>
  C31: An assistant message always parses, and the outcome depends only on its text, not on the
  chunks it is streamed in. The citations are those of the whole text; without plan mode the text
  shown is the text without citations; in plan mode that text is read line by line, the text shown
  is its lines outside proposed plans, and the plan segments stand for those lines and blocks.
\<close>

theorem assistant_text_parsed:
  "\<exists>v cites p p' out. strip_citations (concat cs) = Some (v, cites) \<and> new_assistant_parser mode = Some p \<and>
     assistant_collect p cs = Some (p', out) \<and> citations out = cites \<and>
     shown_text out = (if mode then visible_of (lines_tokens plan_specs (split_inclusive LF v)) else v) \<and>
     plan_view (plan_segments out) = (if mode then lines_tokens plan_specs (split_inclusive LF v) else [])"
proof -
  obtain c co co' where c: "collect_chunks citation_parser citation_start cs = Some (c, co)"
    "collect_chunks citation_parser citation_start [concat cs] = Some (c, co')" "same_chunk (\<lambda>xs. xs) co' co"
    using citation.collect_concat [OF citation_start_inv] by blast
  then have strip: "strip_citations (concat cs) = Some (visible_text co, extracted co)"
    using strip_citations_collect [OF c(2)] by (simp add: same_chunk_def)
  define p where "p = \<lparr>plan_mode = mode, citation_state = citation_start, plan_state = new_plan_parser\<rparr>"
  have new: "new_assistant_parser mode = Some p" by (simp add: new_assistant_parser_def new_citation p_def)
  show ?thesis
  proof (cases mode)
    case True
    obtain vs q po where vs: "concat vs = visible_text co"
      "collect_chunks plan_parser new_plan_parser vs = Some (q, po)"
      "assistant_collect p cs = Some (p\<lparr>citation_state := c, plan_state := q\<rparr>,
        \<lparr>shown_text = visible_text po, citations = extracted co, plan_segments = extracted po\<rparr>)"
      using assistant_collect_plan [of p cs c co] c(1) True by (auto simp: p_def)
    have "plan_view (extracted po) = lines_tokens plan_specs (split_inclusive LF (visible_text co))"
      "visible_text po = visible_of (lines_tokens plan_specs (split_inclusive LF (visible_text co)))"
      using plan_collect [of vs] vs(1,2) by auto
    with strip new vs(3) True show ?thesis by auto
  next
    case False
    with assistant_collect_plain [of p cs c co] c(1) strip new show ?thesis
      by (auto simp: p_def plan_view_def)
  qed
qed

end
