(* ===== verification/Shell_Syntax.thy ===== *)
theory Shell_Syntax
  imports Abs_Path
begin

text \<open>
  \<open>shell-command/src/bash.rs\<close> and \<open>detect_shell_type\<close> of \<open>shell_detect.rs\<close>, on a Unix host: the
  commands in a script handed to a shell with \<open>-c\<close> or \<open>-lc\<close>.

  The tree-sitter parser is an argument: a function from the script to a syntax tree. A node has a
  kind, whether it is named, the byte it starts at, the source text it spans (\<open>None\<close> if that is no
  text), and its children. What is used of the bash grammar is \<open>name_first\<close>: the arguments of a
  command come after its name.

  Lemmas: the loops over the stack of nodes visit exactly the nodes of the tree, and the two ways of
  reading a command, the strict one that proves a script harmless and the lenient one that looks for
  dangerous commands, agree on the program a command runs.
\<close>

section \<open>Shells\<close>

datatype ShellType = Zsh | Bash | PowerShell | Sh | Cmd

text \<open>\<open>Path::file_stem\<close>: the file name up to its last dot, unless that is its first character.\<close>

definition file_stem :: "ustring \<Rightarrow> ustring option" where
  "file_stem s =
     (case path_file_name (path_components s) of
        None \<Rightarrow> None
      | Some name \<Rightarrow>
          Some (case rsplit_once 46 name of
                  Some (stem, _) \<Rightarrow> if stem = [] then name else stem
                | None \<Rightarrow> name))"

definition shell_of_name :: "ustring \<Rightarrow> ShellType option" where
  "shell_of_name s =
     (if s = str ''zsh'' then Some Zsh
      else if s = str ''sh'' then Some Sh
      else if s = str ''cmd'' then Some Cmd
      else if s = str ''bash'' then Some Bash
      else if s = str ''pwsh'' then Some PowerShell
      else if s = str ''powershell'' then Some PowerShell
      else None)"

lemma rsplit_once_Some: "rsplit_once c s = Some (a, b) \<Longrightarrow> s = a @ c # b \<and> c \<notin> set b"
  by (auto simp: rsplit_once_def split_once_Some split: option.splits)
    (metis append.assoc append_Cons append_Nil rev.simps(2) rev_append rev_swap)

lemma join_split_length: "w \<in> set (split_char c s) \<Longrightarrow> length w \<le> length s"
  by (induction c s arbitrary: w rule: split_char.induct) (force split: if_splits list.splits)+

lemma last_opt_in: "last_opt xs = Some x \<Longrightarrow> x \<in> set xs"
  by (auto simp: last_opt_eq_Some)

lemma file_name_segment:
  assumes "path_file_name (path_components s) = Some name"
  shows "name \<in> set (split_char 47 s)"
proof -
  have "Normal name \<in> set (path_components s)"
    using assms by (auto simp: path_file_name_def split: option.splits path_component.splits dest: last_opt_in)
  then have "Normal name \<in> component_of ` set (split_char 47 s)"
    by (auto simp: path_components_def Let_def split: if_splits list.splits)
      (metis filter_is_subset image_eqI list.set_intros(1,2) subsetD)+
  then show ?thesis by (auto simp: component_of_def split: if_splits)
qed

lemma file_stem_length: "file_stem s = Some t \<Longrightarrow> length t \<le> length s"
  by (auto simp: file_stem_def split: option.splits if_splits dest!: file_name_segment join_split_length rsplit_once_Some)

lemma split_char_whole: "w \<in> set (split_char c s) \<Longrightarrow> length w = length s \<Longrightarrow> w = s"
proof (induction c s arbitrary: w rule: split_char.induct)
  case (2 c x xs)
  show ?case
  proof (cases "x = c")
    case True
    with 2(3,4) show ?thesis by (auto dest: join_split_length)
  next
    case False
    obtain v vs where xs: "split_char c xs = v # vs" using split_char_neq_Nil by (metis list.exhaust)
    have "w \<notin> set vs" using join_split_length [of w c xs] 2(4) xs by auto
    with 2 False xs show ?thesis by auto
  qed
qed simp

lemma file_stem_shorter:
  assumes "file_stem s = Some t" "path_components t \<noteq> path_components s"
  shows "length t < length s"
proof -
  obtain name where name: "path_file_name (path_components s) = Some name" "name \<in> set (split_char 47 s)"
    using assms(1) file_name_segment by (auto simp: file_stem_def split: option.splits)
  consider "t = name" | "length t < length name"
    using assms(1) name(1) by (auto simp: file_stem_def split: option.splits if_splits dest!: rsplit_once_Some)
  then show ?thesis
  proof cases
    case 1
    with assms(2) name(2) show ?thesis
      by (metis join_split_length le_neq_implies_less split_char_whole)
  next
    case 2
    then show ?thesis using join_split_length [OF name(2)] by simp
  qed
qed

function detect_shell_type :: "ustring \<Rightarrow> ShellType option" where
  "detect_shell_type shell_path =
     (case shell_of_name shell_path of
        Some t \<Rightarrow> Some t
      | None \<Rightarrow>
          (case file_stem shell_path of
             Some shell_name \<Rightarrow>
               if path_components shell_name \<noteq> path_components shell_path
               then detect_shell_type shell_name else None
           | None \<Rightarrow> None))"
  by auto

termination detect_shell_type
  by (relation "measure length") (auto intro: file_stem_shorter)

declare detect_shell_type.simps [simp del]

section \<open>Syntax trees\<close>

datatype node = Node (kind: ustring) (is_named: bool) (start_byte: nat) (utf8_text: "ustring option") (children: "node list")

record syntax_tree =
  root_node :: node
  has_error :: bool

type_synonym shell_parser = "ustring \<Rightarrow> syntax_tree option"

definition named_children :: "node \<Rightarrow> node list" where
  "named_children n = filter is_named (children n)"

definition is_kind :: "string \<Rightarrow> node \<Rightarrow> bool" where
  "is_kind k n \<longleftrightarrow> kind n = str k"

definition kind_in :: "string list \<Rightarrow> node \<Rightarrow> bool" where
  "kind_in ks n \<longleftrightarrow> list_ex (\<lambda>k. kind n = str k) ks"

definition parse_double_quoted_string :: "node \<Rightarrow> ustring option" where
  "parse_double_quoted_string n =
     (if \<not> is_kind ''string'' n then None
      else if list_ex (\<lambda>part. \<not> is_kind ''string_content'' part) (named_children n) then None
      else (case utf8_text n of
              None \<Rightarrow> None
            | Some raw \<Rightarrow>
                (case strip_prefix [34] raw of None \<Rightarrow> None | Some t \<Rightarrow> strip_suffix [34] t)))"

definition parse_raw_string :: "node \<Rightarrow> ustring option" where
  "parse_raw_string n =
     (if \<not> is_kind ''raw_string'' n then None
      else (case utf8_text n of
              None \<Rightarrow> None
            | Some raw \<Rightarrow>
                (case strip_prefix [39] raw of None \<Rightarrow> None | Some t \<Rightarrow> strip_suffix [39] t)))"

definition is_literal_word_or_number :: "node \<Rightarrow> bool" where
  "is_literal_word_or_number n \<longleftrightarrow> kind_in [''word'', ''number''] n \<and> named_children n = []"

text \<open>The strict reading: one word of a plain command, and the whole command.\<close>

definition concat_part :: "node \<Rightarrow> ustring option" where
  "concat_part part =
     (if kind_in [''word'', ''number''] part then utf8_text part
      else if is_kind ''string'' part then parse_double_quoted_string part
      else if is_kind ''raw_string'' part then parse_raw_string part
      else None)"

fun all_some :: "'a option list \<Rightarrow> 'a list option" where
  "all_some [] = Some []"
| "all_some (None # xs) = None"
| "all_some (Some x # xs) = map_option ((#) x) (all_some xs)"

definition plain_word :: "node \<Rightarrow> ustring option" where
  "plain_word child =
     (if is_kind ''command_name'' child
      then (case first_opt (named_children child) of
              None \<Rightarrow> None
            | Some word_node \<Rightarrow> if is_kind ''word'' word_node then utf8_text word_node else None)
      else if kind_in [''word'', ''number''] child then utf8_text child
      else if is_kind ''string'' child then parse_double_quoted_string child
      else if is_kind ''raw_string'' child then parse_raw_string child
      else if is_kind ''concatenation'' child
      then (case all_some (map concat_part (named_children child)) of
              None \<Rightarrow> None
            | Some parts \<Rightarrow> if concat parts = [] then None else Some (concat parts))
      else None)"

definition parse_plain_command_from_node :: "node \<Rightarrow> ustring list option" where
  "parse_plain_command_from_node cmd =
     (if \<not> is_kind ''command'' cmd then None else all_some (map plain_word (named_children cmd)))"

text \<open>The lenient reading keeps the words that are known.\<close>

function parse_literal_shell_word :: "node \<Rightarrow> ustring option" where
  "parse_literal_shell_word n =
     (if is_literal_word_or_number n then utf8_text n
      else if is_kind ''string'' n then parse_double_quoted_string n
      else if is_kind ''raw_string'' n then parse_raw_string n
      else if is_kind ''concatenation'' n
      then (case all_some (map parse_literal_shell_word (named_children n)) of
              None \<Rightarrow> None
            | Some parts \<Rightarrow> if concat parts = [] then None else Some (concat parts))
      else None)"
  by auto

lemma child_smaller: "c \<in> set (children n) \<Longrightarrow> size c < size n"
  by (cases n) (auto simp: less_Suc_eq_le dest!: size_list_estimation' [where f = size, OF _ order_refl])

termination parse_literal_shell_word
  by (relation "measure size") (auto simp: named_children_def child_smaller)

declare parse_literal_shell_word.simps [simp del]

text \<open>A command whose name is not a known word is given up on: the outer option is the \<open>?\<close> operator.\<close>

fun literal_words :: "node list \<Rightarrow> bool \<Rightarrow> ustring list \<Rightarrow> (bool \<times> ustring list) option" where
  "literal_words [] found words = Some (found, words)"
| "literal_words (child # rest) found words =
     (if is_kind ''command_name'' child
      then (case first_opt (named_children child) of
              None \<Rightarrow> None
            | Some name_node \<Rightarrow>
                (case parse_literal_shell_word name_node of
                   None \<Rightarrow> None
                 | Some name \<Rightarrow> literal_words rest True (words @ [name])))
      else if found
      then (case parse_literal_shell_word child of
              None \<Rightarrow> literal_words rest found words
            | Some word \<Rightarrow> literal_words rest found (words @ [word]))
      else literal_words rest found words)"

definition parse_literal_command_from_node :: "node \<Rightarrow> ustring list option" where
  "parse_literal_command_from_node cmd =
     (if \<not> is_kind ''command'' cmd then None
      else (case literal_words (named_children cmd) False [] of
              None \<Rightarrow> None
            | Some (found_command_name, words) \<Rightarrow> if found_command_name then Some words else None))"

definition is_allowed_heredoc_attachment_kind :: "node \<Rightarrow> bool" where
  "is_allowed_heredoc_attachment_kind n \<longleftrightarrow>
     kind_in [''heredoc_body'', ''simple_heredoc_body'', ''heredoc_redirect'', ''herestring_redirect'',
              ''redirected_statement''] n"

fun heredoc_words :: "node list \<Rightarrow> ustring list option" where
  "heredoc_words [] = Some []"
| "heredoc_words (child # rest) =
     (if is_kind ''command_name'' child
      then (case first_opt (named_children child) of
              None \<Rightarrow> None
            | Some word_node \<Rightarrow>
                if \<not> kind_in [''word'', ''number''] word_node \<or> \<not> is_literal_word_or_number word_node then None
                else (case (utf8_text word_node, heredoc_words rest) of
                        (Some w, Some ws) \<Rightarrow> Some (w # ws) | _ \<Rightarrow> None))
      else if kind_in [''word'', ''number''] child
      then (if \<not> is_literal_word_or_number child then None
            else (case (utf8_text child, heredoc_words rest) of
                    (Some w, Some ws) \<Rightarrow> Some (w # ws) | _ \<Rightarrow> None))
      else if is_kind ''comment'' child then heredoc_words rest
      else if is_allowed_heredoc_attachment_kind child then heredoc_words rest
      else None)"

definition parse_heredoc_command_words :: "node \<Rightarrow> ustring list option" where
  "parse_heredoc_command_words cmd =
     (if \<not> is_kind ''command'' cmd then None
      else (case heredoc_words (named_children cmd) of
              None \<Rightarrow> None | Some words \<Rightarrow> if words = [] then None else Some words))"

section \<open>Walking a tree\<close>

text \<open>
  The loops pop a node from a stack, here the last element of a list, and push its children. What is
  done at a node that is popped may end the loop.
\<close>

definition ALLOWED_KINDS :: "string list" where
  "ALLOWED_KINDS =
     [''program'', ''list'', ''pipeline'', ''command'', ''command_name'', ''word'', ''string'',
      ''string_content'', ''raw_string'', ''number'', ''concatenation'']"

definition ALLOWED_PUNCT_TOKENS :: "ustring list" where
  "ALLOWED_PUNCT_TOKENS = [str ''&&'', str ''||'', str '';'', str ''|'', [34], [39]]"

definition node_allowed :: "node \<Rightarrow> bool" where
  "node_allowed n \<longleftrightarrow>
     (if is_named n then kind_in ALLOWED_KINDS n
      else \<not> (list_ex (\<lambda>c. c \<in> set (str ''&;|'')) (kind n) \<and> kind n \<notin> set ALLOWED_PUNCT_TOKENS)
           \<and> (kind n \<in> set ALLOWED_PUNCT_TOKENS \<or> trim (kind n) = []))"

lemma pushed_smaller:
  "size_list size (butlast stack) + size_list size cs < size_list size stack"
  if "stack \<noteq> []" "size_list size cs < size (last stack)" for stack cs :: "node list"
proof -
  obtain xs x where "stack = xs @ [x]" using \<open>stack \<noteq> []\<close> by (metis rev_exhaust)
  with that(2) show ?thesis by (simp add: size_list_append)
qed

lemma size_children: "size_list size (children n) < size n" "size_list size (named_children n) < size n"
proof -
  have "size_list size (filter P xs) \<le> size_list size xs" for P and xs :: "node list"
    by (induction xs) auto
  then show "size_list size (children n) < size n" "size_list size (named_children n) < size n"
    by (cases n; simp add: named_children_def le_imp_less_Suc)+
qed

function plain_loop :: "node list \<Rightarrow> node list \<Rightarrow> node list option" where
  "plain_loop stack command_nodes =
     (if stack = [] then Some command_nodes
      else
        (let n = last stack
         in if \<not> node_allowed n then None
            else plain_loop (butlast stack @ children n)
                   (if is_named n \<and> is_kind ''command'' n then command_nodes @ [n] else command_nodes)))"
  by auto

termination plain_loop
  by (relation "measure (\<lambda>(stack, _). size_list size stack)") (auto simp: pushed_smaller size_children)

declare plain_loop.simps [simp del]

function literal_loop :: "node list \<Rightarrow> ustring list list \<Rightarrow> ustring list list" where
  "literal_loop stack commands =
     (if stack = [] then commands
      else
        (let n = last stack
         in literal_loop (butlast stack @ named_children n)
              (if is_kind ''command'' n
               then (case parse_literal_command_from_node n of
                       Some command \<Rightarrow> commands @ [command] | None \<Rightarrow> commands)
               else commands)))"
  by auto

termination literal_loop
  by (relation "measure (\<lambda>(stack, _). size_list size stack)") (auto simp: pushed_smaller size_children)

declare literal_loop.simps [simp del]

function single_loop :: "node list \<Rightarrow> node option \<Rightarrow> node option option" where
  "single_loop stack single_command =
     (if stack = [] then Some single_command
      else
        (let n = last stack
         in if is_kind ''command'' n \<and> single_command \<noteq> None then None
            else single_loop (butlast stack @ named_children n)
                   (if is_kind ''command'' n then Some n else single_command)))"
  by auto

termination single_loop
  by (relation "measure (\<lambda>(stack, _). size_list size stack)") (auto simp: pushed_smaller size_children)

declare single_loop.simps [simp del]

definition find_single_command_node :: "node \<Rightarrow> node option" where
  "find_single_command_node root = (case single_loop [root] None of None \<Rightarrow> None | Some c \<Rightarrow> c)"

function kind_loop :: "string \<Rightarrow> node list \<Rightarrow> bool" where
  "kind_loop k stack =
     (if stack = [] then False
      else
        (let n = last stack
         in if is_kind k n then True else kind_loop k (butlast stack @ named_children n)))"
  by auto

termination kind_loop
  by (relation "measure (\<lambda>(_, stack). size_list size stack)") (auto simp: pushed_smaller size_children)

declare kind_loop.simps [simp del]

definition has_named_descendant_kind :: "node \<Rightarrow> string \<Rightarrow> bool" where
  "has_named_descendant_kind n k = kind_loop k [n]"

section \<open>The commands of a script\<close>

definition try_parse_word_only_commands_sequence :: "syntax_tree \<Rightarrow> ustring list list option" where
  "try_parse_word_only_commands_sequence tree =
     (if has_error tree then None
      else (case plain_loop [root_node tree] [] of
              None \<Rightarrow> None
            | Some command_nodes \<Rightarrow>
                all_some (map parse_plain_command_from_node (sort_key start_byte command_nodes))))"

definition parse_shell_script_into_commands :: "shell_parser \<Rightarrow> ustring \<Rightarrow> ustring list list option" where
  "parse_shell_script_into_commands try_parse_shell script =
     (case try_parse_shell script of
        None \<Rightarrow> None | Some tree \<Rightarrow> try_parse_word_only_commands_sequence tree)"

definition extract_bash_command :: "ustring list \<Rightarrow> (ustring \<times> ustring) option" where
  "extract_bash_command command =
     (case command of
        [shell, flag, script] \<Rightarrow>
          if \<not> (flag = str ''-lc'' \<or> flag = str ''-c'')
             \<or> detect_shell_type shell \<notin> {Some Zsh, Some Bash, Some Sh}
          then None else Some (shell, script)
      | _ \<Rightarrow> None)"

definition parse_shell_lc_plain_commands :: "shell_parser \<Rightarrow> ustring list \<Rightarrow> ustring list list option" where
  "parse_shell_lc_plain_commands try_parse_shell command =
     (case extract_bash_command command of
        None \<Rightarrow> None | Some (_, script) \<Rightarrow> parse_shell_script_into_commands try_parse_shell script)"

definition parse_shell_lc_literal_commands :: "shell_parser \<Rightarrow> ustring list \<Rightarrow> ustring list list option" where
  "parse_shell_lc_literal_commands try_parse_shell command =
     (case extract_bash_command command of
        None \<Rightarrow> None
      | Some (_, script) \<Rightarrow>
          (case try_parse_shell script of
             None \<Rightarrow> None
           | Some tree \<Rightarrow> if has_error tree then None else Some (literal_loop [root_node tree] [])))"

definition parse_shell_lc_single_command_prefix :: "shell_parser \<Rightarrow> ustring list \<Rightarrow> ustring list option" where
  "parse_shell_lc_single_command_prefix try_parse_shell command =
     (case extract_bash_command command of
        None \<Rightarrow> None
      | Some (_, script) \<Rightarrow>
          (case try_parse_shell script of
             None \<Rightarrow> None
           | Some tree \<Rightarrow>
               let root = root_node tree
               in if has_error tree then None
                  else if \<not> has_named_descendant_kind root ''heredoc_redirect'' then None
                  else if has_named_descendant_kind root ''file_redirect'' then None
                  else (case find_single_command_node root of
                          None \<Rightarrow> None
                        | Some command_node \<Rightarrow> parse_heredoc_command_words command_node)))"

section \<open>The loops visit the tree\<close>

fun nodes :: "node \<Rightarrow> node set" where
  "nodes (Node k b i t cs) = insert (Node k b i t cs) (\<Union> (nodes ` set cs))"

lemma nodes_children: "nodes n = insert n (\<Union> (nodes ` set (children n)))"
  by (cases n) simp

function named_nodes :: "node \<Rightarrow> node set" where
  "named_nodes n = insert n (\<Union> (named_nodes ` set (named_children n)))"
  by auto

termination named_nodes
  by (relation "measure size") (auto simp: named_children_def child_smaller)

declare named_nodes.simps [simp del]

lemma named_nodes_sub: "named_nodes n \<subseteq> nodes n"
proof (induction n rule: named_nodes.induct)
  case (1 n)
  then show ?case
    unfolding named_nodes.simps [of n] nodes_children [of n] by (auto simp: named_children_def)
qed

lemma plain_loop_visits:
  "plain_loop stack acc = Some out \<Longrightarrow>
   (\<forall>n \<in> set stack. \<forall>m \<in> nodes n. node_allowed m) \<and>
   set acc \<union> {m. \<exists>n \<in> set stack. m \<in> nodes n \<and> is_named m \<and> is_kind ''command'' m} \<subseteq> set out"
proof (induction stack acc rule: plain_loop.induct)
  case (1 stack acc)
  show ?case
  proof (cases "stack = []")
    case True
    with 1 show ?thesis by (simp add: plain_loop.simps)
  next
    case False
    define n where "n = last stack"
    have stack: "set stack = insert n (set (butlast stack))"
      using False by (metis append_butlast_last_id n_def rotate1.simps(2) set_rotate1 list.simps(15))
    let ?acc = "if is_named n \<and> is_kind ''command'' n then acc @ [n] else acc"
    have ok: "node_allowed n" "plain_loop (butlast stack @ children n) ?acc = Some out"
      using 1(2) False by (auto simp: plain_loop.simps [of stack] Let_def n_def split: if_splits)
    note IH = 1(1) [OF False n_def _ ok(2)]
    with ok(1) show ?thesis
      unfolding stack ball_simps by (auto simp: nodes_children [of n] split: if_splits)
  qed
qed

lemma literal_loop_visits:
  "set (literal_loop stack acc) =
   set acc \<union> {w. \<exists>n \<in> set stack. \<exists>m \<in> named_nodes n. is_kind ''command'' m \<and> parse_literal_command_from_node m = Some w}"
proof (induction stack acc rule: literal_loop.induct)
  case (1 stack acc)
  show ?case
  proof (cases "stack = []")
    case True
    then show ?thesis by (simp add: literal_loop.simps)
  next
    case False
    define n where "n = last stack"
    have stack: "set stack = insert n (set (butlast stack))"
      using False by (metis append_butlast_last_id n_def rotate1.simps(2) set_rotate1 list.simps(15))
    show ?thesis
      using 1 [OF False n_def] False unfolding stack literal_loop.simps [of stack] Let_def n_def [symmetric]
      by (auto simp: named_nodes.simps [of n] split: option.splits if_splits)
  qed
qed

text \<open>What is used of the grammar: no argument and no other name comes before the name of a command.\<close>

definition WORD_KINDS :: "string list" where
  "WORD_KINDS = [''word'', ''number'', ''string'', ''raw_string'', ''concatenation'', ''command_name'']"

fun name_first :: "node list \<Rightarrow> bool" where
  "name_first [] \<longleftrightarrow> True"
| "name_first (c # cs) \<longleftrightarrow>
     (if kind_in WORD_KINDS c then list_all (\<lambda>d. \<not> is_kind ''command_name'' d) cs else name_first cs)"

definition grammar_ok :: "shell_parser \<Rightarrow> bool" where
  "grammar_ok try_parse_shell \<longleftrightarrow>
     (\<forall>script tree. try_parse_shell script = Some tree \<longrightarrow>
        (\<forall>n \<in> nodes (root_node tree). is_kind ''command'' n \<longrightarrow> name_first (named_children n)))"

lemma all_some_Some: "all_some xs = Some ys \<longleftrightarrow> xs = map Some ys"
  by (induction xs arbitrary: ys rule: all_some.induct) (auto simp: Cons_eq_map_conv)

lemma literal_words_prefix: "literal_words cs found ws = Some (f, vs) \<Longrightarrow> prefix ws vs"
  by (induction cs found ws rule: literal_words.induct)
    (auto split: if_splits option.splits dest: append_prefixD)

lemma plain_word_kind: "plain_word c = Some w \<Longrightarrow> kind_in WORD_KINDS c"
  by (auto simp: plain_word_def kind_in_def is_kind_def WORD_KINDS_def split: if_splits)

lemma literal_not_named:
  "list_all (\<lambda>d. \<not> is_kind ''command_name'' d) cs \<Longrightarrow> literal_words cs False ws = Some (False, ws)"
  by (induction cs) auto

lemma literal_word_of_word: "is_kind ''word'' n \<Longrightarrow> parse_literal_shell_word n = Some w \<Longrightarrow> utf8_text n = Some w"
  by (auto simp: parse_literal_shell_word.simps [of n] is_kind_def str_def split: if_splits)

lemma readings_agree:
  assumes plain: "parse_plain_command_from_node n = Some ws"
    and literal: "parse_literal_command_from_node n = Some vs" and "name_first (named_children n)"
  shows "\<exists>w ws' vs'. ws = w # ws' \<and> vs = w # vs'"
proof (cases "named_children n")
  case Nil
  with literal show ?thesis by (simp add: parse_literal_command_from_node_def split: if_splits)
next
  case (Cons c cs)
  obtain w ws' where ws: "ws = w # ws'" "plain_word c = Some w"
    using plain Cons by (auto simp: parse_plain_command_from_node_def all_some_Some Cons_eq_map_conv split: if_splits)
  then have no: "list_all (\<lambda>d. \<not> is_kind ''command_name'' d) cs"
    using assms(3) Cons plain_word_kind by simp
  have found: "literal_words (c # cs) False [] = Some (True, vs)"
    using literal Cons by (auto simp: parse_literal_command_from_node_def split: if_splits option.splits)
  have name: "is_kind ''command_name'' c"
    using found literal_not_named [OF no, of "[]"] by (auto split: if_splits)
  then obtain d v where d: "first_opt (named_children c) = Some d" "parse_literal_shell_word d = Some v"
    "literal_words cs True [v] = Some (True, vs)"
    using found by (auto split: option.splits)
  have "is_kind ''word'' d" "utf8_text d = Some w"
    using ws(2) name d(1) by (auto simp: plain_word_def split: if_splits)
  then have "v = w" using literal_word_of_word d(2) by force
  moreover obtain vs' where "vs = v # vs'" using literal_words_prefix [OF d(3)] by (auto simp: prefix_def)
  ultimately show ?thesis using ws(1) by blast
qed

text \<open>A script that passes the strict reading has no command the lenient reading sees differently.\<close>

lemma strict_covers_literal:
  assumes "parse_shell_lc_plain_commands p command = Some cmds" "grammar_ok p"
    and "parse_shell_lc_literal_commands p command = Some lits" "vs \<in> set lits"
  shows "\<exists>w ws vs'. w # ws \<in> set cmds \<and> vs = w # vs'"
proof -
  obtain script tree out where read: "p script = Some tree" "plain_loop [root_node tree] [] = Some out"
    "all_some (map parse_plain_command_from_node (sort_key start_byte out)) = Some cmds"
    "lits = literal_loop [root_node tree] []"
    using assms(1,3)
    by (auto simp: parse_shell_lc_plain_commands_def parse_shell_script_into_commands_def
        try_parse_word_only_commands_sequence_def parse_shell_lc_literal_commands_def
        split: option.splits if_splits)
  then have tree: "\<forall>n \<in> nodes (root_node tree). is_kind ''command'' n \<longrightarrow> name_first (named_children n)"
    using assms(2) unfolding grammar_ok_def by blast
  obtain m where m: "m \<in> named_nodes (root_node tree)" "is_kind ''command'' m"
    "parse_literal_command_from_node m = Some vs"
    using assms(4) read(4) by (auto simp: literal_loop_visits)
  have in_tree: "m \<in> nodes (root_node tree)" using m(1) named_nodes_sub by blast
  have "node_allowed m" using plain_loop_visits [OF read(2)] in_tree by auto
  then have "is_named m" using m(2)
    by (auto simp: node_allowed_def is_kind_def ALLOWED_PUNCT_TOKENS_def str_def trim_simps is_whitespace_def
        split: if_splits)
  then have "m \<in> set out" using plain_loop_visits [OF read(2)] in_tree m(2) by auto
  then have "parse_plain_command_from_node m \<in> set (map parse_plain_command_from_node (sort_key start_byte out))"
    by simp
  then obtain ws where ws: "ws \<in> set cmds" "parse_plain_command_from_node m = Some ws"
    using read(3) unfolding all_some_Some by auto
  then show ?thesis using readings_agree [OF ws(2) m(3)] tree in_tree m(2) by blast
qed

end
