(* ===== verification/Command_Safety.thy ===== *)
theory Command_Safety
  imports Shell_Syntax
begin

text \<open>
  \<open>shell-command/src/command_safety\<close>: \<open>is_dangerous_command.rs\<close> and \<open>is_safe_command.rs\<close>, on a Unix
  host. Whether the host is Linux is an argument; the two functions for PowerShell words have no body
  here. A safe command is run without asking the user, a dangerous one is never run without asking.

  The recursion through wrappers such as \<open>sudo\<close> carries a depth and stops above
  \<open>MAX_DANGEROUS_COMMAND_WRAPPER_DEPTH\<close>; it is a recursion on the depth that is left.

  Lemmas: the two classifications exclude each other, the exact form of a safe git command and of a
  safe sed address, how deep wrappers may be nested, and the options that are overlooked.
\<close>

section \<open>Dangerous commands\<close>

datatype DangerousCommandMatch = ForcedRm | Other

definition MAX_DANGEROUS_COMMAND_WRAPPER_DEPTH :: nat where
  "MAX_DANGEROUS_COMMAND_WRAPPER_DEPTH = 8"

definition executable_name_lookup_key :: "ustring \<Rightarrow> ustring option" where
  "executable_name_lookup_key raw = path_file_name (path_components raw)"

definition rm_args_include_force_option :: "ustring list \<Rightarrow> bool" where
  "rm_args_include_force_option args \<longleftrightarrow>
     list_ex (\<lambda>arg. arg = str ''--force'' \<or>
                is_some_and (strip_prefix (str ''-'') arg) (\<lambda>flags. \<not> prefix (str ''-'') flags \<and> 102 \<in> set flags))
       (takeWhile (\<lambda>arg. arg \<noteq> str ''--'') args)"

text \<open>In the three functions that follow, \<open>nested\<close> is the match one level deeper.\<close>

fun env_skip :: "ustring list \<Rightarrow> ustring list" where
  "env_skip [] = []"
| "env_skip (argument # rest) =
     (if argument = str ''--'' then rest
      else if argument = str ''-i'' \<or> argument = str ''--ignore-environment''
              \<or> is_some_and (split_once 61 argument) (\<lambda>(name, _). name \<noteq> [] \<and> \<not> prefix (str ''-'') name)
      then env_skip rest
      else argument # rest)"

definition dangerous_command_match_for_env ::
    "(ustring list \<Rightarrow> DangerousCommandMatch option) \<Rightarrow> ustring list \<Rightarrow> DangerousCommandMatch option" where
  "dangerous_command_match_for_env nested command = nested (env_skip (tl command))"

definition dangerous_command_match_for_trap ::
    "(ustring list \<Rightarrow> DangerousCommandMatch option) \<Rightarrow> ustring list \<Rightarrow> DangerousCommandMatch option" where
  "dangerous_command_match_for_trap nested command =
     (let operands = (if first_opt (tl command) = Some (str ''--'') then drop 2 command else tl command)
      in case first_opt operands of
           None \<Rightarrow> None
         | Some action \<Rightarrow>
             if prefix (str ''-'') action then None else nested [str ''sh'', str ''-c'', action])"

definition dangerous_command_match_for_exec ::
    "(ustring list \<Rightarrow> DangerousCommandMatch option) \<Rightarrow> ustring list \<Rightarrow> DangerousCommandMatch option" where
  "dangerous_command_match_for_exec nested command =
     (let cmd0 = (case first_opt command of None \<Rightarrow> None | Some c \<Rightarrow> executable_name_lookup_key c)
      in if cmd0 = Some (str ''rm'') \<and> rm_args_include_force_option (tl command) then Some ForcedRm
         else if cmd0 = Some (str ''sudo'') then nested (tl command)
         else if cmd0 = Some (str ''env'') then dangerous_command_match_for_env nested command
         else if cmd0 = Some (str ''trap'') then dangerous_command_match_for_trap nested command
         else None)"

primrec dangerous_levels :: "shell_parser \<Rightarrow> nat \<Rightarrow> ustring list \<Rightarrow> DangerousCommandMatch option" where
  "dangerous_levels p 0 command = None"
| "dangerous_levels p (Suc levels) command =
     (case dangerous_command_match_for_exec (dangerous_levels p levels) command of
        Some m \<Rightarrow> Some m
      | None \<Rightarrow>
          (case parse_shell_lc_literal_commands p command of
             None \<Rightarrow> None | Some commands \<Rightarrow> find_map (dangerous_levels p levels) commands))"

definition dangerous_command_match_with_depth ::
    "shell_parser \<Rightarrow> ustring list \<Rightarrow> nat \<Rightarrow> DangerousCommandMatch option" where
  "dangerous_command_match_with_depth p command wrapper_depth =
     dangerous_levels p (Suc MAX_DANGEROUS_COMMAND_WRAPPER_DEPTH - wrapper_depth) command"

definition dangerous_command_match :: "shell_parser \<Rightarrow> ustring list \<Rightarrow> DangerousCommandMatch option" where
  "dangerous_command_match p command = dangerous_command_match_with_depth p command 0"

text \<open>With the depth as the code counts it.\<close>

lemma dangerous_command_match_with_depth_eq:
  "dangerous_command_match_with_depth p command wrapper_depth =
     (if wrapper_depth > MAX_DANGEROUS_COMMAND_WRAPPER_DEPTH then None
      else
        (let nested = (\<lambda>c. dangerous_command_match_with_depth p c (wrapper_depth + 1))
         in case dangerous_command_match_for_exec nested command of
              Some m \<Rightarrow> Some m
            | None \<Rightarrow>
                (case parse_shell_lc_literal_commands p command of
                   None \<Rightarrow> None | Some commands \<Rightarrow> find_map nested commands)))"
  by (simp add: dangerous_command_match_with_depth_def Suc_diff_le Let_def)

section \<open>Git commands\<close>

definition is_git_global_option_with_value :: "ustring \<Rightarrow> bool" where
  "is_git_global_option_with_value arg \<longleftrightarrow>
     arg \<in> set [str ''-C'', str ''-c'', str ''--config-env'', str ''--exec-path'', str ''--git-dir'',
                str ''--namespace'', str ''--super-prefix'', str ''--work-tree'']"

definition is_git_global_option_with_inline_value :: "ustring \<Rightarrow> bool" where
  "is_git_global_option_with_inline_value arg \<longleftrightarrow>
     prefix (str ''--config-env='') arg \<or> prefix (str ''--exec-path='') arg \<or> prefix (str ''--git-dir='') arg
     \<or> prefix (str ''--namespace='') arg \<or> prefix (str ''--super-prefix='') arg \<or> prefix (str ''--work-tree='') arg
     \<or> ((prefix (str ''-C'') arg \<or> prefix (str ''-c'') arg) \<and> byte_len arg > 2)"

fun git_scan :: "nat \<Rightarrow> bool \<Rightarrow> ustring list \<Rightarrow> ustring list \<Rightarrow> (nat \<times> ustring) option" where
  "git_scan idx skip_next subcommands [] = None"
| "git_scan idx skip_next subcommands (arg # rest) =
     (if skip_next then git_scan (Suc idx) False subcommands rest
      else if is_git_global_option_with_inline_value arg then git_scan (Suc idx) False subcommands rest
      else if is_git_global_option_with_value arg then git_scan (Suc idx) True subcommands rest
      else if arg = str ''--'' \<or> prefix (str ''-'') arg then git_scan (Suc idx) False subcommands rest
      else if arg \<in> set subcommands then Some (idx, arg)
      else None)"

definition find_git_subcommand :: "ustring list \<Rightarrow> ustring list \<Rightarrow> (nat \<times> ustring) option" where
  "find_git_subcommand command subcommands =
     (case first_opt command of
        None \<Rightarrow> None
      | Some cmd0 \<Rightarrow>
          if executable_name_lookup_key cmd0 \<noteq> Some (str ''git'') then None
          else git_scan 1 False subcommands (tl command))"

datatype GitOptionPattern = Exact ustring | ShortWithInlineValue ustring | Prefix ustring

definition UNSAFE_GIT_GLOBAL_OPTIONS :: "GitOptionPattern list" where
  "UNSAFE_GIT_GLOBAL_OPTIONS =
     [Exact (str ''-C''), ShortWithInlineValue (str ''-C''), Exact (str ''-c''),
      ShortWithInlineValue (str ''-c''), Exact (str ''-p''),
      Exact (str ''--config-env''), Prefix (str ''--config-env=''),
      Exact (str ''--exec-path''), Prefix (str ''--exec-path=''),
      Exact (str ''--git-dir''), Prefix (str ''--git-dir=''),
      Exact (str ''--namespace''), Prefix (str ''--namespace=''), Exact (str ''--paginate''),
      Exact (str ''--super-prefix''), Prefix (str ''--super-prefix=''),
      Exact (str ''--work-tree''), Prefix (str ''--work-tree='')]"

definition UNSAFE_GIT_SUBCOMMAND_OPTIONS :: "GitOptionPattern list" where
  "UNSAFE_GIT_SUBCOMMAND_OPTIONS =
     [Exact (str ''--output''), Prefix (str ''--output=''), Exact (str ''--ext-diff''),
      Exact (str ''--textconv''), Exact (str ''--exec''), Prefix (str ''--exec='')]"

primrec option_matches :: "GitOptionPattern \<Rightarrow> ustring \<Rightarrow> bool" where
  "option_matches (Exact opt) arg \<longleftrightarrow> arg = opt"
| "option_matches (ShortWithInlineValue opt) arg \<longleftrightarrow> prefix opt arg \<and> byte_len arg > byte_len opt"
| "option_matches (Prefix pre) arg \<longleftrightarrow> prefix pre arg"

definition git_matches_option_pattern :: "ustring \<Rightarrow> GitOptionPattern list \<Rightarrow> bool" where
  "git_matches_option_pattern arg patterns \<longleftrightarrow> list_ex (\<lambda>pat. option_matches pat arg) patterns"

definition git_has_unsafe_global_option :: "ustring list \<Rightarrow> bool" where
  "git_has_unsafe_global_option global_args \<longleftrightarrow>
     list_ex (\<lambda>arg. git_matches_option_pattern arg UNSAFE_GIT_GLOBAL_OPTIONS) global_args"

definition git_subcommand_args_are_read_only :: "ustring list \<Rightarrow> bool" where
  "git_subcommand_args_are_read_only args \<longleftrightarrow>
     \<not> list_ex (\<lambda>arg. git_matches_option_pattern arg UNSAFE_GIT_SUBCOMMAND_OPTIONS) args"

definition branch_query_flag :: "ustring \<Rightarrow> bool" where
  "branch_query_flag arg \<longleftrightarrow>
     arg \<in> set [str ''--list'', str ''-l'', str ''--show-current'', str ''-a'', str ''--all'', str ''-r'',
                str ''--remotes'', str ''-v'', str ''-vv'', str ''--verbose'']
     \<or> prefix (str ''--format='') arg"

fun branch_flags :: "bool \<Rightarrow> ustring list \<Rightarrow> bool" where
  "branch_flags saw_read_only_flag [] = saw_read_only_flag"
| "branch_flags saw_read_only_flag (arg # rest) = (if branch_query_flag arg then branch_flags True rest else False)"

definition git_branch_is_read_only :: "ustring list \<Rightarrow> bool" where
  "git_branch_is_read_only branch_args = (if branch_args = [] then True else branch_flags False branch_args)"

definition SAFE_GIT_SUBCOMMANDS :: "ustring list" where
  "SAFE_GIT_SUBCOMMANDS = [str ''status'', str ''log'', str ''diff'', str ''show'', str ''branch'']"

definition is_safe_git_command :: "ustring list \<Rightarrow> bool" where
  "is_safe_git_command command =
     (case find_git_subcommand command SAFE_GIT_SUBCOMMANDS of
        None \<Rightarrow> False
      | Some (subcommand_idx, subcommand) \<Rightarrow>
          let global_args = take (subcommand_idx - 1) (drop 1 command);
              subcommand_args = drop (subcommand_idx + 1) command
          in if git_has_unsafe_global_option global_args then False
             else if subcommand \<in> set [str ''status'', str ''log'', str ''diff'', str ''show'']
             then git_subcommand_args_are_read_only subcommand_args
             else if subcommand = str ''branch''
             then git_subcommand_args_are_read_only subcommand_args \<and> git_branch_is_read_only subcommand_args
             else False)"

section \<open>Safe commands\<close>

definition is_valid_sed_n_arg :: "ustring option \<Rightarrow> bool" where
  "is_valid_sed_n_arg arg =
     (case arg of
        None \<Rightarrow> False
      | Some s \<Rightarrow>
          (case strip_suffix (str ''p'') s of
             None \<Rightarrow> False
           | Some core \<Rightarrow>
               (case split_char 44 core of
                  [num] \<Rightarrow> num \<noteq> [] \<and> list_all is_ascii_digit num
                | [a, b] \<Rightarrow> a \<noteq> [] \<and> b \<noteq> [] \<and> list_all is_ascii_digit a \<and> list_all is_ascii_digit b
                | _ \<Rightarrow> False)))"

definition SAFE_NAMES :: "ustring list" where
  "SAFE_NAMES =
     map str [''cat'', ''cd'', ''cut'', ''echo'', ''expr'', ''false'', ''grep'', ''head'', ''id'', ''ls'',
              ''nl'', ''paste'', ''pwd'', ''rev'', ''seq'', ''stat'', ''tail'', ''tr'', ''true'', ''uname'',
              ''uniq'', ''wc'', ''which'', ''whoami'']"

definition safe_base64 :: "ustring list \<Rightarrow> bool" where
  "safe_base64 command \<longleftrightarrow>
     \<not> list_ex (\<lambda>arg. arg \<in> set [str ''-o'', str ''--output''] \<or> prefix (str ''--output='') arg
                   \<or> (prefix (str ''-o'') arg \<and> arg \<noteq> str ''-o'')) (drop 1 command)"

definition UNSAFE_FIND_OPTIONS :: "ustring list" where
  "UNSAFE_FIND_OPTIONS =
     map str [''-exec'', ''-execdir'', ''-ok'', ''-okdir'', ''-delete'', ''-fls'', ''-fprint'', ''-fprint0'', ''-fprintf'']"

definition UNSAFE_RIPGREP_OPTIONS_WITH_ARGS :: "ustring list" where
  "UNSAFE_RIPGREP_OPTIONS_WITH_ARGS = [str ''--pre'', str ''--hostname-bin'']"

definition UNSAFE_RIPGREP_OPTIONS_WITHOUT_ARGS :: "ustring list" where
  "UNSAFE_RIPGREP_OPTIONS_WITHOUT_ARGS = [str ''--search-zip'', str ''-z'']"

definition safe_rg :: "ustring list \<Rightarrow> bool" where
  "safe_rg command \<longleftrightarrow>
     \<not> list_ex (\<lambda>arg. arg \<in> set UNSAFE_RIPGREP_OPTIONS_WITHOUT_ARGS
                   \<or> list_ex (\<lambda>opt. arg = opt \<or> prefix (opt @ str ''='') arg) UNSAFE_RIPGREP_OPTIONS_WITH_ARGS) command"

definition safe_sed :: "ustring list \<Rightarrow> bool" where
  "safe_sed command \<longleftrightarrow>
     length command \<le> 4 \<and> first_opt (drop 1 command) = Some (str ''-n'')
     \<and> is_valid_sed_n_arg (first_opt (drop 2 command))"

definition is_safe_to_call_with_exec :: "bool \<Rightarrow> ustring list \<Rightarrow> bool" where
  "is_safe_to_call_with_exec linux command =
     (case first_opt command of
        None \<Rightarrow> False
      | Some cmd0 \<Rightarrow>
          (case executable_name_lookup_key cmd0 of
             None \<Rightarrow> False
           | Some cmd \<Rightarrow>
               if linux \<and> cmd \<in> set [str ''numfmt'', str ''tac''] then True
               else if cmd \<in> set SAFE_NAMES then True
               else if cmd = str ''base64'' then safe_base64 command
               else if cmd = str ''find'' then \<not> list_ex (\<lambda>arg. arg \<in> set UNSAFE_FIND_OPTIONS) command
               else if cmd = str ''rg'' then safe_rg command
               else if cmd = str ''git'' then is_safe_git_command command
               else if cmd = str ''sed'' \<and> safe_sed command then True
               else False))"

definition is_known_safe_command :: "bool \<Rightarrow> shell_parser \<Rightarrow> ustring list \<Rightarrow> bool" where
  "is_known_safe_command linux p cmd =
     (let command = map (\<lambda>s. if s = str ''zsh'' then str ''bash'' else s) cmd
      in if is_safe_to_call_with_exec linux command then True
         else (case parse_shell_lc_plain_commands p command of
                 None \<Rightarrow> False
               | Some all_commands \<Rightarrow>
                   all_commands \<noteq> [] \<and> list_all (is_safe_to_call_with_exec linux) all_commands))"

section \<open>Safe and dangerous exclude each other\<close>

text \<open>A program whose name has no dot is not taken for a shell unless it is named like one.\<close>

lemma file_name_plain:
  assumes "path_file_name (path_components s) = Some name"
  shows "path_components name = [Normal name]"
proof -
  have "Normal name \<in> set (path_components s)"
    using assms by (auto simp: path_file_name_def split: option.splits path_component.splits dest: last_opt_in)
  then have ok: "component_ok (Normal name)" using wf_path_components [of s] by (auto simp: wf_path_def list_all_iff)
  have "47 \<notin> set name" using file_name_segment [OF assms] split_char_notin by blast
  then show ?thesis
    using ok by (auto simp: path_components_def Let_def split_char_free component_of_def first_opt_eq_Some)
qed

lemma not_shell:
  assumes "executable_name_lookup_key s = Some name" "46 \<notin> set name" "shell_of_name name = None"
  shows "detect_shell_type s = None"
proof -
  have key: "path_file_name (path_components s) = Some name"
    using assms(1) by (simp add: executable_name_lookup_key_def)
  have plain: "path_components name = [Normal name]" using file_name_plain [OF key] .
  have undotted: "rsplit_once 46 name = None"
    using assms(2) by (cases "rsplit_once 46 name") (auto dest: rsplit_once_Some)
  then have stem: "file_stem s = Some name" "file_stem name = Some name"
    using key plain by (simp_all add: file_stem_def path_file_name_def last_opt_def)
  then have "detect_shell_type name = None" using assms(3) by (simp add: detect_shell_type.simps)
  moreover have "shell_of_name s = None"
  proof (rule ccontr)
    assume "shell_of_name s \<noteq> None"
    then have "path_file_name (path_components s) = Some s"
      by (auto simp: shell_of_name_def str_def path_components_def component_of_def path_file_name_def last_opt_def
          split: if_splits)
    then show False using key assms(3) \<open>shell_of_name s \<noteq> None\<close> by simp
  qed
  ultimately show ?thesis using stem(1) by (simp add: detect_shell_type.simps [of s])
qed

definition WRAPPER_NAMES :: "ustring list" where
  "WRAPPER_NAMES = map str [''rm'', ''sudo'', ''env'', ''trap'']"

definition CHECKED_NAMES :: "ustring list" where
  "CHECKED_NAMES = map str [''numfmt'', ''tac'', ''base64'', ''find'', ''rg'', ''git'', ''sed''] @ SAFE_NAMES"

lemma checked_names:
  "list_all (\<lambda>n. 46 \<notin> set n \<and> shell_of_name n = None \<and> n \<notin> set WRAPPER_NAMES) CHECKED_NAMES"
  by code_simp

lemma wrapper_names: "list_all (\<lambda>n. 46 \<notin> set n \<and> shell_of_name n = None) WRAPPER_NAMES"
  by code_simp

lemma safe_exec_name:
  assumes "is_safe_to_call_with_exec linux command"
  obtains cmd0 name args where "command = cmd0 # args" "executable_name_lookup_key cmd0 = Some name"
    "name \<in> set CHECKED_NAMES"
  using assms
  by (auto simp: is_safe_to_call_with_exec_def CHECKED_NAMES_def first_opt_eq_Some split: option.splits if_splits)

lemma for_exec_other:
  assumes "executable_name_lookup_key cmd0 = Some name" "name \<notin> set WRAPPER_NAMES"
  shows "dangerous_command_match_for_exec nested (cmd0 # args) = None"
  using assms by (simp add: dangerous_command_match_for_exec_def WRAPPER_NAMES_def)

lemma not_shell_no_script:
  "detect_shell_type cmd0 = None \<Longrightarrow> parse_shell_lc_literal_commands p (cmd0 # args) = None"
  by (auto simp: parse_shell_lc_literal_commands_def extract_bash_command_def split: list.splits)

lemma checked_not_dangerous:
  assumes "executable_name_lookup_key cmd0 = Some name" "name \<in> set CHECKED_NAMES"
  shows "dangerous_levels p levels (cmd0 # args) = None"
proof (cases levels)
  case (Suc l)
  have "46 \<notin> set name" "shell_of_name name = None" "name \<notin> set WRAPPER_NAMES"
    using checked_names assms(2) by (auto simp: list_all_iff)
  then show ?thesis
    using Suc for_exec_other [OF assms(1)] not_shell_no_script [OF not_shell [OF assms(1)]] by simp
qed simp

lemma shell_not_wrapper:
  assumes "detect_shell_type shell \<noteq> None"
  shows "dangerous_command_match_for_exec nested (shell # args) = None"
proof (cases "executable_name_lookup_key shell")
  case (Some name)
  have "name \<notin> set WRAPPER_NAMES"
    using not_shell [OF Some] wrapper_names assms by (auto simp: list_all_iff)
  then show ?thesis using for_exec_other [OF Some] by simp
qed (simp add: dangerous_command_match_for_exec_def)

lemma zsh_as_bash: "detect_shell_type (str ''zsh'') = Some Zsh"  "detect_shell_type (str ''bash'') = Some Bash"
  by (simp_all add: detect_shell_type.simps shell_of_name_def str_def)

lemma extract_zsh:
  assumes "extract_bash_command (map (\<lambda>s. if s = str ''zsh'' then str ''bash'' else s) command) = Some (shell, script)"
    and "str ''zsh'' \<notin> set (tl command)"
  obtains sh args where "command = sh # args" "detect_shell_type sh \<noteq> None"
    "extract_bash_command command = Some (sh, script)"
proof -
  obtain sh flag where c: "command = [sh, flag, script]" "flag = str ''-lc'' \<or> flag = str ''-c''"
    "sh \<noteq> str ''zsh'' \<Longrightarrow> detect_shell_type sh \<in> {Some Zsh, Some Bash, Some Sh}"
    using assms by (auto simp: extract_bash_command_def split: list.splits if_splits)
  then have "detect_shell_type sh \<in> {Some Zsh, Some Bash, Some Sh}" using zsh_as_bash by (cases "sh = str ''zsh''") auto
  with c(1,2) show thesis by (intro that [of sh]) (auto simp: extract_bash_command_def)
qed

lemma safe_exec_not_dangerous:
  assumes "is_safe_to_call_with_exec linux (cmd0 # args)"
  shows "dangerous_levels p levels (cmd0 # args') = None"
  by (rule safe_exec_name [OF assms]) (auto intro: checked_not_dangerous)

lemma bash_not_safe: "\<not> is_safe_to_call_with_exec linux (str ''bash'' # args)"
proof
  assume "is_safe_to_call_with_exec linux (str ''bash'' # args)"
  then have "detect_shell_type (str ''bash'') = None"
    by (rule safe_exec_name) (use checked_names not_shell in \<open>auto simp: list_all_iff\<close>)
  then show False by (simp add: zsh_as_bash)
qed

lemma safe_script_not_dangerous:
  assumes "parse_shell_lc_plain_commands p (sh # args) = Some cmds"
    "list_all (is_safe_to_call_with_exec linux) cmds" "detect_shell_type sh \<noteq> None" "grammar_ok p"
  shows "dangerous_levels p (Suc levels) (sh # args) = None"
proof -
  have "dangerous_levels p levels vs = None"
    if lits: "parse_shell_lc_literal_commands p (sh # args) = Some lits" "vs \<in> set lits" for lits vs
  proof -
    obtain w ws vs' where w: "w # ws \<in> set cmds" "vs = w # vs'"
      using strict_covers_literal [OF assms(1,4) lits] by blast
    then show ?thesis using assms(2) safe_exec_not_dangerous by (auto simp: list_all_iff)
  qed
  then show ?thesis
    using shell_not_wrapper [OF assms(3)] by (auto simp: find_map_None split: option.splits)
qed

lemma dangerous_at_top: "dangerous_command_match p command = dangerous_levels p (Suc 8) command"
  by (simp add: dangerous_command_match_def dangerous_command_match_with_depth_def
      MAX_DANGEROUS_COMMAND_WRAPPER_DEPTH_def)

lemma safe_excludes_dangerous:
  assumes "grammar_ok p" "str ''zsh'' \<notin> set (tl command)" "is_known_safe_command linux p command"
  shows "dangerous_command_match p command = None"
proof -
  let ?command = "map (\<lambda>s. if s = str ''zsh'' then str ''bash'' else s) command"
  consider "is_safe_to_call_with_exec linux ?command"
    | cmds where "parse_shell_lc_plain_commands p ?command = Some cmds"
      "list_all (is_safe_to_call_with_exec linux) cmds"
    using assms(3) by (auto simp: is_known_safe_command_def Let_def split: if_splits option.splits)
  then show ?thesis
  proof cases
    case 1
    obtain c0 args where c0: "command = c0 # args" using 1 by (cases command) (auto elim: safe_exec_name)
    with 1 bash_not_safe have "is_safe_to_call_with_exec linux (c0 # tl ?command)" by (auto split: if_splits)
    then show ?thesis unfolding dangerous_at_top c0 by (rule safe_exec_not_dangerous)
  next
    case 2
    obtain shell script where ex: "extract_bash_command ?command = Some (shell, script)"
      using 2(1) by (auto simp: parse_shell_lc_plain_commands_def split: option.splits)
    obtain sh args where c: "command = sh # args" "detect_shell_type sh \<noteq> None"
      "extract_bash_command command = Some (sh, script)" by (rule extract_zsh [OF ex assms(2)])
    have "parse_shell_lc_plain_commands p (sh # args) = Some cmds"
      using 2(1) ex c(1,3) by (simp add: parse_shell_lc_plain_commands_def)
    from safe_script_not_dangerous [OF this 2(2) c(2) assms(1)] show ?thesis
      unfolding dangerous_at_top c(1) .
  qed
qed


text \<open>A parser that knows the script \<open>ls\<close>.\<close>

definition ls_parser :: shell_parser where
  "ls_parser script =
     (if script = str ''ls''
      then Some \<lparr>root_node = Node (str ''program'') True 0 (Some (str ''ls''))
                  [Node (str ''command'') True 0 (Some (str ''ls''))
                    [Node (str ''command_name'') True 0 (Some (str ''ls''))
                      [Node (str ''word'') True 0 (Some (str ''ls'')) []]]], has_error = False\<rparr>
      else None)"

lemma ls_parser_grammar: "grammar_ok ls_parser"
  by (auto simp: grammar_ok_def ls_parser_def is_kind_def named_children_def str_def split: if_splits)


section \<open>What is safe\<close>

lemma unsafe_covers_values:
  assumes "\<not> git_matches_option_pattern arg UNSAFE_GIT_GLOBAL_OPTIONS"
  shows "\<not> is_git_global_option_with_value arg"
  using assms
  by (auto simp: git_matches_option_pattern_def UNSAFE_GIT_GLOBAL_OPTIONS_def is_git_global_option_with_value_def)

lemma values_are_options:
  "is_git_global_option_with_inline_value arg \<Longrightarrow> prefix (str ''-'') arg"
  "is_git_global_option_with_value arg \<Longrightarrow> prefix (str ''-'') arg"
  by (auto simp: is_git_global_option_with_inline_value_def is_git_global_option_with_value_def str_def prefix_def)

lemma git_scan_options:
  assumes "list_all (prefix (str ''-'')) opts" "\<not> git_has_unsafe_global_option opts"
  shows "git_scan idx False subs (opts @ rest) = git_scan (idx + length opts) False subs rest"
  using assms
  by (induction opts arbitrary: idx) (auto simp: git_has_unsafe_global_option_def unsafe_covers_values)

lemma git_scan_subcommand:
  "\<not> prefix (str ''-'') sub \<Longrightarrow> git_scan idx False subs (sub # rest) = (if sub \<in> set subs then Some (idx, sub) else None)"
  using values_are_options by (auto simp: str_def)

lemma git_scan_found:
  "git_scan idx False subs args = Some (i, sub) \<Longrightarrow> \<not> git_has_unsafe_global_option (take (i - idx) args) \<Longrightarrow>
   idx \<le> i \<and> list_all (prefix (str ''-'')) (take (i - idx) args) \<and> sub \<in> set subs
   \<and> args = take (i - idx) args @ sub # drop (i - idx + 1) args"
proof (induction args arbitrary: idx)
  case (Cons a args)
  show ?case
  proof (cases "prefix (str ''-'') a")
    case False
    with Cons(2) git_scan_subcommand show ?thesis by (auto split: if_splits)
  next
    case True
    have later: "git_scan (Suc idx) b subs args = Some (i, sub) \<Longrightarrow> Suc idx \<le> i" for b
      by (induction "Suc idx" b subs args arbitrary: idx rule: git_scan.induct) (auto split: if_splits dest: Suc_leD)
    obtain b where b: "git_scan (Suc idx) b subs args = Some (i, sub)"
      using Cons(2) True by (auto split: if_splits)
    then have le: "Suc idx \<le> i" using later by blast
    then have i: "i - idx = Suc (i - Suc idx)" by simp
    have ok: "\<not> is_git_global_option_with_value a" "\<not> git_has_unsafe_global_option (take (i - Suc idx) args)"
      using Cons(3) i by (auto simp: git_has_unsafe_global_option_def unsafe_covers_values)
    then have "git_scan (Suc idx) False subs args = Some (i, sub)"
      using Cons(2) True by (auto split: if_splits)
    from Cons(1) [OF this ok(2)] show ?thesis using i True by auto
  qed
qed simp

lemma branch_flags_all: "branch_flags b args \<longleftrightarrow> list_all branch_query_flag args \<and> (b \<or> args \<noteq> [])"
  by (induction b args rule: branch_flags.induct) auto

lemma git_branch_all: "git_branch_is_read_only args \<longleftrightarrow> list_all branch_query_flag args"
  by (cases args) (auto simp: git_branch_is_read_only_def branch_flags_all)

lemma safe_subcommands_plain: "sub \<in> set SAFE_GIT_SUBCOMMANDS \<Longrightarrow> \<not> prefix (str ''-'') sub"
  by (auto simp: SAFE_GIT_SUBCOMMANDS_def str_def)

lemma find_git_subcommand_shape:
  "find_git_subcommand command subs = Some (i, sub) \<and> \<not> git_has_unsafe_global_option (take (i - 1) (drop 1 command)) \<Longrightarrow>
   \<exists>git opts args. command = git # opts @ sub # args \<and> i = Suc (length opts)
     \<and> executable_name_lookup_key git = Some (str ''git'') \<and> sub \<in> set subs \<and> list_all (prefix (str ''-'')) opts"
proof (elim conjE)
  assume found: "find_git_subcommand command subs = Some (i, sub)"
    and safe: "\<not> git_has_unsafe_global_option (take (i - 1) (drop 1 command))"
  obtain git rest where c: "command = git # rest" "executable_name_lookup_key git = Some (str ''git'')"
    "git_scan 1 False subs rest = Some (i, sub)"
    using found by (auto simp: find_git_subcommand_def first_opt_eq_Some split: option.splits if_splits)
  have drop_1_tail: "drop 1 (git # rest) = rest" by simp
  define opts args where "opts = take (i - 1) rest" and "args = drop (i - 1 + 1) rest"
  have shape: "1 \<le> i" "list_all (prefix (str ''-'')) opts" "sub \<in> set subs" "rest = opts @ sub # args"
    using git_scan_found [OF c(3)] safe unfolding opts_def args_def c(1) drop_1_tail by blast+
  have "length rest = length opts + 1 + length args" using shape(4) by simp
  then have "i = Suc (length opts)" using shape(1) unfolding opts_def args_def by (simp split: nat_diff_split_asm)
  with c(1,2) shape show ?thesis by blast
qed

lemma find_git_subcommand_options:
  assumes "executable_name_lookup_key git = Some (str ''git'')" "sub \<in> set SAFE_GIT_SUBCOMMANDS"
    "list_all (prefix (str ''-'')) opts" "\<not> git_has_unsafe_global_option opts"
  shows "find_git_subcommand (git # opts @ sub # args) SAFE_GIT_SUBCOMMANDS = Some (Suc (length opts), sub)"
  using assms safe_subcommands_plain [OF assms(2)]
  by (simp add: find_git_subcommand_def git_scan_options git_scan_subcommand del: git_scan.simps)

text \<open>
  C32: A git command is safe exactly when it has this form: the program, options that start with a dash
  and are none of the unsafe global ones, one of the five subcommands, and arguments without an unsafe
  option, which for \<open>branch\<close> are all query flags. The subcommand is thus the first word that is no
  option: no option takes the word after it as its value.
\<close>

theorem safe_git_shape:
  "is_safe_git_command command \<longleftrightarrow>
     (\<exists>git opts sub args. command = git # opts @ sub # args
        \<and> executable_name_lookup_key git = Some (str ''git'')
        \<and> list_all (\<lambda>opt. prefix (str ''-'') opt \<and> \<not> is_git_global_option_with_value opt
                       \<and> \<not> git_matches_option_pattern opt UNSAFE_GIT_GLOBAL_OPTIONS) opts
        \<and> sub \<in> set SAFE_GIT_SUBCOMMANDS
        \<and> list_all (\<lambda>arg. \<not> git_matches_option_pattern arg UNSAFE_GIT_SUBCOMMAND_OPTIONS) args
        \<and> \<not> (sub = str ''branch'' \<and> list_ex (\<lambda>arg. \<not> branch_query_flag arg) args))"
  (is "?safe = ?shape")
proof
  assume ?safe
  then obtain i sub where found: "find_git_subcommand command SAFE_GIT_SUBCOMMANDS = Some (i, sub)"
    "\<not> git_has_unsafe_global_option (take (i - 1) (drop 1 command))"
    and args: "git_subcommand_args_are_read_only (drop (i + 1) command)"
      "sub = str ''branch'' \<Longrightarrow> git_branch_is_read_only (drop (i + 1) command)"
    by (auto simp: is_safe_git_command_def Let_def str_def split: option.splits if_splits)
  obtain git opts args where "command = git # opts @ sub # args" "i = Suc (length opts)"
    "executable_name_lookup_key git = Some (str ''git'')" "sub \<in> set SAFE_GIT_SUBCOMMANDS"
    "list_all (prefix (str ''-'')) opts"
    using find_git_subcommand_shape found by blast
  with args found(2) show ?shape
    by (intro exI [of _ git] exI [of _ opts] exI [of _ sub] exI [of _ args])
      (auto simp: git_subcommand_args_are_read_only_def git_has_unsafe_global_option_def git_branch_all
        list_all_iff list_ex_iff unsafe_covers_values)
next
  assume ?shape
  then obtain git opts sub args where c: "command = git # opts @ sub # args"
    "executable_name_lookup_key git = Some (str ''git'')" "sub \<in> set SAFE_GIT_SUBCOMMANDS"
    "list_all (prefix (str ''-'')) opts" "\<not> git_has_unsafe_global_option opts"
    "git_subcommand_args_are_read_only args" "sub = str ''branch'' \<Longrightarrow> git_branch_is_read_only args"
    by (auto simp: git_subcommand_args_are_read_only_def git_has_unsafe_global_option_def git_branch_all
        list_all_iff list_ex_iff)
  have "find_git_subcommand command SAFE_GIT_SUBCOMMANDS = Some (Suc (length opts), sub)"
    unfolding c(1) by (rule find_git_subcommand_options [OF c(2-5)])
  moreover have "take (length opts) (drop 1 command) = opts" "drop (Suc (length opts) + 1) command = args"
    using c(1) by simp_all
  moreover have "sub \<in> {str ''status'', str ''log'', str ''diff'', str ''show'', str ''branch''}"
    using c(3) by (simp add: SAFE_GIT_SUBCOMMANDS_def)
  ultimately show ?safe
    using c(5-7) by (auto simp: is_safe_git_command_def)
qed

text \<open>A safe sed address matches \<open>/^(\d+,)?\d+p$/\<close>, as the comment on the function says.\<close>

definition digits :: "ustring \<Rightarrow> bool" where
  "digits w \<longleftrightarrow> w \<noteq> [] \<and> list_all is_ascii_digit w"

lemma digits_no_comma: "digits w \<Longrightarrow> 44 \<notin> set w"
  by (auto simp: digits_def list_all_iff is_ascii_digit_def)

lemma split_one: "split_char c s = [a] \<Longrightarrow> s = a"
  using join_split_char [of c s] by simp

lemma split_two: "split_char c s = [a, b] \<Longrightarrow> s = a @ c # b"
  using join_split_char [of c s] by simp

lemma sed_core:
  "(case split_char 44 core of [n] \<Rightarrow> digits n | [m, n] \<Rightarrow> digits m \<and> digits n | _ \<Rightarrow> False) \<longleftrightarrow>
     digits core \<or> (\<exists>m n. digits m \<and> digits n \<and> core = m @ 44 # n)"
proof
  assume "case split_char 44 core of [n] \<Rightarrow> digits n | [m, n] \<Rightarrow> digits m \<and> digits n | _ \<Rightarrow> False"
  then show "digits core \<or> (\<exists>m n. digits m \<and> digits n \<and> core = m @ 44 # n)"
    by (auto split: list.splits dest: split_one split_two)
next
  assume "digits core \<or> (\<exists>m n. digits m \<and> digits n \<and> core = m @ 44 # n)"
  then show "case split_char 44 core of [n] \<Rightarrow> digits n | [m, n] \<Rightarrow> digits m \<and> digits n | _ \<Rightarrow> False"
    by (auto simp: split_char_append split_char_free digits_no_comma)
qed

theorem sed_address_language:
  "is_valid_sed_n_arg (Some s) \<longleftrightarrow>
     (\<exists>n. digits n \<and> s = n @ str ''p'') \<or> (\<exists>m n. digits m \<and> digits n \<and> s = m @ str '','' @ n @ str ''p'')"
proof -
  have "is_valid_sed_n_arg (Some s) \<longleftrightarrow>
    (\<exists>core. s = core @ str ''p'' \<and>
       (case split_char 44 core of [n] \<Rightarrow> digits n | [m, n] \<Rightarrow> digits m \<and> digits n | _ \<Rightarrow> False))"
  proof (cases "strip_suffix (str ''p'') s")
    case None
    then have "s \<noteq> core @ str ''p''" for core using strip_suffix_Some [of "str ''p''" s core] by simp
    with None show ?thesis by (simp add: is_valid_sed_n_arg_def)
  next
    case (Some core)
    then have "s = core @ str ''p''" by (simp add: strip_suffix_Some)
    with Some show ?thesis by (auto simp: is_valid_sed_n_arg_def digits_def split: list.splits)
  qed
  moreover have "str '','' = [44]" by (simp add: str_def)
  ultimately show ?thesis unfolding sed_core by fastforce
qed

section \<open>Wrappers\<close>

lemma str_inject: "str s = str t \<longleftrightarrow> s = t"
  unfolding str_def by (rule inj_map_eq_map) (simp add: inj_of_char)

lemma str_names:
  "executable_name_lookup_key (str ''sudo'') = Some (str ''sudo'')"
  "executable_name_lookup_key (str ''rm'') = Some (str ''rm'')"
  "executable_name_lookup_key (str ''rg'') = Some (str ''rg'')"
  by (simp_all add: executable_name_lookup_key_def path_components_def component_of_def path_file_name_def
      last_opt_def str_def)

lemma sudo_level: "dangerous_levels p (Suc levels) (str ''sudo'' # command) = dangerous_levels p levels command"
proof -
  have "detect_shell_type (str ''sudo'') = None"
    by (rule not_shell [OF str_names(1)]) (simp_all add: shell_of_name_def str_def)
  then have "dangerous_levels p (Suc levels) (str ''sudo'' # command) =
    (case dangerous_levels p levels command of Some m \<Rightarrow> Some m | None \<Rightarrow> None)"
    using not_shell_no_script [of "str ''sudo''" p command]
    by (simp add: dangerous_command_match_for_exec_def str_names str_inject split: option.splits)
  then show ?thesis by (simp split: option.splits)
qed

lemma sudo_levels:
  "dangerous_levels p levels (replicate n (str ''sudo'') @ command) = dangerous_levels p (levels - n) command"
proof (induction n arbitrary: levels)
  case (Suc n)
  then show ?case by (cases levels) (simp_all add: sudo_level del: dangerous_levels.simps(2))
qed simp

text \<open>
  A forced removal behind any number of \<open>sudo\<close> is flagged up to a nesting of eight, the bound of
  the recursion; deeper nesting is not looked into and counts as harmless.
\<close>

theorem sudo_nesting:
  "dangerous_command_match p (replicate n (str ''sudo'') @ [str ''rm'', str ''-rf'', target]) =
     (if n \<le> MAX_DANGEROUS_COMMAND_WRAPPER_DEPTH then Some ForcedRm else None)"
proof -
  have "rm_args_include_force_option [str ''-rf'', target]"
    by (simp add: rm_args_include_force_option_def str_def strip_prefix_def)
  then have "dangerous_levels p (Suc l) [str ''rm'', str ''-rf'', target] = Some ForcedRm" for l
    by (simp add: dangerous_command_match_for_exec_def str_names)
  moreover have "Suc 8 - n = (if n \<le> 8 then Suc (8 - n) else 0)" by arith
  ultimately show ?thesis
    unfolding dangerous_at_top sudo_levels MAX_DANGEROUS_COMMAND_WRAPPER_DEPTH_def
    by (simp only: dangerous_levels.simps(1) split: if_split) simp
qed

text \<open>The options of \<open>sudo\<close> itself, and clusters of short options.\<close>

lemma option_components: "47 \<notin> set flags \<Longrightarrow> path_components (45 # flags) = [Normal (45 # flags)]"
  by (simp add: path_components_def Let_def split_char_free component_of_def str_def del: split_char.simps)

lemma option_not_shell: "47 \<notin> set flags \<Longrightarrow> detect_shell_type (45 # flags) = None"
proof (induction "length flags" arbitrary: flags rule: less_induct)
  case less
  have components: "path_components (45 # flags) = [Normal (45 # flags)]" using less(2) by (rule option_components)
  obtain stem where stem: "file_stem (45 # flags) = Some (45 # stem)" "47 \<notin> set stem"
  proof (cases "rsplit_once 46 (45 # flags)")
    case (Some ab)
    obtain a b where ab: "ab = (a, b)" by (cases ab)
    have "45 # flags = a @ 46 # b" using rsplit_once_Some Some ab by blast
    then obtain a' where "a = 45 # a'" "flags = a' @ 46 # b" by (cases a) auto
    with Some ab components less(2) show thesis
      by (intro that [of a']) (auto simp: file_stem_def path_file_name_def last_opt_def)
  qed (use components less(2) in \<open>intro that [of flags]; simp add: file_stem_def path_file_name_def last_opt_def\<close>)
  have "detect_shell_type (45 # stem) = None" if "path_components (45 # stem) \<noteq> path_components (45 # flags)"
    using file_stem_shorter [OF stem(1) that] stem(2) by (intro less(1)) simp_all
  moreover have "shell_of_name (45 # flags) = None" by (simp add: shell_of_name_def str_def)
  ultimately show ?case using stem(1) by (simp add: detect_shell_type.simps [of "45 # flags"])
qed



text \<open>
  The flag \<open>-z\<close> of ripgrep is refused on its own and accepted in a cluster: two or more short flags
  written together are compared with no unsafe option.
\<close>

theorem rg_flag_clusters:
  assumes "f \<noteq> 45" "length flags \<ge> 1"
  shows "is_known_safe_command linux p [str ''rg'', 45 # f # flags] \<and> \<not> is_safe_to_call_with_exec linux [str ''rg'', str ''-z'']"
proof -
  have "executable_name_lookup_key (str ''rg'') = Some (str ''rg'')" by (rule str_names)
  moreover have "safe_rg [str ''rg'', 45 # f # flags]" "\<not> safe_rg [str ''rg'', str ''-z'']"
    using assms by (auto simp: safe_rg_def UNSAFE_RIPGREP_OPTIONS_WITH_ARGS_def UNSAFE_RIPGREP_OPTIONS_WITHOUT_ARGS_def str_def)
  ultimately have "is_safe_to_call_with_exec linux [str ''rg'', 45 # f # flags]"
    "\<not> is_safe_to_call_with_exec linux [str ''rg'', str ''-z'']"
    by (simp_all add: is_safe_to_call_with_exec_def SAFE_NAMES_def str_inject)
  then show ?thesis by (simp add: is_known_safe_command_def str_inject) (simp add: str_def)
qed

end
