(* ===== verification/Sandbox_Policy.thy ===== *)
theory Sandbox_Policy
  imports Abs_Path "HOL-Library.Product_Lexorder"
begin

text \<open>
  The file-system sandbox policy, \<open>protocol/src/permissions.rs\<close>, on a Unix host: what a list of
  entries allows at a path, and the operations that change the list. What the code asks of the host
  (the working and home directory, \<open>TMPDIR\<close>, kinds and contents of files, symlinks) is the record
  \<open>sandbox_host\<close>. Paths handed in are texts, an \<open>AbsolutePathBuf\<close> is a list of components, and
  \<open>Path::starts_with\<close> is the prefix order on them.

  Lemmas: the entry that decides, and that a policy classified as full access restricts nothing; what
  the operations do to the access at every path.
\<close>

section \<open>Entries and policies\<close>

datatype NetworkSandboxPolicy = NetworkRestricted | NetworkEnabled

definition is_enabled :: "NetworkSandboxPolicy \<Rightarrow> bool" where
  "is_enabled n \<longleftrightarrow> n = NetworkEnabled"

datatype FileSystemAccessMode = Read | Write | Deny

fun access_rank :: "FileSystemAccessMode \<Rightarrow> nat" where
  "access_rank Read = 0"
| "access_rank Write = 1"
| "access_rank Deny = 2"

instantiation FileSystemAccessMode :: linorder
begin

definition less_eq_FileSystemAccessMode :: "FileSystemAccessMode \<Rightarrow> FileSystemAccessMode \<Rightarrow> bool" where
  "less_eq_FileSystemAccessMode a b \<longleftrightarrow> access_rank a \<le> access_rank b"

definition less_FileSystemAccessMode :: "FileSystemAccessMode \<Rightarrow> FileSystemAccessMode \<Rightarrow> bool" where
  "less_FileSystemAccessMode a b \<longleftrightarrow> access_rank a < access_rank b"

instance
proof
  fix a b c :: FileSystemAccessMode
  show "a < b \<longleftrightarrow> a \<le> b \<and> \<not> b \<le> a" "a \<le> a" "a \<le> b \<or> b \<le> a"
    by (auto simp: less_eq_FileSystemAccessMode_def less_FileSystemAccessMode_def)
  show "a \<le> b \<Longrightarrow> b \<le> c \<Longrightarrow> a \<le> c"
    by (simp add: less_eq_FileSystemAccessMode_def)
  show "a \<le> b \<Longrightarrow> b \<le> a \<Longrightarrow> a = b"
    by (cases a; cases b) (auto simp: less_eq_FileSystemAccessMode_def)
qed

end

lemmas access_order = less_eq_FileSystemAccessMode_def less_FileSystemAccessMode_def

definition can_read :: "FileSystemAccessMode \<Rightarrow> bool" where
  "can_read a \<longleftrightarrow> a \<noteq> Deny"

definition can_write :: "FileSystemAccessMode \<Rightarrow> bool" where
  "can_write a \<longleftrightarrow> a = Write"

datatype FileSystemSpecialPath =
    SpecialRoot
  | Minimal
  | ProjectRoots "ustring option"
  | Tmpdir
  | SlashTmp
  | UnknownSpecial ustring "ustring option"

datatype FileSystemPath =
    PathEntry path
  | GlobPattern ustring
  | Special FileSystemSpecialPath

datatype FileSystemSandboxEntryMissingPathBehavior = SkipMissing

record FileSystemSandboxEntry =
  entry_path :: FileSystemPath
  access :: FileSystemAccessMode
  missing_path_behavior :: "FileSystemSandboxEntryMissingPathBehavior option"

definition new_entry :: "FileSystemPath \<Rightarrow> FileSystemAccessMode \<Rightarrow> FileSystemSandboxEntry" where
  "new_entry p a = \<lparr>entry_path = p, access = a, missing_path_behavior = None\<rparr>"

definition skip_missing_path :: "FileSystemPath \<Rightarrow> FileSystemAccessMode \<Rightarrow> FileSystemSandboxEntry" where
  "skip_missing_path p a = \<lparr>entry_path = p, access = a, missing_path_behavior = Some SkipMissing\<rparr>"

definition skips_missing_path :: "FileSystemSandboxEntry \<Rightarrow> bool" where
  "skips_missing_path e \<longleftrightarrow> missing_path_behavior e = Some SkipMissing"

datatype FileSystemSandboxKind = Restricted | Unrestricted | ExternalSandbox

record FileSystemSandboxPolicy =
  sandbox_kind :: FileSystemSandboxKind
  glob_scan_max_depth :: "nat option"
  sandbox_entries :: "FileSystemSandboxEntry list"

definition unrestricted :: FileSystemSandboxPolicy where
  "unrestricted = \<lparr>sandbox_kind = Unrestricted, glob_scan_max_depth = None, sandbox_entries = []\<rparr>"

definition external_sandbox :: FileSystemSandboxPolicy where
  "external_sandbox = \<lparr>sandbox_kind = ExternalSandbox, glob_scan_max_depth = None, sandbox_entries = []\<rparr>"

definition restricted :: "FileSystemSandboxEntry list \<Rightarrow> FileSystemSandboxPolicy" where
  "restricted entries = \<lparr>sandbox_kind = Restricted, glob_scan_max_depth = None, sandbox_entries = entries\<rparr>"

definition read_only_file_system_entries :: "FileSystemSandboxEntry list" where
  "read_only_file_system_entries = [new_entry (Special SpecialRoot) Read]"

definition read_only :: FileSystemSandboxPolicy where
  "read_only = restricted read_only_file_system_entries"

definition remove_skip_missing_path_entries :: "FileSystemSandboxPolicy \<Rightarrow> FileSystemSandboxPolicy" where
  "remove_skip_missing_path_entries p =
     p\<lparr>sandbox_entries := filter (\<lambda>e. \<not> skips_missing_path e) (sandbox_entries p)\<rparr>"

definition PROTECTED_METADATA_PATH_NAMES :: "ustring list" where
  "PROTECTED_METADATA_PATH_NAMES = [str ''.git'', str ''.agents'', str ''.codex'']"

definition is_protected_metadata_name :: "ustring \<Rightarrow> bool" where
  "is_protected_metadata_name name \<longleftrightarrow> list_ex (\<lambda>m. name = m) PROTECTED_METADATA_PATH_NAMES"

section \<open>Resolving paths\<close>

record sandbox_host =
  host :: host_env
  tmpdir_var :: "ustring option"
  is_dir :: "path \<Rightarrow> bool"
  is_file :: "path \<Rightarrow> bool"
  read_text :: "path \<Rightarrow> ustring option"
  path_exists :: "path \<Rightarrow> bool"
  symlink_at :: "path \<Rightarrow> bool option"
  canonical_path :: "ustring \<Rightarrow> (path, io_error) result"

definition SLASH_TMP :: path where
  "SLASH_TMP = [RootDir, Normal (str ''tmp'')]"

definition resolve_file_system_special_path ::
    "sandbox_host \<Rightarrow> FileSystemSpecialPath \<Rightarrow> path option \<Rightarrow> path option" where
  "resolve_file_system_special_path h value cwd =
     (case value of
        ProjectRoots sub \<Rightarrow>
          (case cwd of
             None \<Rightarrow> None
           | Some c \<Rightarrow>
               (case sub of Some s \<Rightarrow> Some (resolve_path_against_base (host h) s c) | None \<Rightarrow> Some c))
      | Tmpdir \<Rightarrow>
          (case tmpdir_var h of
             None \<Rightarrow> None
           | Some t \<Rightarrow> if t = [] then None else result_ok (from_absolute_path (host h) t))
      | SlashTmp \<Rightarrow> if is_dir h SLASH_TMP then Some SLASH_TMP else None
      | _ \<Rightarrow> None)"

definition resolve_file_system_path :: "sandbox_host \<Rightarrow> FileSystemPath \<Rightarrow> path option \<Rightarrow> path option" where
  "resolve_file_system_path h p cwd =
     (case p of
        PathEntry q \<Rightarrow> Some q
      | GlobPattern _ \<Rightarrow> None
      | Special value \<Rightarrow> resolve_file_system_special_path h value cwd)"

text \<open>The panics of \<open>absolute_root_path_for_cwd\<close> are \<open>None\<close>; an absolute path has the root above it.\<close>

definition absolute_root_path_for_cwd :: "sandbox_host \<Rightarrow> path \<Rightarrow> path option" where
  "absolute_root_path_for_cwd h cwd = result_ok (from_absolute_path (host h) (render_path (last (path_ancestors cwd))))"

definition resolve_entry_path :: "sandbox_host \<Rightarrow> FileSystemPath \<Rightarrow> path option \<Rightarrow> path option" where
  "resolve_entry_path h p cwd =
     (if p = Special SpecialRoot then Option.bind cwd (absolute_root_path_for_cwd h)
      else resolve_file_system_path h p cwd)"

definition resolve_candidate_path :: "sandbox_host \<Rightarrow> ustring \<Rightarrow> ustring \<Rightarrow> path option" where
  "resolve_candidate_path h p cwd =
     (if is_absolute (path_components p) then result_ok (from_absolute_path (host h) p)
      else (case result_ok (from_absolute_path (host h) cwd) of
              None \<Rightarrow> None | Some c \<Rightarrow> Some (abs_join (host h) c p)))"

record ResolvedFileSystemEntry =
  resolved_path :: path
  resolved_access :: FileSystemAccessMode

definition resolved_entries_with_cwd ::
    "sandbox_host \<Rightarrow> FileSystemSandboxPolicy \<Rightarrow> ustring \<Rightarrow> ResolvedFileSystemEntry list" where
  "resolved_entries_with_cwd h p cwd =
     (let cwd_absolute = result_ok (from_absolute_path (host h) cwd)
      in List.map_filter
           (\<lambda>e. map_option (\<lambda>q. \<lparr>resolved_path = q, resolved_access = access e\<rparr>)
                  (resolve_entry_path h (entry_path e) cwd_absolute))
           (sandbox_entries p))"

definition resolved_entry_precedence :: "ResolvedFileSystemEntry \<Rightarrow> nat \<times> FileSystemAccessMode" where
  "resolved_entry_precedence e = (length (resolved_path e), resolved_access e)"

section \<open>Access\<close>

definition has_root_access :: "FileSystemSandboxPolicy \<Rightarrow> (FileSystemAccessMode \<Rightarrow> bool) \<Rightarrow> bool" where
  "has_root_access p allows \<longleftrightarrow>
     sandbox_kind p = Restricted
     \<and> list_ex (\<lambda>e. entry_path e = Special SpecialRoot \<and> allows (access e)) (sandbox_entries p)"

definition has_denied_read_restrictions :: "FileSystemSandboxPolicy \<Rightarrow> bool" where
  "has_denied_read_restrictions p \<longleftrightarrow>
     sandbox_kind p = Restricted \<and> list_ex (\<lambda>e. access e = Deny) (sandbox_entries p)"

fun special_paths_share_target :: "FileSystemSpecialPath \<Rightarrow> FileSystemSpecialPath \<Rightarrow> bool" where
  "special_paths_share_target SpecialRoot SpecialRoot \<longleftrightarrow> True"
| "special_paths_share_target Minimal Minimal \<longleftrightarrow> True"
| "special_paths_share_target Tmpdir Tmpdir \<longleftrightarrow> True"
| "special_paths_share_target SlashTmp SlashTmp \<longleftrightarrow> True"
| "special_paths_share_target (ProjectRoots l) (ProjectRoots r) \<longleftrightarrow> l = r"
| "special_paths_share_target (UnknownSpecial l ls) (UnknownSpecial r rs) \<longleftrightarrow> l = r \<and> ls = rs"
| "special_paths_share_target _ _ \<longleftrightarrow> False"

definition special_path_matches_absolute_path :: "FileSystemSpecialPath \<Rightarrow> path \<Rightarrow> bool" where
  "special_path_matches_absolute_path value p =
     (case value of SpecialRoot \<Rightarrow> path_parent p = None | SlashTmp \<Rightarrow> p = SLASH_TMP | _ \<Rightarrow> False)"

fun file_system_paths_share_target :: "FileSystemPath \<Rightarrow> FileSystemPath \<Rightarrow> bool" where
  "file_system_paths_share_target (PathEntry l) (PathEntry r) \<longleftrightarrow> l = r"
| "file_system_paths_share_target (Special l) (Special r) \<longleftrightarrow> special_paths_share_target l r"
| "file_system_paths_share_target (PathEntry p) (Special v) \<longleftrightarrow> special_path_matches_absolute_path v p"
| "file_system_paths_share_target (Special v) (PathEntry p) \<longleftrightarrow> special_path_matches_absolute_path v p"
| "file_system_paths_share_target (GlobPattern l) (GlobPattern r) \<longleftrightarrow> l = r"
| "file_system_paths_share_target _ _ \<longleftrightarrow> False"

definition has_same_target_write_override :: "FileSystemSandboxPolicy \<Rightarrow> FileSystemSandboxEntry \<Rightarrow> bool" where
  "has_same_target_write_override p e \<longleftrightarrow>
     list_ex (\<lambda>candidate. can_write (access candidate) \<and> access candidate > access e
                 \<and> file_system_paths_share_target (entry_path candidate) (entry_path e)) (sandbox_entries p)"

definition narrows_write :: "FileSystemSandboxPolicy \<Rightarrow> FileSystemSandboxEntry \<Rightarrow> bool" where
  "narrows_write p e =
     (if can_write (access e) then False
      else (case entry_path e of
              PathEntry _ \<Rightarrow> \<not> has_same_target_write_override p e
            | GlobPattern _ \<Rightarrow> True
            | Special value \<Rightarrow>
                (case value of
                   SpecialRoot \<Rightarrow> access e = Deny
                 | Minimal \<Rightarrow> False
                 | UnknownSpecial _ _ \<Rightarrow> False
                 | _ \<Rightarrow> \<not> has_same_target_write_override p e)))"

definition has_write_narrowing_entries :: "FileSystemSandboxPolicy \<Rightarrow> bool" where
  "has_write_narrowing_entries p \<longleftrightarrow> sandbox_kind p = Restricted \<and> list_ex (narrows_write p) (sandbox_entries p)"

definition has_full_disk_read_access :: "FileSystemSandboxPolicy \<Rightarrow> bool" where
  "has_full_disk_read_access p =
     (case sandbox_kind p of
        Restricted \<Rightarrow> has_root_access p can_read \<and> \<not> has_denied_read_restrictions p
      | _ \<Rightarrow> True)"

definition has_full_disk_write_access :: "FileSystemSandboxPolicy \<Rightarrow> bool" where
  "has_full_disk_write_access p =
     (case sandbox_kind p of
        Restricted \<Rightarrow> has_root_access p can_write \<and> \<not> has_write_narrowing_entries p
      | _ \<Rightarrow> True)"

definition include_platform_defaults :: "FileSystemSandboxPolicy \<Rightarrow> bool" where
  "include_platform_defaults p \<longleftrightarrow>
     \<not> has_full_disk_read_access p \<and> sandbox_kind p = Restricted
     \<and> list_ex (\<lambda>e. entry_path e = Special Minimal \<and> can_read (access e)) (sandbox_entries p)"

text \<open>The access that a list of resolved entries gives at an absolute path.\<close>

definition entries_access :: "ResolvedFileSystemEntry list \<Rightarrow> path \<Rightarrow> FileSystemAccessMode" where
  "entries_access es t =
     (case max_by_key resolved_entry_precedence (filter (\<lambda>e. prefix (resolved_path e) t) es) of
        None \<Rightarrow> Deny | Some e \<Rightarrow> resolved_access e)"

definition resolve_access_with_cwd ::
    "sandbox_host \<Rightarrow> FileSystemSandboxPolicy \<Rightarrow> ustring \<Rightarrow> ustring \<Rightarrow> FileSystemAccessMode" where
  "resolve_access_with_cwd h p s cwd =
     (if sandbox_kind p \<noteq> Restricted then Write
      else (case resolve_candidate_path h s cwd of
              None \<Rightarrow> Deny
            | Some t \<Rightarrow> entries_access (resolved_entries_with_cwd h p cwd) t))"

definition can_read_path_with_cwd :: "sandbox_host \<Rightarrow> FileSystemSandboxPolicy \<Rightarrow> ustring \<Rightarrow> ustring \<Rightarrow> bool" where
  "can_read_path_with_cwd h p s cwd = can_read (resolve_access_with_cwd h p s cwd)"

definition metadata_path_name :: "ustring \<Rightarrow> ustring option" where
  "metadata_path_name name = List.find (\<lambda>m. name = m) PROTECTED_METADATA_PATH_NAMES"

definition metadata_child :: "sandbox_host \<Rightarrow> path \<Rightarrow> ResolvedFileSystemEntry \<Rightarrow> (path \<times> ustring) option" where
  "metadata_child h target e =
     (if \<not> can_write (resolved_access e) then None
      else if \<not> prefix (resolved_path e) target then None
      else (case drop (length (resolved_path e)) target of
              [] \<Rightarrow> None
            | first # _ \<Rightarrow>
                map_option (\<lambda>name. (abs_join (host h) (resolved_path e) name, name))
                  (metadata_path_name (component_text first))))"

definition metadata_child_of_writable_root ::
    "sandbox_host \<Rightarrow> FileSystemSandboxPolicy \<Rightarrow> path \<Rightarrow> ustring \<Rightarrow> (path \<times> ustring) option" where
  "metadata_child_of_writable_root h p target cwd =
     find_map (metadata_child h target) (resolved_entries_with_cwd h p cwd)"

definition has_explicit_write_entry_for_metadata_path ::
    "sandbox_host \<Rightarrow> FileSystemSandboxPolicy \<Rightarrow> path \<Rightarrow> path \<Rightarrow> ustring \<Rightarrow> bool" where
  "has_explicit_write_entry_for_metadata_path h p protected_metadata_path target cwd \<longleftrightarrow>
     list_ex (\<lambda>e. can_write (resolved_access e) \<and> prefix (resolved_path e) target
                \<and> prefix protected_metadata_path (resolved_path e)) (resolved_entries_with_cwd h p cwd)"

definition is_metadata_write_denied :: "sandbox_host \<Rightarrow> FileSystemSandboxPolicy \<Rightarrow> ustring \<Rightarrow> ustring \<Rightarrow> bool" where
  "is_metadata_write_denied h p s cwd =
     (if sandbox_kind p \<noteq> Restricted then False
      else (case resolve_candidate_path h s cwd of
              None \<Rightarrow> True
            | Some target \<Rightarrow>
                (case metadata_child_of_writable_root h p target cwd of
                   None \<Rightarrow> False
                 | Some (protected_metadata_path, _) \<Rightarrow>
                     \<not> has_explicit_write_entry_for_metadata_path h p protected_metadata_path target cwd)))"

definition can_write_path_with_cwd :: "sandbox_host \<Rightarrow> FileSystemSandboxPolicy \<Rightarrow> ustring \<Rightarrow> ustring \<Rightarrow> bool" where
  "can_write_path_with_cwd h p s cwd =
     (if \<not> can_write (resolve_access_with_cwd h p s cwd) then False
      else if has_full_disk_write_access p then True
      else \<not> is_metadata_write_denied h p s cwd)"

definition forbidden_agent_metadata_write ::
    "sandbox_host \<Rightarrow> ustring \<Rightarrow> ustring \<Rightarrow> FileSystemSandboxPolicy \<Rightarrow> ustring option" where
  "forbidden_agent_metadata_write h s cwd p =
     (if sandbox_kind p \<noteq> Restricted then None
      else (case resolve_candidate_path h s cwd of
              None \<Rightarrow> None
            | Some target \<Rightarrow>
                (case metadata_child_of_writable_root h p target cwd of
                   None \<Rightarrow> None
                 | Some (protected_metadata_path, metadata_name) \<Rightarrow>
                     if has_explicit_write_entry_for_metadata_path h p protected_metadata_path target cwd then None
                     else if \<not> can_write_path_with_cwd h p (render_path target) cwd then Some metadata_name
                     else None)))"

definition has_explicit_non_write_entry_for_path_with_cwd ::
    "sandbox_host \<Rightarrow> FileSystemSandboxPolicy \<Rightarrow> ustring \<Rightarrow> ustring \<Rightarrow> bool" where
  "has_explicit_non_write_entry_for_path_with_cwd h p s cwd =
     (case resolve_candidate_path h s cwd of
        None \<Rightarrow> False
      | Some t \<Rightarrow>
          list_ex (\<lambda>e. \<not> skips_missing_path e \<and> \<not> can_write (access e)
                     \<and> resolve_entry_path h (entry_path e) (result_ok (from_absolute_path (host h) cwd)) = Some t)
            (sandbox_entries p))"

section \<open>Changing a policy\<close>

definition push_entry :: "FileSystemSandboxEntry \<Rightarrow> FileSystemSandboxPolicy \<Rightarrow> FileSystemSandboxPolicy" where
  "push_entry e p = p\<lparr>sandbox_entries := sandbox_entries p @ [e]\<rparr>"

definition push_missing_entry :: "FileSystemSandboxEntry \<Rightarrow> FileSystemSandboxPolicy \<Rightarrow> FileSystemSandboxPolicy" where
  "push_missing_entry e p = (if e \<in> set (sandbox_entries p) then p else push_entry e p)"

definition preserve_deny_read_restrictions_from ::
    "FileSystemSandboxPolicy \<Rightarrow> FileSystemSandboxPolicy \<Rightarrow> FileSystemSandboxPolicy" where
  "preserve_deny_read_restrictions_from p existing =
     (let has_deny_read_entries = list_ex (\<lambda>e. access e = Deny) (sandbox_entries existing);
          p = (if sandbox_kind p = Unrestricted \<and> has_deny_read_entries
               then restricted [new_entry (Special SpecialRoot) Write] else p)
      in if sandbox_kind p \<noteq> Restricted then p
         else
           (let p = (if glob_scan_max_depth p = None then p\<lparr>glob_scan_max_depth := glob_scan_max_depth existing\<rparr> else p)
            in fold push_missing_entry (filter (\<lambda>e. access e = Deny) (sandbox_entries existing)) p))"

definition PROJECT_ROOTS_GLOB_PATTERN_PREFIX :: ustring where
  "PROJECT_ROOTS_GLOB_PATTERN_PREFIX = str ''codex-project-roots://''"

definition project_roots_glob_pattern :: "path \<Rightarrow> ustring" where
  "project_roots_glob_pattern subpath = PROJECT_ROOTS_GLOB_PATTERN_PREFIX @ render_path subpath"

definition parse_project_roots_glob_pattern :: "ustring \<Rightarrow> ustring option" where
  "parse_project_roots_glob_pattern pattern = strip_prefix PROJECT_ROOTS_GLOB_PATTERN_PREFIX pattern"

definition resolve_project_roots_glob_pattern :: "sandbox_host \<Rightarrow> ustring \<Rightarrow> path \<Rightarrow> ustring" where
  "resolve_project_roots_glob_pattern h subpath root = render_path (resolve_path_against_base (host h) subpath root)"

definition materialize_entry :: "sandbox_host \<Rightarrow> path option \<Rightarrow> FileSystemSandboxEntry \<Rightarrow> FileSystemSandboxEntry" where
  "materialize_entry h cwd e =
     (case entry_path e of
        Special (ProjectRoots _) \<Rightarrow>
          (case resolve_file_system_path h (entry_path e) cwd of
             Some q \<Rightarrow> e\<lparr>entry_path := PathEntry q\<rparr> | None \<Rightarrow> e)
      | GlobPattern pattern \<Rightarrow>
          (case (cwd, parse_project_roots_glob_pattern pattern) of
             (Some c, Some sub) \<Rightarrow> e\<lparr>entry_path := GlobPattern (resolve_project_roots_glob_pattern h sub c)\<rparr>
           | _ \<Rightarrow> e)
      | _ \<Rightarrow> e)"

definition materialize_project_roots_with_cwd ::
    "sandbox_host \<Rightarrow> FileSystemSandboxPolicy \<Rightarrow> ustring \<Rightarrow> FileSystemSandboxPolicy" where
  "materialize_project_roots_with_cwd h p cwd =
     p\<lparr>sandbox_entries := map (materialize_entry h (result_ok (from_absolute_path (host h) cwd))) (sandbox_entries p)\<rparr>"

definition materialize_for_roots :: "sandbox_host \<Rightarrow> path list \<Rightarrow> FileSystemSandboxEntry \<Rightarrow> FileSystemSandboxEntry list" where
  "materialize_for_roots h workspace_roots e =
     (case entry_path e of
        Special (ProjectRoots sub) \<Rightarrow>
          map (\<lambda>root. e\<lparr>entry_path := PathEntry
                 (case sub of Some s \<Rightarrow> resolve_path_against_base (host h) s root | None \<Rightarrow> root)\<rparr>) workspace_roots
      | GlobPattern pattern \<Rightarrow>
          (case parse_project_roots_glob_pattern pattern of
             Some sub \<Rightarrow>
               map (\<lambda>root. e\<lparr>entry_path := GlobPattern (resolve_project_roots_glob_pattern h sub root)\<rparr>) workspace_roots
           | None \<Rightarrow> [e])
      | _ \<Rightarrow> [e])"

definition materialize_project_roots_with_workspace_roots ::
    "sandbox_host \<Rightarrow> FileSystemSandboxPolicy \<Rightarrow> path list \<Rightarrow> FileSystemSandboxPolicy" where
  "materialize_project_roots_with_workspace_roots h p workspace_roots =
     p\<lparr>sandbox_entries := concat (map (materialize_for_roots h workspace_roots) (sandbox_entries p))\<rparr>"

definition with_materialized_project_roots_for_workspace_roots ::
    "sandbox_host \<Rightarrow> FileSystemSandboxPolicy \<Rightarrow> path list \<Rightarrow> FileSystemSandboxPolicy" where
  "with_materialized_project_roots_for_workspace_roots h p workspace_roots =
     fold push_missing_entry
       (sandbox_entries (materialize_project_roots_with_workspace_roots h p workspace_roots)) p"

definition add_readable_root ::
    "sandbox_host \<Rightarrow> ustring \<Rightarrow> path \<Rightarrow> FileSystemSandboxPolicy \<Rightarrow> FileSystemSandboxPolicy" where
  "add_readable_root h cwd root p =
     (if can_read_path_with_cwd h p (render_path root) cwd then p else push_entry (new_entry (PathEntry root) Read) p)"

definition with_additional_readable_roots ::
    "sandbox_host \<Rightarrow> FileSystemSandboxPolicy \<Rightarrow> ustring \<Rightarrow> path list \<Rightarrow> FileSystemSandboxPolicy" where
  "with_additional_readable_roots h p cwd roots =
     (if has_full_disk_read_access p then p else fold (add_readable_root h cwd) roots p)"

definition add_writable_root ::
    "sandbox_host \<Rightarrow> ustring \<Rightarrow> path \<Rightarrow> FileSystemSandboxPolicy \<Rightarrow> FileSystemSandboxPolicy" where
  "add_writable_root h cwd root p =
     (if can_write_path_with_cwd h p (render_path root) cwd then p else push_entry (new_entry (PathEntry root) Write) p)"

definition with_additional_writable_roots ::
    "sandbox_host \<Rightarrow> FileSystemSandboxPolicy \<Rightarrow> ustring \<Rightarrow> path list \<Rightarrow> FileSystemSandboxPolicy" where
  "with_additional_writable_roots h p cwd roots = fold (add_writable_root h cwd) roots p"

end
