(* ===== verification/Sandbox_Access.thy ===== *)
theory Sandbox_Access
  imports Sandbox_Policy
begin

text \<open>
  What the file-system sandbox policy allows: properties of \<open>Sandbox_Policy\<close>. The paths of a policy
  are absolute (\<open>policy_ok\<close>, the invariant of \<open>AbsolutePathBuf\<close>) and the host answers with absolute
  paths (\<open>host_ok\<close>).
\<close>

section \<open>The deciding entry\<close>

definition entry_ok :: "FileSystemSandboxEntry \<Rightarrow> bool" where
  "entry_ok e = (case entry_path e of PathEntry q \<Rightarrow> abs_path q | _ \<Rightarrow> True)"

definition policy_ok :: "FileSystemSandboxPolicy \<Rightarrow> bool" where
  "policy_ok p \<longleftrightarrow> list_all entry_ok (sandbox_entries p)"

definition keys_at :: "ResolvedFileSystemEntry list \<Rightarrow> path \<Rightarrow> (nat \<times> FileSystemAccessMode) set" where
  "keys_at es t = resolved_entry_precedence ` {e \<in> set es. prefix (resolved_path e) t}"

lemma finite_keys_at [simp]: "finite (keys_at es t)"
  by (simp add: keys_at_def)

lemma entries_access_Max: "entries_access es t = (if keys_at es t = {} then Deny else snd (Max (keys_at es t)))"
proof (cases "max_by_key resolved_entry_precedence (filter (\<lambda>e. prefix (resolved_path e) t) es)")
  case None
  then have "keys_at es t = {}" by (auto simp: keys_at_def filter_empty_conv)
  with None show ?thesis unfolding entries_access_def by (simp only: option.case) simp
next
  case (Some e)
  from max_by_key_Some [OF this] have "resolved_entry_precedence e \<in> keys_at es t"
    "\<forall>k \<in> keys_at es t. k \<le> resolved_entry_precedence e" by (auto simp: keys_at_def)
  then have "Max (keys_at es t) = resolved_entry_precedence e" "keys_at es t \<noteq> {}" by (auto intro: Max_eqI)
  with Some show ?thesis by (simp add: entries_access_def resolved_entry_precedence_def)
qed

lemma keys_at_append:
  "keys_at (es @ [x]) t =
     (if prefix (resolved_path x) t then insert (resolved_entry_precedence x) (keys_at es t) else keys_at es t)"
  by (auto simp: keys_at_def)

lemma access_append:
  "entries_access (es @ [x]) t = entries_access es t
   \<or> prefix (resolved_path x) t \<and> entries_access (es @ [x]) t = resolved_access x"
  by (auto simp: entries_access_Max keys_at_append max_def resolved_entry_precedence_def)

lemma access_in_entries:
  assumes "entries_access es t \<noteq> Deny"
  shows "\<exists>e \<in> set es. prefix (resolved_path e) t \<and> resolved_access e = entries_access es t
     \<and> Max (keys_at es t) = resolved_entry_precedence e"
proof -
  have ne: "keys_at es t \<noteq> {}" using assms by (auto simp: entries_access_Max)
  then have "Max (keys_at es t) \<in> keys_at es t" by simp
  then obtain e where "e \<in> set es" "prefix (resolved_path e) t" "Max (keys_at es t) = resolved_entry_precedence e"
    by (auto simp: keys_at_def)
  with ne show ?thesis by (auto simp: entries_access_Max resolved_entry_precedence_def)
qed

lemma prefixes_same_length: "prefix a t \<Longrightarrow> prefix b t \<Longrightarrow> length a = length b \<Longrightarrow> a = b"
  by (metis prefix_def append_eq_append_conv)

lemma prefixes_shorter: "prefix a t \<Longrightarrow> prefix b t \<Longrightarrow> length a \<le> length b \<Longrightarrow> prefix a b"
  by (meson prefix_length_prefix)

lemma access_decided:
  assumes "e \<in> set es" "prefix (resolved_path e) t"
  shows "\<exists>d \<in> set es. prefix (resolved_path d) t \<and> entries_access es t = resolved_access d
    \<and> (\<forall>e \<in> set es. prefix (resolved_path e) t \<longrightarrow>
         length (resolved_path e) < length (resolved_path d)
         \<or> resolved_path e = resolved_path d \<and> resolved_access e \<le> resolved_access d)"
proof -
  have ne: "keys_at es t \<noteq> {}" using assms by (auto simp: keys_at_def)
  then have "Max (keys_at es t) \<in> keys_at es t" by simp
  then obtain d where d: "d \<in> set es" "prefix (resolved_path d) t" "Max (keys_at es t) = resolved_entry_precedence d"
    by (auto simp: keys_at_def)
  have "length (resolved_path e) < length (resolved_path d)
     \<or> resolved_path e = resolved_path d \<and> resolved_access e \<le> resolved_access d"
    if e: "e \<in> set es" "prefix (resolved_path e) t" for e
  proof -
    have "resolved_entry_precedence e \<in> keys_at es t" using e by (auto simp: keys_at_def)
    then have "resolved_entry_precedence e \<le> resolved_entry_precedence d"
      using d(3) Max_ge [OF finite_keys_at] by metis
    then show ?thesis
      using prefixes_same_length [OF e(2) d(2)] by (auto simp: resolved_entry_precedence_def less_eq_prod_def)
  qed
  with d ne show ?thesis by (fastforce simp: entries_access_Max resolved_entry_precedence_def)
qed

text \<open>
  C9: The access at a path is decided by the most specific entry above it. In a restricted policy it is
  \<open>Deny\<close> when no entry is above the path; otherwise it is the access of an entry above the path such that
  every other entry above it is a shorter path, or the same path with an access of lower or equal
  precedence (deny over write over read).
\<close>

theorem access_most_specific:
  assumes "sandbox_kind p = Restricted" "resolve_candidate_path h s cwd = Some t"
  shows "(\<exists>d \<in> set (resolved_entries_with_cwd h p cwd).
            prefix (resolved_path d) t \<and> resolve_access_with_cwd h p s cwd = resolved_access d
            \<and> (\<forall>e \<in> set (resolved_entries_with_cwd h p cwd). prefix (resolved_path e) t \<longrightarrow>
                 length (resolved_path e) < length (resolved_path d)
                 \<or> resolved_path e = resolved_path d \<and> resolved_access e \<le> resolved_access d))
         \<or> resolve_access_with_cwd h p s cwd = Deny
            \<and> (\<forall>e \<in> set (resolved_entries_with_cwd h p cwd). \<not> prefix (resolved_path e) t)"
proof (cases "\<exists>e \<in> set (resolved_entries_with_cwd h p cwd). prefix (resolved_path e) t")
  case True
  then show ?thesis using access_decided assms by (simp add: resolve_access_with_cwd_def) blast
next
  case False
  then have "keys_at (resolved_entries_with_cwd h p cwd) t = {}" by (auto simp: keys_at_def)
  with False assms show ?thesis by (simp add: resolve_access_with_cwd_def entries_access_Max)
qed

section \<open>Resolved entries\<close>

lemma resolved_in:
  "d \<in> set (resolved_entries_with_cwd h p cwd) \<longleftrightarrow>
     (\<exists>e \<in> set (sandbox_entries p). resolved_access d = access e
        \<and> resolve_entry_path h (entry_path e) (result_ok (from_absolute_path (host h) cwd)) = Some (resolved_path d))"
  by (cases d) (auto simp: resolved_entries_with_cwd_def Let_def map_filter_in)

lemma resolved_of:
  assumes "e \<in> set (sandbox_entries p)"
    "resolve_entry_path h (entry_path e) (result_ok (from_absolute_path (host h) cwd)) = Some q"
  shows "\<lparr>resolved_path = q, resolved_access = access e\<rparr> \<in> set (resolved_entries_with_cwd h p cwd)"
  using assms by (auto simp: resolved_in)

lemma resolved_push:
  "resolved_entries_with_cwd h (push_entry (new_entry (PathEntry q) a) p) cwd =
     resolved_entries_with_cwd h p cwd @ [\<lparr>resolved_path = q, resolved_access = a\<rparr>]"
  by (simp add: resolved_entries_with_cwd_def push_entry_def new_entry_def resolve_entry_path_def
      resolve_file_system_path_def Let_def List.map_filter_def)

lemma resolve_path_against_base_abs:
  "host_ok env \<Longrightarrow> abs_path base \<Longrightarrow> abs_path (resolve_path_against_base env s base)"
  unfolding resolve_path_against_base_def
  by (intro absolutize_from_abs wf_expand_home) (auto simp: abs_path_wf abs_path_is_absolute)

lemma root_of_abs: "abs_path c \<Longrightarrow> absolute_root_path_for_cwd h c = Some [RootDir]"
proof -
  assume "abs_path c"
  then have "last (path_ancestors c) = [RootDir]" "abs_path [RootDir]"
    using path_ancestors_abs by (auto simp: abs_path_def)
  then show ?thesis by (simp add: absolute_root_path_for_cwd_def from_absolute_path_render)
qed

lemma resolve_entry_abs:
  assumes "host_ok (host h)" "entry_ok e" "cwd = None \<or> (\<exists>c. cwd = Some c \<and> abs_path c)"
    "resolve_entry_path h (entry_path e) cwd = Some q"
  shows "abs_path q"
proof -
  have root: "abs_path [RootDir]" "abs_path SLASH_TMP" by (simp_all add: abs_path_def SLASH_TMP_def str_def)
  consider "entry_path e = Special SpecialRoot" | r where "entry_path e = PathEntry r"
    | g where "entry_path e = GlobPattern g" | v where "entry_path e = Special v" "v \<noteq> SpecialRoot"
    by (cases "entry_path e") auto
  then show ?thesis
  proof cases
    case 1
    then show ?thesis using assms(3,4) root root_of_abs by (auto simp: resolve_entry_path_def)
  next
    case 2
    then show ?thesis using assms(2,4) by (auto simp: resolve_entry_path_def resolve_file_system_path_def entry_ok_def)
  next
    case 3
    then show ?thesis using assms(4) by (auto simp: resolve_entry_path_def resolve_file_system_path_def)
  next
    case 4
    then show ?thesis
      using assms(1,3,4) root(2) from_absolute_path_abs [OF assms(1)] resolve_path_against_base_abs [OF assms(1)]
      by (cases v) (auto simp: resolve_entry_path_def resolve_file_system_path_def resolve_file_system_special_path_def
          result_ok_def split: option.splits if_splits sum.splits)
  qed
qed

lemma cwd_abs:
  "host_ok env \<Longrightarrow> result_ok (from_absolute_path env cwd) = None
    \<or> (\<exists>c. result_ok (from_absolute_path env cwd) = Some c \<and> abs_path c)"
  using from_absolute_path_abs by (cases "from_absolute_path env cwd") auto

lemma resolved_abs:
  assumes "host_ok (host h)" "policy_ok p" "d \<in> set (resolved_entries_with_cwd h p cwd)"
  shows "abs_path (resolved_path d)"
  using assms resolve_entry_abs [OF assms(1) _ cwd_abs [OF assms(1)]]
  by (auto simp: resolved_in policy_ok_def list_all_iff)

lemma candidate_abs:
  assumes "host_ok (host h)" "resolve_candidate_path h s cwd = Some t"
  shows "abs_path t"
  using assms from_absolute_path_abs [OF assms(1)] resolve_path_against_base_abs [OF assms(1)]
  by (auto simp: resolve_candidate_path_def abs_join_def result_ok_def split: if_splits sum.splits)

lemma candidate_render: "abs_path t \<Longrightarrow> resolve_candidate_path h (render_path t) cwd = Some t"
  by (simp add: resolve_candidate_path_def path_components_render(1) abs_path_is_absolute from_absolute_path_render)

lemma root_prefix: "abs_path t \<Longrightarrow> prefix [RootDir] t"
  by (auto simp: abs_path_def split: list.splits path_component.splits)

section \<open>Full access\<close>

lemma abs_no_parent: "abs_path q \<Longrightarrow> path_parent q = None \<Longrightarrow> q = [RootDir]"
proof -
  assume q: "abs_path q" "path_parent q = None"
  then have "last q = RootDir" "q \<noteq> []" by (auto simp: path_parent_def abs_path_def split: if_splits)
  with q(1) show ?thesis
    by (auto simp: abs_path_def list_all_iff split: list.splits path_component.splits if_splits dest!: last_in_set)
qed

lemma shared_special: "special_paths_share_target a b \<Longrightarrow> a = b"
  by (induction a b rule: special_paths_share_target.induct) auto

lemma shared_target_resolves:
  assumes "file_system_paths_share_target (entry_path a) (entry_path e)" "entry_ok a" "entry_ok e"
    "resolve_entry_path h (entry_path e) (Some c) = Some q" "abs_path c" "is_dir h SLASH_TMP"
  shows "resolve_entry_path h (entry_path a) (Some c) = Some q"
  using assms
  by (cases "(entry_path a, entry_path e)" rule: file_system_paths_share_target.cases)
    (auto simp: resolve_entry_path_def resolve_file_system_path_def resolve_file_system_special_path_def
      special_path_matches_absolute_path_def entry_ok_def root_of_abs dest: shared_special abs_no_parent
      split: FileSystemSpecialPath.splits)

lemma not_narrowed:
  assumes full: "has_full_disk_write_access p" and kind: "sandbox_kind p = Restricted"
    and ok: "host_ok (host h)" "policy_ok p" "abs_path c" "is_dir h SLASH_TMP"
    and e: "e \<in> set (sandbox_entries p)" "\<not> can_write (access e)"
      "resolve_entry_path h (entry_path e) (Some c) = Some q"
  shows "\<exists>a \<in> set (sandbox_entries p). can_write (access a) \<and> access a > access e
    \<and> resolve_entry_path h (entry_path a) (Some c) = Some q"
proof -
  have narrow: "\<not> narrows_write p e"
    using full kind e(1) by (auto simp: has_full_disk_write_access_def has_write_narrowing_entries_def list_ex_iff)
  have entries: "entry_ok a" if "a \<in> set (sandbox_entries p)" for a
    using that ok(2) by (auto simp: policy_ok_def list_all_iff)
  show ?thesis
  proof (cases "entry_path e = Special SpecialRoot")
    case True
    then have "access e = Read" using narrow e(2) by (cases "access e") (auto simp: narrows_write_def can_write_def)
    moreover obtain a where "a \<in> set (sandbox_entries p)" "entry_path a = Special SpecialRoot" "can_write (access a)"
      using full kind by (auto simp: has_full_disk_write_access_def has_root_access_def list_ex_iff)
    ultimately show ?thesis using e(3) True by (auto simp: can_write_def access_order)
  next
    case False
    then have "has_same_target_write_override p e"
      using narrow e(2,3)
      by (auto simp: narrows_write_def resolve_entry_path_def resolve_file_system_path_def
          resolve_file_system_special_path_def split: FileSystemPath.splits FileSystemSpecialPath.splits)
    then obtain a where a: "a \<in> set (sandbox_entries p)" "can_write (access a)" "access a > access e"
      "file_system_paths_share_target (entry_path a) (entry_path e)"
      by (auto simp: has_same_target_write_override_def list_ex_iff)
    have "resolve_entry_path h (entry_path a) (Some c) = Some q"
      by (rule shared_target_resolves [OF a(4) entries entries e(3)]) (use a(1) e(1) ok in auto)
    with a show ?thesis by blast
  qed
qed

lemma full_write_everywhere:
  assumes full: "has_full_disk_write_access p"
    and ok: "host_ok (host h)" "policy_ok p" "from_absolute_path (host h) cwd = Ok c" "is_dir h SLASH_TMP"
    and t: "resolve_candidate_path h s cwd = Some t"
  shows "resolve_access_with_cwd h p s cwd = Write"
proof (cases "sandbox_kind p = Restricted")
  case kind: True
  let ?es = "resolved_entries_with_cwd h p cwd"
  have c: "abs_path c" "result_ok (from_absolute_path (host h) cwd) = Some c"
    using from_absolute_path_abs [OF ok(1,3)] ok(3) by simp_all
  obtain e0 where e0: "e0 \<in> set (sandbox_entries p)" "entry_path e0 = Special SpecialRoot"
    using full kind by (auto simp: has_full_disk_write_access_def has_root_access_def list_ex_iff)
  have "\<lparr>resolved_path = [RootDir], resolved_access = access e0\<rparr> \<in> set ?es"
    using resolved_of [OF e0(1)] e0(2) c root_of_abs by (simp add: resolve_entry_path_def)
  moreover have "prefix [RootDir] t" using root_prefix candidate_abs [OF ok(1) t] by blast
  ultimately obtain d where d: "d \<in> set ?es" "prefix (resolved_path d) t" "entries_access ?es t = resolved_access d"
    "\<forall>e \<in> set ?es. prefix (resolved_path e) t \<longrightarrow> length (resolved_path e) < length (resolved_path d)
       \<or> resolved_path e = resolved_path d \<and> resolved_access e \<le> resolved_access d"
    using access_decided [of _ ?es t] by fastforce
  have "can_write (resolved_access d)"
  proof (rule ccontr)
    assume no: "\<not> can_write (resolved_access d)"
    obtain e where e: "e \<in> set (sandbox_entries p)" "resolved_access d = access e"
      "resolve_entry_path h (entry_path e) (Some c) = Some (resolved_path d)"
      using d(1) c(2) by (auto simp: resolved_in)
    obtain a where a: "a \<in> set (sandbox_entries p)" "access a > access e"
      "resolve_entry_path h (entry_path a) (Some c) = Some (resolved_path d)"
      using not_narrowed [OF full kind ok(1,2) c(1) ok(4) e(1) _ e(3)] no e(2) by auto
    have "\<lparr>resolved_path = resolved_path d, resolved_access = access a\<rparr> \<in> set ?es"
      using resolved_of [OF a(1)] a(3) c(2) by simp
    with d(2,4) a(2) e(2) show False by fastforce
  qed
  then show ?thesis using d(3) kind t by (simp add: resolve_access_with_cwd_def can_write_def)
qed (simp add: resolve_access_with_cwd_def)


section \<open>Protected metadata\<close>

lemma abs_join_name:
  assumes "abs_path p" "component_ok (Normal w)" "hd w \<noteq> 126"
  shows "abs_join env p w = p @ [Normal w]"
proof -
  have "strip_prefix [126] w = None" using assms(2,3) by (cases w) (auto simp: strip_prefix_def)
  moreover have "path_components w = [Normal w]"
    using assms(2) by (auto simp: path_components_def Let_def split_char_free component_of_def first_opt_eq_Some)
  ultimately have "maybe_expand_home_directory env w = [Normal w]" by (simp add: maybe_expand_home_directory_def)
  moreover have "path_join p [Normal w] = p @ [Normal w]"
    using assms(1) by (auto simp: path_join_def is_absolute_def abs_path_def)
  moreover have "normalize_path (p @ [Normal w]) = p @ [Normal w]"
    using assms by (intro normalize_path_id) (simp add: abs_path_snoc)
  ultimately show ?thesis
    by (simp add: abs_join_def resolve_path_against_base_def absolutize_from_def path_with_base_def is_absolute_def)
qed

lemma metadata_names:
  "n \<in> set PROTECTED_METADATA_PATH_NAMES \<Longrightarrow> component_ok (Normal n) \<and> hd n \<noteq> 126 \<and> normal_ok (Normal n)"
  by (auto simp: PROTECTED_METADATA_PATH_NAMES_def str_def)

lemma metadata_path_name_Some: "metadata_path_name w = Some n \<longleftrightarrow> w = n \<and> n \<in> set PROTECTED_METADATA_PATH_NAMES"
  by (auto simp: metadata_path_name_def PROTECTED_METADATA_PATH_NAMES_def)

lemma metadata_child_Some:
  assumes "abs_path t" "abs_path (resolved_path e)"
  shows "metadata_child h t e = Some (q, n) \<longleftrightarrow>
    can_write (resolved_access e) \<and> n \<in> set PROTECTED_METADATA_PATH_NAMES
    \<and> q = resolved_path e @ [Normal n] \<and> prefix q t"
proof (cases "prefix (resolved_path e) t")
  case True
  then obtain rest where t: "t = resolved_path e @ rest" by (auto simp: prefix_def)
  have "list_all normal_ok rest"
    using assms t by (cases "resolved_path e") (auto simp: abs_path_def split: path_component.splits)
  then have "rest = [] \<or> (\<exists>w cs. rest = Normal w # cs)" by (cases rest rule: list.exhaust; cases "hd rest") auto
  then show ?thesis
    using t assms(2) abs_join_name [OF assms(2)] metadata_names
    by (auto simp: metadata_child_def metadata_path_name_Some)
next
  case False
  then show ?thesis by (auto simp: metadata_child_def dest: append_prefixD)
qed

text \<open>The check for protected metadata, on resolved entries.\<close>

definition entries_deny_metadata :: "sandbox_host \<Rightarrow> ResolvedFileSystemEntry list \<Rightarrow> path \<Rightarrow> bool" where
  "entries_deny_metadata h es t =
     (case find_map (metadata_child h t) es of
        None \<Rightarrow> False
      | Some (q, _) \<Rightarrow>
          \<not> list_ex (\<lambda>e. can_write (resolved_access e) \<and> prefix (resolved_path e) t \<and> prefix q (resolved_path e)) es)"

lemma can_write_at:
  assumes "resolve_candidate_path h s cwd = Some t"
  shows "can_write_path_with_cwd h p s cwd \<longleftrightarrow>
    sandbox_kind p \<noteq> Restricted
    \<or> entries_access (resolved_entries_with_cwd h p cwd) t = Write
      \<and> (has_full_disk_write_access p \<or> \<not> entries_deny_metadata h (resolved_entries_with_cwd h p cwd) t)"
  using assms
  by (auto simp: can_write_path_with_cwd_def resolve_access_with_cwd_def can_write_def is_metadata_write_denied_def
      entries_deny_metadata_def metadata_child_of_writable_root_def has_explicit_write_entry_for_metadata_path_def
      split: option.splits)

lemma can_read_at:
  assumes "resolve_candidate_path h s cwd = Some t"
  shows "can_read_path_with_cwd h p s cwd \<longleftrightarrow>
    sandbox_kind p \<noteq> Restricted \<or> entries_access (resolved_entries_with_cwd h p cwd) t \<noteq> Deny"
  using assms by (auto simp: can_read_path_with_cwd_def resolve_access_with_cwd_def can_read_def)

lemma unresolved:
  assumes "resolve_candidate_path h s cwd = None"
  shows "can_write_path_with_cwd h p s cwd \<longleftrightarrow> sandbox_kind p \<noteq> Restricted"
    "can_read_path_with_cwd h p s cwd \<longleftrightarrow> sandbox_kind p \<noteq> Restricted"
  using assms
  by (auto simp: can_write_path_with_cwd_def can_read_path_with_cwd_def resolve_access_with_cwd_def can_read_def
      can_write_def is_metadata_write_denied_def has_full_disk_write_access_def split: FileSystemSandboxKind.splits)

section \<open>Adding writable roots\<close>

lemma full_push_write:
  assumes "has_full_disk_write_access p"
  shows "has_full_disk_write_access (push_entry (new_entry q Write) p)"
proof -
  let ?p = "push_entry (new_entry q Write) p"
  have "narrows_write ?p e \<Longrightarrow> narrows_write p e" for e
    by (auto simp: narrows_write_def has_same_target_write_override_def push_entry_def
        split: FileSystemPath.splits FileSystemSpecialPath.splits if_splits)
  moreover have "\<not> narrows_write ?p (new_entry q Write)" by (simp add: narrows_write_def new_entry_def can_write_def)
  moreover have "set (sandbox_entries ?p) = insert (new_entry q Write) (set (sandbox_entries p))"
    "sandbox_kind ?p = sandbox_kind p" by (auto simp: push_entry_def)
  ultimately show ?thesis
    using assms
    by (auto simp: has_full_disk_write_access_def has_root_access_def has_write_narrowing_entries_def list_ex_iff
        split: FileSystemSandboxKind.splits)
qed

lemma access_at_prefix:
  assumes "entries_access es t = Write" "e \<in> set es" "Max (keys_at es t) = resolved_entry_precedence e"
    "resolved_access e = Write" "prefix (resolved_path e) q" "prefix q t"
  shows "entries_access es q = Write"
proof -
  have "keys_at es q \<subseteq> keys_at es t" using assms(6) by (auto simp: keys_at_def intro: prefix_order.trans)
  moreover have "resolved_entry_precedence e \<in> keys_at es q" using assms(2,5) by (auto simp: keys_at_def)
  moreover have "k \<le> resolved_entry_precedence e" if "k \<in> keys_at es t" for k
    unfolding assms(3) [symmetric] using that by (rule Max_ge [OF finite_keys_at])
  ultimately have "Max (keys_at es q) = resolved_entry_precedence e"
    by (intro Max_eqI [OF finite_keys_at]) blast+
  moreover have "keys_at es q \<noteq> {}" using assms(2,5) by (auto simp: keys_at_def)
  ultimately show ?thesis using assms(4) by (simp add: entries_access_Max resolved_entry_precedence_def)
qed

lemma metadata_after_push:
  assumes abs: "abs_path t" "abs_path q" "\<forall>e \<in> set es. abs_path (resolved_path e)"
    and before: "entries_access es t = Write" "\<not> entries_deny_metadata h es t"
    and not_yet: "\<not> (entries_access es q = Write \<and> \<not> entries_deny_metadata h es q)"
  shows "\<not> entries_deny_metadata h (es @ [\<lparr>resolved_path = q, resolved_access = Write\<rparr>]) t"
proof (cases "find_map (metadata_child h t) es")
  case (Some y)
  with before(2) show ?thesis by (auto simp: entries_deny_metadata_def find_map_append split: option.splits)
next
  case None
  let ?x = "\<lparr>resolved_path = q, resolved_access = Write\<rparr>"
  show ?thesis
  proof (cases "metadata_child h t ?x")
    case (Some y)
    obtain n where n: "y = (q @ [Normal n], n)" "n \<in> set PROTECTED_METADATA_PATH_NAMES" "prefix (q @ [Normal n]) t"
      using Some metadata_child_Some [OF abs(1), of ?x h "fst y" "snd y"] abs(2) by (cases y) auto
    obtain e where e: "e \<in> set es" "prefix (resolved_path e) t" "resolved_access e = Write"
      "Max (keys_at es t) = resolved_entry_precedence e"
      using access_in_entries [of es t] before(1) by auto
    have "\<not> length (resolved_path e) \<le> length q"
    proof
      assume "length (resolved_path e) \<le> length q"
      moreover have qt: "prefix q t" using n(3) append_prefixD by blast
      ultimately have "prefix (resolved_path e) q" using prefixes_shorter e(2) by blast
      from access_at_prefix [OF before(1) e(1,4,3) this qt] have "entries_deny_metadata h es q"
        using not_yet by blast
      then obtain w r m where w: "w \<in> set es" "metadata_child h q w = Some (r, m)"
        by (auto simp: entries_deny_metadata_def split: option.splits dest!: find_map_Some_in)
      then have "metadata_child h t w = Some (r, m)"
        using metadata_child_Some [OF abs(2), of w h r m] metadata_child_Some [OF abs(1), of w h r m] abs(3) qt
        by (auto intro: prefix_order.trans)
      with w(1) None show False by (auto simp: find_map_None)
    qed
    then have "prefix (q @ [Normal n]) (resolved_path e)"
      using prefixes_shorter [OF n(3) e(2)] by simp
    with e None Some n(1) show ?thesis
      by (auto simp: entries_deny_metadata_def find_map_append can_write_def list_ex_iff)
  qed (use None in \<open>simp add: entries_deny_metadata_def find_map_append\<close>)
qed

lemma pushed_root_access:
  assumes "\<forall>d \<in> set es. \<not> (resolved_path d = q \<and> resolved_access d = Deny)"
  shows "entries_access (es @ [\<lparr>resolved_path = q, resolved_access = Write\<rparr>]) q = Write"
proof -
  let ?x = "\<lparr>resolved_path = q, resolved_access = Write\<rparr>" and ?es = "es @ [\<lparr>resolved_path = q, resolved_access = Write\<rparr>]"
  have x: "?x \<in> set ?es" "prefix (resolved_path ?x) q" by simp_all
  obtain d where d: "d \<in> set ?es" "prefix (resolved_path d) q" "entries_access ?es q = resolved_access d"
    "length (resolved_path ?x) < length (resolved_path d)
     \<or> resolved_path ?x = resolved_path d \<and> resolved_access ?x \<le> resolved_access d"
    using access_decided [OF x] x by blast
  then have "resolved_path d = q" "Write \<le> resolved_access d" using prefix_length_le [OF d(2)] by auto
  moreover have "resolved_access d \<noteq> Deny"
  proof (cases "d \<in> set es")
    case True
    then show ?thesis using assms \<open>resolved_path d = q\<close> by blast
  next
    case False
    then have "d = ?x" using d(1) by simp
    then show ?thesis by (metis FileSystemAccessMode.distinct(5) ResolvedFileSystemEntry.select_convs(2))
  qed
  ultimately show ?thesis using d(3) by (cases "resolved_access d") (auto simp: access_order)
qed

lemma pushed_root_metadata:
  assumes "abs_path q" "\<forall>e \<in> set es. abs_path (resolved_path e)"
  shows "\<not> entries_deny_metadata h (es @ [\<lparr>resolved_path = q, resolved_access = Write\<rparr>]) q"
proof (cases "find_map (metadata_child h q) es")
  case (Some y)
  obtain w where w: "w \<in> set es" "metadata_child h q w = Some y" using find_map_Some_in [OF Some] by blast
  then have "prefix (fst y) q"
    using metadata_child_Some [OF assms(1), of w h "fst y" "snd y"] assms(2) by auto
  with Some show ?thesis by (cases y) (auto simp: entries_deny_metadata_def find_map_append can_write_def)
qed (simp add: entries_deny_metadata_def find_map_append metadata_child_def can_write_def)

lemma add_writable_root_step:
  assumes ok: "host_ok (host h)" "policy_ok p" "abs_path r"
  shows "policy_ok (add_writable_root h cwd r p)"
    "can_write_path_with_cwd h p s cwd \<Longrightarrow> can_write_path_with_cwd h (add_writable_root h cwd r p) s cwd"
    "can_read_path_with_cwd h p s cwd \<Longrightarrow> can_read_path_with_cwd h (add_writable_root h cwd r p) s cwd"
    "can_write_path_with_cwd h (add_writable_root h cwd r p) (render_path r) cwd
     \<or> (\<exists>d \<in> set (resolved_entries_with_cwd h p cwd). resolved_path d = r \<and> resolved_access d = Deny)"
proof -
  let ?x = "\<lparr>resolved_path = r, resolved_access = Write\<rparr>" and ?es = "resolved_entries_with_cwd h p cwd"
  let ?p = "push_entry (new_entry (PathEntry r) Write) p"
  show "policy_ok (add_writable_root h cwd r p)"
    using ok(2,3) by (simp add: add_writable_root_def push_entry_def policy_ok_def new_entry_def entry_ok_def)
  have es: "resolved_entries_with_cwd h ?p cwd = ?es @ [?x]" "sandbox_kind ?p = sandbox_kind p"
    by (simp_all only: resolved_push) (simp add: push_entry_def)
  have abs: "\<forall>e \<in> set ?es. abs_path (resolved_path e)" using resolved_abs [OF ok(1,2)] by blast
  have r: "resolve_candidate_path h (render_path r) cwd = Some r" using candidate_render [OF ok(3)] .
  consider "can_write_path_with_cwd h p (render_path r) cwd" "add_writable_root h cwd r p = p"
    | (push) "\<not> can_write_path_with_cwd h p (render_path r) cwd" "add_writable_root h cwd r p = ?p"
    by (auto simp: add_writable_root_def)
  note cases = this
  show "can_write_path_with_cwd h p s cwd \<Longrightarrow> can_write_path_with_cwd h (add_writable_root h cwd r p) s cwd"
    using cases
  proof cases
    assume before: "can_write_path_with_cwd h p s cwd"
    case push
    show ?thesis
    proof (cases "resolve_candidate_path h s cwd")
      case (Some t)
      have "\<not> entries_deny_metadata h (?es @ [?x]) t" if "entries_access ?es t = Write" "\<not> entries_deny_metadata h ?es t"
          "sandbox_kind p = Restricted"
        by (rule metadata_after_push [OF candidate_abs [OF ok(1) Some] ok(3) abs that(1,2)])
          (use push(1) that(3) r in \<open>simp add: can_write_at\<close>)
      moreover have "entries_access (?es @ [?x]) t = Write" if "entries_access ?es t = Write"
        using access_append [of ?es ?x t] that by auto
      ultimately show ?thesis
        using before full_push_write [of p "PathEntry r"] unfolding push(2) can_write_at [OF Some] es by blast
    qed (use before push es(2) in \<open>simp add: unresolved\<close>)
  qed simp
  show "can_read_path_with_cwd h p s cwd \<Longrightarrow> can_read_path_with_cwd h (add_writable_root h cwd r p) s cwd"
    using cases
  proof cases
    assume before: "can_read_path_with_cwd h p s cwd"
    case push
    show ?thesis
    proof (cases "resolve_candidate_path h s cwd")
      case (Some t)
      then show ?thesis
        using before access_append [of ?es ?x t] unfolding push(2) can_read_at [OF Some] es by auto
    qed (use before push es(2) in \<open>simp add: unresolved\<close>)
  qed simp
  show "can_write_path_with_cwd h (add_writable_root h cwd r p) (render_path r) cwd
     \<or> (\<exists>d \<in> set ?es. resolved_path d = r \<and> resolved_access d = Deny)"
    using cases
  proof cases
    case push
    show ?thesis
      unfolding push(2) can_write_at [OF r] es
      using pushed_root_access [of ?es r] pushed_root_metadata [OF ok(3) abs, of h] by blast
  qed simp
qed

lemma add_writable_root_denials:
  "d \<in> set (resolved_entries_with_cwd h (add_writable_root h cwd r p) cwd) \<Longrightarrow> resolved_access d = Deny \<Longrightarrow>
   d \<in> set (resolved_entries_with_cwd h p cwd)"
  by (auto simp: add_writable_root_def resolved_push split: if_splits)

text \<open>
  C34: Adding writable roots only adds access. Every path that could be written or read before still can
  be, protected metadata included, and every added root can be written afterwards, unless the policy
  denies exactly that path.
\<close>

theorem writable_roots_added:
  assumes "host_ok (host h)" "policy_ok p" "list_all abs_path roots"
  shows "(can_write_path_with_cwd h p s cwd \<longrightarrow>
            can_write_path_with_cwd h (with_additional_writable_roots h p cwd roots) s cwd)
    \<and> (can_read_path_with_cwd h p s cwd \<longrightarrow>
            can_read_path_with_cwd h (with_additional_writable_roots h p cwd roots) s cwd)
    \<and> (\<forall>r \<in> set roots.
            can_write_path_with_cwd h (with_additional_writable_roots h p cwd roots) (render_path r) cwd
            \<or> (\<exists>d \<in> set (resolved_entries_with_cwd h p cwd). resolved_path d = r \<and> resolved_access d = Deny))"
  using assms(2,3)
proof (induction roots arbitrary: p s)
  case (Cons r roots)
  let ?p = "add_writable_root h cwd r p"
  have fold: "with_additional_writable_roots h p cwd (r # roots) = with_additional_writable_roots h ?p cwd roots"
    by (simp add: with_additional_writable_roots_def)
  have ok: "policy_ok ?p" "abs_path r" using add_writable_root_step(1) [OF assms(1) Cons(2)] Cons(3) by simp_all
  note step = add_writable_root_step [OF assms(1) Cons(2) ok(2), where cwd = cwd]
  note IH = Cons(1) [OF ok(1)]
  show ?case
    unfolding fold using IH [of s] IH [of "render_path r"] step(2,3) [of s] step(4) Cons(3)
    by (auto dest: add_writable_root_denials)
qed (simp add: with_additional_writable_roots_def)

section \<open>Fixing the project roots\<close>

lemma materialize_resolves:
  assumes "abs_path c" "abs_path c'"
  shows "resolve_entry_path h (entry_path (materialize_entry h (Some c) e)) (Some c') =
    resolve_entry_path h (entry_path e) (Some c) \<and> access (materialize_entry h (Some c) e) = access e"
proof (cases "entry_path e")
  case (Special v)
  then show ?thesis
    using assms
    by (cases v) (auto simp: materialize_entry_def resolve_entry_path_def resolve_file_system_path_def root_of_abs
        resolve_file_system_special_path_def split: option.splits)
qed (auto simp: materialize_entry_def resolve_entry_path_def resolve_file_system_path_def split: option.splits)


section \<open>Keeping denials\<close>

lemma push_missing_entries:
  "set (sandbox_entries (fold push_missing_entry es p)) = set (sandbox_entries p) \<union> set es
   \<and> sandbox_kind (fold push_missing_entry es p) = sandbox_kind p"
  by (induction es arbitrary: p) (auto simp: push_missing_entry_def push_entry_def)

lemma pushed_prefix: "\<exists>ds. sandbox_entries (fold push_missing_entry es p) = sandbox_entries p @ ds \<and> set ds \<subseteq> set es"
proof (induction es arbitrary: p)
  case (Cons e es)
  obtain ds where ds: "sandbox_entries (fold push_missing_entry es (push_missing_entry e p)) =
    sandbox_entries (push_missing_entry e p) @ ds" "set ds \<subseteq> set es" using Cons by blast
  have "sandbox_entries (push_missing_entry e p) = sandbox_entries p @ (if e \<in> set (sandbox_entries p) then [] else [e])"
    by (simp add: push_missing_entry_def push_entry_def)
  with ds show ?case
    by (intro exI [of _ "(if e \<in> set (sandbox_entries p) then [] else [e]) @ ds"]) auto
qed simp

lemma denials_access:
  "list_all (\<lambda>d. resolved_access d = Deny) ds \<Longrightarrow>
   entries_access (es @ ds) t = entries_access es t \<or> entries_access (es @ ds) t = Deny"
proof (induction ds rule: rev_induct)
  case (snoc d ds)
  then show ?case using access_append [of "es @ ds" d t] by auto
qed simp

lemma denials_metadata:
  assumes "list_all (\<lambda>d. resolved_access d = Deny) ds"
  shows "entries_deny_metadata h (es @ ds) t = entries_deny_metadata h es t"
proof -
  have "find_map (metadata_child h t) ds = None"
    using assms by (auto simp: find_map_None metadata_child_def can_write_def list_all_iff)
  moreover have "\<not> list_ex (\<lambda>e. can_write (resolved_access e) \<and> prefix (resolved_path e) t \<and> prefix q (resolved_path e)) ds" for q
    using assms by (auto simp: can_write_def list_all_iff list_ex_iff)
  ultimately show ?thesis
    by (cases "find_map (metadata_child h t) es") (simp_all add: entries_deny_metadata_def find_map_append)
qed

lemma denials_not_full:
  assumes "sandbox_entries p' = sandbox_entries p @ ds" "list_all (\<lambda>e. access e = Deny) ds"
    "sandbox_kind p' = sandbox_kind p" "has_full_disk_write_access p'"
  shows "has_full_disk_write_access p"
proof -
  have "has_same_target_write_override p' e = has_same_target_write_override p e" for e
    using assms(1,2) by (auto simp: has_same_target_write_override_def list_ex_iff list_all_iff can_write_def)
  then have "narrows_write p' = narrows_write p" unfolding fun_eq_iff narrows_write_def
    by (simp split: FileSystemPath.splits FileSystemSpecialPath.splits)
  then show ?thesis
    using assms
    by (auto simp: has_full_disk_write_access_def has_root_access_def has_write_narrowing_entries_def list_ex_iff
        list_all_iff can_write_def split: FileSystemSandboxKind.splits)
qed

lemma resolved_append:
  "sandbox_entries p' = sandbox_entries p @ ds \<Longrightarrow> list_all (\<lambda>e. access e = Deny) ds \<Longrightarrow>
   \<exists>rs. resolved_entries_with_cwd h p' cwd = resolved_entries_with_cwd h p cwd @ rs
     \<and> list_all (\<lambda>d. resolved_access d = Deny) rs"
  by (auto simp: resolved_entries_with_cwd_def Let_def List.map_filter_def list_all_iff
      intro!: exI [of _ "map _ (filter _ ds)"])

lemma only_denials_added:
  assumes "sandbox_entries p' = sandbox_entries p @ ds" "list_all (\<lambda>e. access e = Deny) ds"
    "sandbox_kind p' = sandbox_kind p"
  shows "can_write_path_with_cwd h p' s cwd \<Longrightarrow> can_write_path_with_cwd h p s cwd"
    "can_read_path_with_cwd h p' s cwd \<Longrightarrow> can_read_path_with_cwd h p s cwd"
proof -
  obtain rs where rs: "resolved_entries_with_cwd h p' cwd = resolved_entries_with_cwd h p cwd @ rs"
    "list_all (\<lambda>d. resolved_access d = Deny) rs" using resolved_append [OF assms(1,2)] by blast
  note mono = denials_access [OF rs(2), of "resolved_entries_with_cwd h p cwd"] denials_metadata [OF rs(2)]
    denials_not_full [OF assms]
  show "can_write_path_with_cwd h p s cwd" if "can_write_path_with_cwd h p' s cwd"
  proof (cases "resolve_candidate_path h s cwd")
    case (Some t)
    then show ?thesis using mono(1) [of t] mono(2,3) assms(3) that by (auto simp: can_write_at rs(1))
  qed (use assms(3) that in \<open>simp add: unresolved\<close>)
  show "can_read_path_with_cwd h p s cwd" if "can_read_path_with_cwd h p' s cwd"
  proof (cases "resolve_candidate_path h s cwd")
    case (Some t)
    then show ?thesis using mono(1) [of t] assms(3) that by (auto simp: can_read_at rs(1))
  qed (use assms(3) that in \<open>simp add: unresolved\<close>)
qed

lemma denied_unreadable:
  assumes "d \<in> set (resolved_entries_with_cwd h p cwd)" "resolved_access d = Deny" "sandbox_kind p = Restricted"
    "abs_path (resolved_path d)"
  shows "\<not> can_read_path_with_cwd h p (render_path (resolved_path d)) cwd"
proof -
  let ?es = "resolved_entries_with_cwd h p cwd"
  obtain b where "b \<in> set ?es" and b: "prefix (resolved_path b) (resolved_path d)" "entries_access ?es (resolved_path d) = resolved_access b"
    "length (resolved_path d) < length (resolved_path b) \<or> resolved_path d = resolved_path b \<and> resolved_access d \<le> resolved_access b"
    using access_decided [OF assms(1) prefix_order.refl] assms(1) prefix_order.refl by blast
  then have "resolved_access b = Deny"
    using prefix_length_le [OF b(1)] assms(2) by (cases "resolved_access b") (auto simp: access_order)
  then show ?thesis using b(2) assms(3) by (simp add: can_read_at [OF candidate_render [OF assms(4)]])
qed


section \<open>The order of entries\<close>

text \<open>
  The protection of metadata depends on the order of the entries. With a writable directory and a
  writable directory inside its \<open>.git\<close>, the \<open>.git\<close> of the inner one can be written when the outer entry comes
  first, and is protected when the same two entries come in the other order.
\<close>

theorem metadata_depends_on_order:
  assumes "abs_path w" "component_ok (Normal n)" "component_ok (Normal m)"
  shows "can_write_path_with_cwd h
      (restricted [new_entry (PathEntry w) Write, new_entry (PathEntry (w @ [Normal (str ''.git''), Normal n])) Write])
      (render_path (w @ [Normal (str ''.git''), Normal n, Normal (str ''.git''), Normal m])) cwd
    \<and> \<not> can_write_path_with_cwd h
      (restricted [new_entry (PathEntry (w @ [Normal (str ''.git''), Normal n])) Write, new_entry (PathEntry w) Write])
      (render_path (w @ [Normal (str ''.git''), Normal n, Normal (str ''.git''), Normal m])) cwd"
proof -
  let ?git = "Normal (str ''.git'')"
  let ?t = "w @ [?git, Normal n, ?git, Normal m]" and ?in = "w @ [?git, Normal n]"
  let ?outer = "\<lparr>resolved_path = w, resolved_access = Write\<rparr>" and ?inner = "\<lparr>resolved_path = ?in, resolved_access = Write\<rparr>"
  have git: "str ''.git'' \<in> set PROTECTED_METADATA_PATH_NAMES" "component_ok ?git"
    by (simp_all add: PROTECTED_METADATA_PATH_NAMES_def str_def)
  have abs: "abs_path ?t" "abs_path ?in"
    using assms git(2) by (cases w; auto simp: abs_path_def split: path_component.splits)+
  note at = can_write_at [OF candidate_render [OF abs(1)]]
  have full: "\<not> has_full_disk_write_access (restricted [new_entry (PathEntry a) Write, new_entry (PathEntry b) Write])" for a b
    by (simp add: has_full_disk_write_access_def has_root_access_def restricted_def new_entry_def)
  have es: "resolved_entries_with_cwd h (restricted [new_entry (PathEntry a) Write, new_entry (PathEntry b) Write]) cwd =
    [\<lparr>resolved_path = a, resolved_access = Write\<rparr>, \<lparr>resolved_path = b, resolved_access = Write\<rparr>]" for a b
    by (simp add: resolved_entries_with_cwd_def restricted_def new_entry_def resolve_entry_path_def
        resolve_file_system_path_def List.map_filter_def)
  have access: "entries_access [?outer, ?inner] ?t = Write"
    by (simp add: entries_access_def max_by_key_def)
  have child: "metadata_child h ?t ?outer = Some (w @ [?git], str ''.git'')"
    "metadata_child h ?t ?inner = Some (?in @ [?git], str ''.git'')"
    using metadata_child_Some [OF abs(1), of ?outer] metadata_child_Some [OF abs(1), of ?inner] assms(1) abs(2) git(1)
    by (simp_all add: can_write_def)
  have "\<not> entries_deny_metadata h [?outer, ?inner] ?t" "entries_deny_metadata h [?inner, ?outer] ?t"
    by (simp_all add: entries_deny_metadata_def child can_write_def)
  moreover have "sandbox_kind (restricted es) = Restricted" for es by (simp add: restricted_def)
  ultimately show ?thesis using access full unfolding at es by simp
qed

section \<open>Instances\<close>

definition sample_host :: sandbox_host where
  "sample_host =
     \<lparr>host = sample_env, tmpdir_var = None, is_dir = (\<lambda>p. p = SLASH_TMP), is_file = (\<lambda>p. False), read_text = (\<lambda>p. None),
      path_exists = (\<lambda>p. p = SLASH_TMP), symlink_at = (\<lambda>p. None), canonical_path = (\<lambda>s. Ok (path_components s))\<rparr>"

definition sample_policy :: FileSystemSandboxPolicy where
  "sample_policy =
     restricted [new_entry (Special SpecialRoot) Read, new_entry (Special (ProjectRoots None)) Write,
                 new_entry (PathEntry (path_components (str ''/work/repo/secret''))) Deny]"

theorem access_most_specific_witness:
  "\<exists>d \<in> set (resolved_entries_with_cwd sample_host sample_policy (str ''/work/repo'')).
     prefix (resolved_path d) (path_components (str ''/work/repo/secret/key''))
     \<and> resolve_access_with_cwd sample_host sample_policy (str ''secret/key'') (str ''/work/repo'') = resolved_access d"
proof -
  have "sandbox_kind sample_policy = Restricted"
    "resolve_candidate_path sample_host (str ''secret/key'') (str ''/work/repo'') =
       Some (path_components (str ''/work/repo/secret/key''))" by code_simp+
  from access_most_specific [OF this] show ?thesis
  proof
    assume "resolve_access_with_cwd sample_host sample_policy (str ''secret/key'') (str ''/work/repo'') = Deny
      \<and> (\<forall>e \<in> set (resolved_entries_with_cwd sample_host sample_policy (str ''/work/repo'')).
           \<not> prefix (resolved_path e) (path_components (str ''/work/repo/secret/key'')))"
    moreover have "\<not> list_all (\<lambda>e. \<not> prefix (resolved_path e) (path_components (str ''/work/repo/secret/key'')))
      (resolved_entries_with_cwd sample_host sample_policy (str ''/work/repo''))" by code_simp
    ultimately show ?thesis by (auto simp: list_all_iff)
  qed blast
qed


theorem writable_roots_added_witness:
  "can_write_path_with_cwd sample_host
     (with_additional_writable_roots sample_host sample_policy (str ''/work/repo'') [path_components (str ''/data'')])
     (render_path (path_components (str ''/data''))) (str ''/work/repo'')"
proof -
  let ?r = "path_components (str ''/data'')"
  have ok: "host_ok (host sample_host)" "policy_ok sample_policy" "list_all abs_path [?r]" by code_simp+
  have "\<not> list_ex (\<lambda>d. resolved_path d = ?r \<and> resolved_access d = Deny)
    (resolved_entries_with_cwd sample_host sample_policy (str ''/work/repo''))" by code_simp
  with writable_roots_added [OF ok, of "[]" "str ''/work/repo''"] show ?thesis by (auto simp: list_ex_iff)
qed



theorem metadata_depends_on_order_witness:
  "can_write_path_with_cwd sample_host
     (restricted [new_entry (PathEntry (path_components (str ''/w''))) Write, new_entry (PathEntry (path_components (str ''/w/.git/x''))) Write])
     (str ''/w/.git/x/.git/y'') (str ''/w'')"
proof -
  have "abs_path (path_components (str ''/w''))" "component_ok (Normal (str ''x''))" "component_ok (Normal (str ''y''))"
    "path_components (str ''/w'') @ [Normal (str ''.git''), Normal (str ''x'')] = path_components (str ''/w/.git/x'')"
    "render_path (path_components (str ''/w'') @ [Normal (str ''.git''), Normal (str ''x''), Normal (str ''.git''), Normal (str ''y'')])
       = str ''/w/.git/x/.git/y''" by code_simp+
  then show ?thesis using metadata_depends_on_order [of "path_components (str ''/w'')" "str ''x''" "str ''y''"] by simp
qed

end
