(* ===== verification/Sandbox_Roots.thy ===== *)
theory Sandbox_Roots
  imports Sandbox_Access "HOL-Library.List_Lexorder"
begin

text \<open>
  More of \<open>protocol/src/permissions.rs\<close>, with \<open>SandboxPolicy\<close> and \<open>WritableRoot\<close> of \<open>protocol.rs\<close>: default
  protection of metadata, conversion from and to the older sandbox policy, and the roots that are handed
  to the sandboxes of the platform.

  Lemmas: what the workspace policy lets an agent write, the round trip through the older policy, and
  where the roots that are handed out differ from the access that the policy gives.
\<close>

section \<open>The older sandbox policy\<close>

datatype NetworkAccess = NetworkAccessRestricted | NetworkAccessEnabled

datatype SandboxPolicy =
    DangerFullAccess
  | ReadOnly bool
  | ExternalSandboxPolicy NetworkAccess
  | WorkspaceWrite "path list" bool bool bool

definition has_full_network_access :: "SandboxPolicy \<Rightarrow> bool" where
  "has_full_network_access p =
     (case p of
        DangerFullAccess \<Rightarrow> True
      | ExternalSandboxPolicy network_access \<Rightarrow> network_access = NetworkAccessEnabled
      | ReadOnly network_access \<Rightarrow> network_access
      | WorkspaceWrite _ network_access _ _ \<Rightarrow> network_access)"

definition network_of_sandbox_policy :: "SandboxPolicy \<Rightarrow> NetworkSandboxPolicy" where
  "network_of_sandbox_policy p = (if has_full_network_access p then NetworkEnabled else NetworkRestricted)"

record WritableRoot =
  root :: path
  read_only_subpaths :: "path list"
  protected_metadata_names :: "ustring list"

definition path_contains_protected_metadata_name :: "WritableRoot \<Rightarrow> path \<Rightarrow> bool" where
  "path_contains_protected_metadata_name w t =
     (if \<not> prefix (root w) t then False
      else (case drop (length (root w)) t of
              [] \<Rightarrow> False
            | first # _ \<Rightarrow> list_ex (\<lambda>name. component_text first = name) (protected_metadata_names w)))"

definition is_path_writable :: "WritableRoot \<Rightarrow> path \<Rightarrow> bool" where
  "is_path_writable w t =
     (if \<not> prefix (root w) t then False
      else if list_ex (\<lambda>sub. prefix sub t) (read_only_subpaths w) then False
      else \<not> path_contains_protected_metadata_name w t)"

section \<open>Effective paths\<close>

fun normalize_loop :: "sandbox_host \<Rightarrow> path \<Rightarrow> path list \<Rightarrow> path" where
  "normalize_loop h raw_path [] = raw_path"
| "normalize_loop h raw_path (ancestor # rest) =
     (if symlink_at h ancestor = None then normalize_loop h raw_path rest
      else (case canonicalize_preserving_symlinks (host h) (symlink_at h) (canonical_path h) (render_path ancestor) of
              Err _ \<Rightarrow> normalize_loop h raw_path rest
            | Ok normalized_ancestor \<Rightarrow>
                if \<not> prefix ancestor raw_path then normalize_loop h raw_path rest
                else
                  (case from_absolute_path (host h)
                          (render_path (path_join normalized_ancestor (drop (length ancestor) raw_path))) of
                     Ok normalized_path \<Rightarrow> normalized_path
                   | Err _ \<Rightarrow> normalize_loop h raw_path rest)))"

definition normalize_effective_absolute_path :: "sandbox_host \<Rightarrow> path \<Rightarrow> path" where
  "normalize_effective_absolute_path h p = normalize_loop h p (path_ancestors p)"

definition dedup_absolute_paths :: "sandbox_host \<Rightarrow> path list \<Rightarrow> bool \<Rightarrow> path list" where
  "dedup_absolute_paths h paths normalize_effective_paths =
     foldl (\<lambda>deduped p.
         let dedup_path = (if normalize_effective_paths then normalize_effective_absolute_path h p else p)
         in if dedup_path \<in> set deduped then deduped else deduped @ [dedup_path]) [] paths"

section \<open>Default protection\<close>

definition is_git_pointer_file :: "sandbox_host \<Rightarrow> path \<Rightarrow> bool" where
  "is_git_pointer_file h p \<longleftrightarrow> is_file h p \<and> path_file_name p = Some (str ''.git'')"

definition resolve_gitdir_from_file :: "sandbox_host \<Rightarrow> path \<Rightarrow> path option" where
  "resolve_gitdir_from_file h dot_git =
     (case read_text h dot_git of
        None \<Rightarrow> None
      | Some contents \<Rightarrow>
          (case split_once 58 (trim contents) of
             None \<Rightarrow> None
           | Some (pre, gitdir_raw) \<Rightarrow>
               if trim pre \<noteq> str ''gitdir'' then None
               else if trim gitdir_raw = [] then None
               else (case path_parent dot_git of
                       None \<Rightarrow> None
                     | Some base \<Rightarrow>
                         let gitdir_path = resolve_path_against_base (host h) (trim gitdir_raw) base
                         in if path_exists h gitdir_path then Some gitdir_path else None)))"

definition default_read_only_subpaths_for_writable_root :: "sandbox_host \<Rightarrow> path \<Rightarrow> bool \<Rightarrow> path list" where
  "default_read_only_subpaths_for_writable_root h writable_root protect_missing_dot_codex =
     (let top_level_git = abs_join (host h) writable_root (str ''.git'');
          git = (if is_dir h top_level_git \<or> is_file h top_level_git
                 then (if is_file h top_level_git \<and> is_git_pointer_file h top_level_git
                       then (case resolve_gitdir_from_file h top_level_git of Some gitdir \<Rightarrow> [gitdir] | None \<Rightarrow> [])
                       else []) @ [top_level_git]
                 else []);
          top_level_agents = abs_join (host h) writable_root (str ''.agents'');
          agents = (if is_dir h top_level_agents then [top_level_agents] else []);
          top_level_codex = abs_join (host h) writable_root (str ''.codex'');
          codex = (if protect_missing_dot_codex \<or> is_dir h top_level_codex then [top_level_codex] else [])
      in dedup_absolute_paths h (git @ agents @ codex) False)"

definition append_default_read_only_entry_if_no_explicit_rule ::
    "FileSystemPath \<Rightarrow> FileSystemSandboxEntry list \<Rightarrow> FileSystemSandboxEntry list" where
  "append_default_read_only_entry_if_no_explicit_rule p entries =
     (if list_ex (\<lambda>e. file_system_paths_share_target (entry_path e) p) entries then entries
      else entries @ [skip_missing_path p Read])"

definition append_default_read_only_path_if_no_explicit_rule ::
    "path \<Rightarrow> FileSystemSandboxEntry list \<Rightarrow> FileSystemSandboxEntry list" where
  "append_default_read_only_path_if_no_explicit_rule p = append_default_read_only_entry_if_no_explicit_rule (PathEntry p)"

definition append_default_read_only_project_root_subpath_if_no_explicit_rule ::
    "ustring \<Rightarrow> FileSystemSandboxEntry list \<Rightarrow> FileSystemSandboxEntry list" where
  "append_default_read_only_project_root_subpath_if_no_explicit_rule subpath =
     append_default_read_only_entry_if_no_explicit_rule (Special (ProjectRoots (Some subpath)))"

definition protect_root ::
    "sandbox_host \<Rightarrow> bool \<Rightarrow> path \<Rightarrow> FileSystemSandboxEntry list \<Rightarrow> FileSystemSandboxEntry list" where
  "protect_root h protect_missing_dot_codex writable_root =
     fold append_default_read_only_path_if_no_explicit_rule
       (default_read_only_subpaths_for_writable_root h writable_root protect_missing_dot_codex)"

text \<open>The entries that give write access in the workspace policy.\<close>

definition workspace_entries :: "path list \<Rightarrow> bool \<Rightarrow> bool \<Rightarrow> FileSystemSandboxEntry list" where
  "workspace_entries writable_roots exclude_tmpdir_env_var exclude_slash_tmp =
     [new_entry (Special SpecialRoot) Read, new_entry (Special (ProjectRoots None)) Write]
     @ (if exclude_slash_tmp then [] else [new_entry (Special SlashTmp) Write])
     @ (if exclude_tmpdir_env_var then [] else [new_entry (Special Tmpdir) Write])
     @ map (\<lambda>p. new_entry (PathEntry p) Write) writable_roots"

definition workspace_write :: "sandbox_host \<Rightarrow> path list \<Rightarrow> bool \<Rightarrow> bool \<Rightarrow> FileSystemSandboxPolicy" where
  "workspace_write h writable_roots exclude_tmpdir_env_var exclude_slash_tmp =
     restricted
       (fold (protect_root h False) writable_roots
         (fold append_default_read_only_project_root_subpath_if_no_explicit_rule
            [str ''.git'', str ''.agents'', str ''.codex'']
            (workspace_entries writable_roots exclude_tmpdir_env_var exclude_slash_tmp)))"

section \<open>Conversions\<close>

definition from_sandbox_policy :: "sandbox_host \<Rightarrow> SandboxPolicy \<Rightarrow> FileSystemSandboxPolicy" where
  "from_sandbox_policy h value =
     (case value of
        DangerFullAccess \<Rightarrow> unrestricted
      | ExternalSandboxPolicy _ \<Rightarrow> external_sandbox
      | ReadOnly _ \<Rightarrow> restricted [new_entry (Special SpecialRoot) Read]
      | WorkspaceWrite writable_roots _ exclude_tmpdir_env_var exclude_slash_tmp \<Rightarrow>
          workspace_write h writable_roots exclude_tmpdir_env_var exclude_slash_tmp)"

definition protect_workspace ::
    "sandbox_host \<Rightarrow> path list \<Rightarrow> ustring \<Rightarrow> FileSystemSandboxEntry list \<Rightarrow> FileSystemSandboxEntry list" where
  "protect_workspace h writable_roots cwd entries =
     fold (protect_root h False) writable_roots
       (case from_absolute_path (host h) cwd of Ok cwd_root \<Rightarrow> protect_root h True cwd_root entries | Err _ \<Rightarrow> entries)"

definition from_legacy_sandbox_policy_for_cwd ::
    "sandbox_host \<Rightarrow> SandboxPolicy \<Rightarrow> ustring \<Rightarrow> FileSystemSandboxPolicy" where
  "from_legacy_sandbox_policy_for_cwd h sandbox_policy cwd =
     (let p = from_sandbox_policy h sandbox_policy
      in case sandbox_policy of
           WorkspaceWrite writable_roots _ _ _ \<Rightarrow>
             p\<lparr>sandbox_entries := protect_workspace h writable_roots cwd (sandbox_entries p)\<rparr>
         | _ \<Rightarrow> p)"

definition from_legacy_sandbox_policy_preserving_deny_entries ::
    "sandbox_host \<Rightarrow> SandboxPolicy \<Rightarrow> ustring \<Rightarrow> FileSystemSandboxPolicy \<Rightarrow> FileSystemSandboxPolicy" where
  "from_legacy_sandbox_policy_preserving_deny_entries h sandbox_policy cwd existing =
     (let rebuilt = from_legacy_sandbox_policy_for_cwd h sandbox_policy cwd
      in if sandbox_kind rebuilt \<noteq> Restricted then rebuilt
         else fold push_missing_entry (filter (\<lambda>e. access e = Deny) (sandbox_entries existing))
                (rebuilt\<lparr>glob_scan_max_depth := glob_scan_max_depth existing\<rparr>))"

definition legacy_runtime_file_system_policy_for_cwd ::
    "sandbox_host \<Rightarrow> SandboxPolicy \<Rightarrow> ustring \<Rightarrow> FileSystemSandboxPolicy" where
  "legacy_runtime_file_system_policy_for_cwd h sandbox_policy cwd =
     (case sandbox_policy of
        WorkspaceWrite writable_roots _ exclude_tmpdir_env_var exclude_slash_tmp \<Rightarrow>
          restricted (protect_workspace h writable_roots cwd
            (workspace_entries writable_roots exclude_tmpdir_env_var exclude_slash_tmp))
      | _ \<Rightarrow> from_sandbox_policy h sandbox_policy)"

definition with_legacy_root :: "sandbox_host \<Rightarrow> path \<Rightarrow> FileSystemSandboxPolicy \<Rightarrow> FileSystemSandboxPolicy" where
  "with_legacy_root h p policy =
     (let policy = (if list_ex (\<lambda>e. can_write (access e) \<and> entry_path e = PathEntry p) (sandbox_entries policy)
                    then policy else push_entry (new_entry (PathEntry p) Write) policy)
      in policy\<lparr>sandbox_entries := protect_root h False p (sandbox_entries policy)\<rparr>)"

definition with_additional_legacy_workspace_writable_roots ::
    "sandbox_host \<Rightarrow> FileSystemSandboxPolicy \<Rightarrow> path list \<Rightarrow> FileSystemSandboxPolicy" where
  "with_additional_legacy_workspace_writable_roots h p roots =
     (if sandbox_kind p \<noteq> Restricted then p else fold (with_legacy_root h) roots p)"

record legacy_scan =
  workspace_root_writable :: bool
  writable_roots :: "path list"
  tmpdir_writable :: bool
  slash_tmp_writable :: bool
  unbridgeable_root_write :: bool

definition scan_entry :: "sandbox_host \<Rightarrow> path option \<Rightarrow> legacy_scan \<Rightarrow> FileSystemSandboxEntry \<Rightarrow> legacy_scan" where
  "scan_entry h cwd_absolute st e =
     (case entry_path e of
        GlobPattern _ \<Rightarrow> st
      | PathEntry p \<Rightarrow>
          if \<not> can_write (access e) then st
          else if cwd_absolute = Some p then st\<lparr>workspace_root_writable := True\<rparr>
          else st\<lparr>writable_roots := writable_roots st @ [p]\<rparr>
      | Special value \<Rightarrow>
          (case value of
             SpecialRoot \<Rightarrow> if access e = Write then st\<lparr>unbridgeable_root_write := True\<rparr> else st
           | ProjectRoots sub \<Rightarrow>
               if sub = None \<and> can_write (access e) then st\<lparr>workspace_root_writable := True\<rparr>
               else (case resolve_file_system_special_path h value cwd_absolute of
                       Some p \<Rightarrow> if can_write (access e) then st\<lparr>writable_roots := writable_roots st @ [p]\<rparr> else st
                     | None \<Rightarrow> st)
           | Tmpdir \<Rightarrow> if can_write (access e) then st\<lparr>tmpdir_writable := True\<rparr> else st
           | SlashTmp \<Rightarrow> if can_write (access e) then st\<lparr>slash_tmp_writable := True\<rparr> else st
           | _ \<Rightarrow> st))"

definition UNBRIDGEABLE_MESSAGE :: ustring where
  "UNBRIDGEABLE_MESSAGE = str ''permissions profile requests filesystem writes outside the workspace root, which is not supported until the runtime enforces FileSystemSandboxPolicy directly''"

definition to_legacy_sandbox_policy ::
    "sandbox_host \<Rightarrow> FileSystemSandboxPolicy \<Rightarrow> NetworkSandboxPolicy \<Rightarrow> ustring \<Rightarrow> (SandboxPolicy, io_error) result" where
  "to_legacy_sandbox_policy h p network_policy cwd =
     (case sandbox_kind p of
        ExternalSandbox \<Rightarrow>
          Ok (ExternalSandboxPolicy (if is_enabled network_policy then NetworkAccessEnabled else NetworkAccessRestricted))
      | Unrestricted \<Rightarrow>
          Ok (if is_enabled network_policy then DangerFullAccess else ExternalSandboxPolicy NetworkAccessRestricted)
      | Restricted \<Rightarrow>
          (let st = foldl (scan_entry h (result_ok (from_absolute_path (host h) cwd)))
                 \<lparr>workspace_root_writable = False, writable_roots = [], tmpdir_writable = False,
                  slash_tmp_writable = False, unbridgeable_root_write = False\<rparr> (sandbox_entries p)
           in if has_full_disk_write_access p
              then Ok (if is_enabled network_policy then DangerFullAccess else ExternalSandboxPolicy NetworkAccessRestricted)
              else if workspace_root_writable st
              then Ok (WorkspaceWrite (dedup_absolute_paths h (writable_roots st) False) (is_enabled network_policy)
                         (\<not> tmpdir_writable st) (\<not> slash_tmp_writable st))
              else if unbridgeable_root_write st \<or> writable_roots st \<noteq> [] \<or> tmpdir_writable st \<or> slash_tmp_writable st
              then Err \<lparr>io_kind = InvalidInput, io_message = UNBRIDGEABLE_MESSAGE\<rparr>
              else Ok (ReadOnly (is_enabled network_policy))))"

section \<open>Roots for the sandboxes\<close>

definition get_readable_roots_with_cwd :: "sandbox_host \<Rightarrow> FileSystemSandboxPolicy \<Rightarrow> ustring \<Rightarrow> path list" where
  "get_readable_roots_with_cwd h p cwd =
     (if has_full_disk_read_access p then []
      else dedup_absolute_paths h
             (map resolved_path
               (filter (\<lambda>e. can_read (resolved_access e) \<and> can_read_path_with_cwd h p (render_path (resolved_path e)) cwd)
                  (resolved_entries_with_cwd h p cwd))) True)"

definition protected_metadata_names_for_writable_root ::
    "sandbox_host \<Rightarrow> FileSystemSandboxPolicy \<Rightarrow> path \<Rightarrow> path list \<Rightarrow> ustring \<Rightarrow> ustring list" where
  "protected_metadata_names_for_writable_root h p r raw_writable_roots cwd =
     filter (\<lambda>name.
         list_all (\<lambda>q. \<not> can_write_path_with_cwd h p (render_path q) cwd)
           (abs_join (host h) r name # map (\<lambda>raw. abs_join (host h) raw name) raw_writable_roots))
       PROTECTED_METADATA_PATH_NAMES"

definition has_explicit_resolved_path_entry :: "ResolvedFileSystemEntry list \<Rightarrow> path \<Rightarrow> bool" where
  "has_explicit_resolved_path_entry entries p \<longleftrightarrow> list_ex (\<lambda>e. resolved_path e = p) entries"

definition raw_carveout_path :: "sandbox_host \<Rightarrow> path \<Rightarrow> path list \<Rightarrow> path \<Rightarrow> path option" where
  "raw_carveout_path h r raw_writable_roots p =
     (if path_parent r = None then None
      else if p = r then None
      else if prefix r p then Some p
      else find_map (\<lambda>raw_root.
             if \<not> prefix raw_root p then None
             else if drop (length raw_root) p = [] then None
             else Some (abs_join (host h) r (render_path (drop (length raw_root) p)))) raw_writable_roots)"

definition carveout :: "sandbox_host \<Rightarrow> path \<Rightarrow> path list \<Rightarrow> path \<Rightarrow> path option" where
  "carveout h r raw_writable_roots p =
     (let effective_path = normalize_effective_absolute_path h p
      in case raw_carveout_path h r raw_writable_roots p of
           Some raw \<Rightarrow> Some raw
         | None \<Rightarrow> if effective_path = r \<or> \<not> prefix r effective_path then None else Some effective_path)"

definition writable_entries :: "sandbox_host \<Rightarrow> FileSystemSandboxPolicy \<Rightarrow> ustring \<Rightarrow> path list" where
  "writable_entries h p cwd =
     map resolved_path
       (filter (\<lambda>e. can_write (resolved_access e) \<and> can_write_path_with_cwd h p (render_path (resolved_path e)) cwd)
          (resolved_entries_with_cwd h p cwd))"

definition writable_root_of :: "sandbox_host \<Rightarrow> FileSystemSandboxPolicy \<Rightarrow> ustring \<Rightarrow> path \<Rightarrow> WritableRoot" where
  "writable_root_of h p cwd r =
     (let resolved_entries = resolved_entries_with_cwd h p cwd;
          raw_writable_roots = filter (\<lambda>q. normalize_effective_absolute_path h q = r) (writable_entries h p cwd);
          protect_missing_dot_codex =
            is_some_and (result_ok (from_absolute_path (host h) cwd)) (\<lambda>c. normalize_effective_absolute_path h c = r);
          defaults = filter (\<lambda>q. \<not> has_explicit_resolved_path_entry resolved_entries q)
            (default_read_only_subpaths_for_writable_root h r protect_missing_dot_codex);
          carveouts = List.map_filter (\<lambda>e. carveout h r raw_writable_roots (resolved_path e))
            (filter (\<lambda>e. \<not> can_write (resolved_access e) \<and> \<not> can_write_path_with_cwd h p (render_path (resolved_path e)) cwd)
               resolved_entries)
      in \<lparr>root = r,
          read_only_subpaths = dedup_absolute_paths h (defaults @ carveouts) False,
          protected_metadata_names = protected_metadata_names_for_writable_root h p r raw_writable_roots cwd\<rparr>)"

definition get_writable_roots_with_cwd :: "sandbox_host \<Rightarrow> FileSystemSandboxPolicy \<Rightarrow> ustring \<Rightarrow> WritableRoot list" where
  "get_writable_roots_with_cwd h p cwd =
     (if has_full_disk_write_access p then []
      else map (writable_root_of h p cwd) (dedup_absolute_paths h (writable_entries h p cwd) True))"

definition get_unreadable_roots_with_cwd :: "sandbox_host \<Rightarrow> FileSystemSandboxPolicy \<Rightarrow> ustring \<Rightarrow> path list" where
  "get_unreadable_roots_with_cwd h p cwd =
     (if sandbox_kind p \<noteq> Restricted then []
      else
        (let r = Option.bind (result_ok (from_absolute_path (host h) cwd)) (absolute_root_path_for_cwd h)
         in dedup_absolute_paths h
              (map resolved_path
                (filter (\<lambda>e. resolved_access e = Deny \<and> \<not> can_read_path_with_cwd h p (render_path (resolved_path e)) cwd
                           \<and> r \<noteq> Some (resolved_path e)) (resolved_entries_with_cwd h p cwd))) True))"

definition get_unreadable_globs_with_cwd :: "sandbox_host \<Rightarrow> FileSystemSandboxPolicy \<Rightarrow> ustring \<Rightarrow> ustring list" where
  "get_unreadable_globs_with_cwd h p cwd =
     (if sandbox_kind p \<noteq> Restricted then []
      else
        remdups_adj (sort
          (List.map_filter
             (\<lambda>e. case entry_path e of
                GlobPattern pattern \<Rightarrow>
                  if access e = Deny
                  then Some (render_path (resolve_path_against_base (host h) pattern (path_components cwd))) else None
              | _ \<Rightarrow> None) (sandbox_entries p))))"

section \<open>A host without symlinks\<close>

text \<open>What is used of canonicalisation: on a host without symlinks it leaves absolute paths alone.\<close>

definition no_symlinks :: "sandbox_host \<Rightarrow> bool" where
  "no_symlinks h \<longleftrightarrow> (\<forall>q r. abs_path q \<longrightarrow> canonical_path h (render_path q) = Ok r \<longrightarrow> r = q)"

lemma ancestor_prefix: "a \<in> set (path_ancestors p) \<Longrightarrow> prefix a p"
proof (induction p rule: path_ancestors.induct)
  case (1 p)
  then show ?case
    by (auto simp: path_ancestors.simps [of p] path_parent_def split: option.splits if_splits)
      (metis prefix_order.trans prefixeq_butlast)
qed

lemma join_rest:
  assumes "abs_path p" "prefix a p" "abs_path a"
  shows "path_join a (drop (length a) p) = p"
proof -
  obtain rest where p: "p = a @ rest" using assms(2) by (auto simp: prefix_def)
  have "list_all normal_ok rest" using assms(1,3) p by (cases a) (auto simp: abs_path_def split: path_component.splits)
  then have "filter (\<lambda>c. c \<noteq> CurDir) rest = rest" "\<not> is_absolute rest"
    by (auto simp: filter_id_conv list_all_iff is_absolute_def first_opt_eq_Some)
  then show ?thesis using assms(3) by (auto simp: p path_join_def abs_path_def)
qed

lemma normalize_loop_id:
  assumes "no_symlinks h" "abs_path p" "list_all abs_path as" "\<forall>a \<in> set as. prefix a p"
  shows "normalize_loop h p as = p"
  using assms(3,4)
proof (induction as)
  case (Cons a as)
  have a: "abs_path a" "prefix a p" using Cons by simp_all
  have "canonicalize_preserving_symlinks (host h) (symlink_at h) (canonical_path h) (render_path a) = Ok a"
    using assms(1) a(1)
    by (cases "canonical_path h (render_path a)")
      (auto simp: canonicalize_preserving_symlinks_def from_absolute_path_render no_symlinks_def)
  then show ?case using Cons by (simp add: join_rest [OF assms(2) a(2,1)] from_absolute_path_render [OF assms(2)])
qed simp

lemma normalize_effective_id:
  "no_symlinks h \<Longrightarrow> abs_path p \<Longrightarrow> normalize_effective_absolute_path h p = p"
  unfolding normalize_effective_absolute_path_def
  using normalize_loop_id path_ancestors_abs ancestor_prefix by blast

lemma dedup_set_gen:
  "set (foldl (\<lambda>deduped p. let q = f p in if q \<in> set deduped then deduped else deduped @ [q]) acc ps) = set acc \<union> f ` set ps"
  by (induction ps arbitrary: acc) (auto simp: Let_def)

lemma dedup_distinct_gen:
  "distinct acc \<Longrightarrow> distinct (foldl (\<lambda>deduped p. let q = f p in if q \<in> set deduped then deduped else deduped @ [q]) acc ps)"
  by (induction ps arbitrary: acc) (auto simp: Let_def)

lemma dedup_id_gen:
  "distinct (acc @ ps) \<Longrightarrow> foldl (\<lambda>deduped p. let q = p in if q \<in> set deduped then deduped else deduped @ [q]) acc ps = acc @ ps"
  by (induction ps arbitrary: acc) auto

lemma dedup_set: "set (dedup_absolute_paths h ps False) = set ps"
  using dedup_set_gen [of "\<lambda>p. p" "[]" ps] by (simp add: dedup_absolute_paths_def)

lemma dedup_id: "distinct ps \<Longrightarrow> dedup_absolute_paths h ps False = ps"
  using dedup_id_gen [of "[]" ps] by (simp add: dedup_absolute_paths_def)

lemma dedup_set_effective:
  assumes "no_symlinks h" "list_all abs_path ps"
  shows "set (dedup_absolute_paths h ps True) = set ps"
proof -
  have "normalize_effective_absolute_path h q = q" if "q \<in> set ps" for q
    using assms(2) that by (auto simp: list_all_iff intro: normalize_effective_id [OF assms(1)])
  then have "normalize_effective_absolute_path h ` set ps = set ps" by (simp cong: image_cong_simp)
  then show ?thesis
    using dedup_set_gen [of "normalize_effective_absolute_path h" "[]" ps] by (simp add: dedup_absolute_paths_def)
qed

section \<open>Writable roots and the policy\<close>

lemma writable_entries_in:
  "r \<in> set (writable_entries h p cwd) \<longleftrightarrow>
     (\<exists>e \<in> set (resolved_entries_with_cwd h p cwd). resolved_path e = r \<and> resolved_access e = Write
        \<and> can_write_path_with_cwd h p (render_path r) cwd)"
  by (auto simp: writable_entries_def can_write_def)

lemma writable_root_in:
  assumes "host_ok (host h)" "policy_ok p" "no_symlinks h" "w \<in> set (get_writable_roots_with_cwd h p cwd)"
  shows "w = writable_root_of h p cwd (root w)" "root w \<in> set (writable_entries h p cwd)"
    "\<not> has_full_disk_write_access p"
proof -
  have abs: "list_all abs_path (writable_entries h p cwd)"
    using resolved_abs [OF assms(1,2)] by (auto simp: list_all_iff writable_entries_in)
  have root: "root (writable_root_of h p cwd r) = r" for r by (simp add: writable_root_of_def Let_def)
  show "\<not> has_full_disk_write_access p" "w = writable_root_of h p cwd (root w)" "root w \<in> set (writable_entries h p cwd)"
    using assms(4) dedup_set_effective [OF assms(3) abs] root
    by (auto simp: get_writable_roots_with_cwd_def split: if_splits)
qed

lemma carveout_below:
  assumes "no_symlinks h" "abs_path p" "prefix r p" "p \<noteq> r"
  shows "carveout h r raws p = Some p"
  using assms by (simp add: carveout_def raw_carveout_path_def normalize_effective_id Let_def)

lemma decided_at_own_path:
  assumes "d \<in> set es" "prefix (resolved_path d) t" "Max (keys_at es t) = resolved_entry_precedence d"
  shows "entries_access es (resolved_path d) = resolved_access d"
proof -
  have sub: "keys_at es (resolved_path d) \<subseteq> keys_at es t" using assms(2) by (auto simp: keys_at_def intro: prefix_order.trans)
  have own: "resolved_entry_precedence d \<in> keys_at es (resolved_path d)" using assms(1) by (auto simp: keys_at_def)
  have "k \<le> resolved_entry_precedence d" if "k \<in> keys_at es t" for k
    unfolding assms(3) [symmetric] using that by (rule Max_ge [OF finite_keys_at])
  with sub own have "Max (keys_at es (resolved_path d)) = resolved_entry_precedence d"
    by (intro Max_eqI [OF finite_keys_at]) blast+
  with own show ?thesis by (auto simp: entries_access_Max resolved_entry_precedence_def)
qed

lemma carveout_is_read_only:
  assumes ok: "host_ok (host h)" "policy_ok p" "no_symlinks h"
    and d: "d \<in> set (resolved_entries_with_cwd h p cwd)" "\<not> can_write (resolved_access d)"
      "\<not> can_write_path_with_cwd h p (render_path (resolved_path d)) cwd"
    and below: "prefix r (resolved_path d)" "resolved_path d \<noteq> r"
  shows "resolved_path d \<in> set (read_only_subpaths (writable_root_of h p cwd r))"
proof -
  have "abs_path (resolved_path d)" using resolved_abs [OF ok(1,2) d(1)] .
  then have "carveout h r raws (resolved_path d) = Some (resolved_path d)" for raws
    using carveout_below [OF ok(3) _ below] by blast
  then show ?thesis using d by (force simp: writable_root_of_def Let_def dedup_set map_filter_in)
qed

lemma root_access_write:
  assumes ok: "host_ok (host h)" "policy_ok p" "no_symlinks h" and kind: "sandbox_kind p = Restricted"
    and r: "r \<in> set (writable_entries h p cwd)" and t: "is_path_writable (writable_root_of h p cwd r) t"
  shows "entries_access (resolved_entries_with_cwd h p cwd) t = Write"
proof -
  let ?es = "resolved_entries_with_cwd h p cwd"
  obtain e where e: "e \<in> set ?es" "resolved_path e = r" "resolved_access e = Write"
    "can_write_path_with_cwd h p (render_path r) cwd" using r by (auto simp: writable_entries_in)
  have rt: "prefix r t" using t by (auto simp: is_path_writable_def writable_root_of_def Let_def split: if_splits)
  have abs: "abs_path r" using resolved_abs [OF ok(1,2) e(1)] e(2) by simp
  have at_r: "entries_access ?es r = Write" using e(4) kind by (simp add: can_write_at [OF candidate_render [OF abs]])
  have ne: "keys_at ?es t \<noteq> {}" using e(1,2) rt by (auto simp: keys_at_def)
  then have "Max (keys_at ?es t) \<in> keys_at ?es t" by simp
  then obtain d where d: "d \<in> set ?es" "prefix (resolved_path d) t" "Max (keys_at ?es t) = resolved_entry_precedence d"
    by (auto simp: keys_at_def)
  have own: "entries_access ?es (resolved_path d) = resolved_access d" using decided_at_own_path [OF d] .
  have access: "entries_access ?es t = resolved_access d"
    using ne d(3) by (simp add: entries_access_Max resolved_entry_precedence_def)
  have longer: "length r \<le> length (resolved_path d)"
  proof -
    have "resolved_entry_precedence e \<in> keys_at ?es t" using e(1,2) rt by (auto simp: keys_at_def)
    then have "resolved_entry_precedence e \<le> resolved_entry_precedence d"
      unfolding d(3) [symmetric] by (rule Max_ge [OF finite_keys_at])
    then show ?thesis using e(2) by (auto simp: resolved_entry_precedence_def less_eq_prod_def)
  qed
  show ?thesis
  proof (rule ccontr)
    assume no: "entries_access ?es t \<noteq> Write"
    then have "resolved_path d \<noteq> r" using own access at_r by auto
    moreover have "prefix r (resolved_path d)" using prefixes_shorter [OF rt d(2) longer] .
    moreover have "\<not> can_write_path_with_cwd h p (render_path (resolved_path d)) cwd"
      using no own access kind by (simp add: can_write_at [OF candidate_render [OF resolved_abs [OF ok(1,2) d(1)]]])
    ultimately have "resolved_path d \<in> set (read_only_subpaths (writable_root_of h p cwd r))"
      using carveout_is_read_only [OF ok d(1)] no access by (simp add: can_write_def)
    with d(2) t show False by (auto simp: is_path_writable_def list_ex_iff split: if_splits)
  qed
qed

lemma find_map_restrict:
  assumes "\<forall>e \<in> set es. g e = (case f e of Some y \<Rightarrow> if P y then Some y else None | None \<Rightarrow> None)"
    "find_map f es = Some y" "P y"
  shows "find_map g es = Some y"
  using assms by (induction es) (auto split: option.splits if_splits)

lemma metadata_child_restrict:
  assumes "abs_path t" "abs_path q" "abs_path (resolved_path e)" "prefix q t"
  shows "metadata_child h q e =
    (case metadata_child h t e of Some y \<Rightarrow> if prefix (fst y) q then Some y else None | None \<Rightarrow> None)"
proof (cases "metadata_child h q e")
  case (Some y)
  then have y: "can_write (resolved_access e) \<and> snd y \<in> set PROTECTED_METADATA_PATH_NAMES
      \<and> fst y = resolved_path e @ [Normal (snd y)]" "prefix (fst y) q"
    using metadata_child_Some [OF assms(2,3), of h "fst y" "snd y"] unfolding prod.collapse by blast+
  have "prefix (fst y) t" using prefix_order.trans [OF y(2) assms(4)] .
  then have "metadata_child h t e = Some (fst y, snd y)" using metadata_child_Some [OF assms(1,3)] y(1) by blast
  then show ?thesis using Some y(2) by simp
next
  case None
  then show ?thesis
    using metadata_child_Some [OF assms(2,3), of h] metadata_child_Some [OF assms(1,3), of h]
    by (auto split: option.splits)
qed

lemma metadata_child_in_writable_root:
  assumes ok: "host_ok (host h)" "policy_ok p" "no_symlinks h" and restricted: "sandbox_kind p = Restricted"
    "\<not> has_full_disk_write_access p"
    and abs: "abs_path t" and first: "find_map (metadata_child h t) (resolved_entries_with_cwd h p cwd) = Some (r @ [Normal n], n)"
    and n: "n \<in> set PROTECTED_METADATA_PATH_NAMES" "prefix (r @ [Normal n]) t" "abs_path r"
    and t: "is_path_writable (writable_root_of h p cwd r) t"
  shows "\<not> entries_deny_metadata h (resolved_entries_with_cwd h p cwd) t"
proof -
  let ?es = "resolved_entries_with_cwd h p cwd" and ?q = "r @ [Normal n]"
  have es: "\<forall>e \<in> set ?es. abs_path (resolved_path e)" using resolved_abs [OF ok(1,2)] by blast
  have q: "abs_path ?q" using n(1,3) metadata_names by (cases r) (auto simp: abs_path_def split: path_component.splits)
  have raws: "set (filter (\<lambda>q. normalize_effective_absolute_path h q = r) (writable_entries h p cwd)) \<subseteq> {r}"
    using es normalize_effective_id [OF ok(3)] by (auto simp: writable_entries_in)
  have "n \<notin> set (protected_metadata_names (writable_root_of h p cwd r))"
    using t n(2) by (auto simp: is_path_writable_def path_contains_protected_metadata_name_def writable_root_of_def
        Let_def prefix_def list_ex_iff split: if_splits)
  then have "can_write_path_with_cwd h p (render_path ?q) cwd"
    using raws n(1) abs_join_name [OF n(3)] metadata_names
    by (auto simp: writable_root_of_def Let_def protected_metadata_names_for_writable_root_def list_all_iff subset_iff)
  then have allowed: "\<not> entries_deny_metadata h ?es ?q"
    using restricted by (simp add: can_write_at [OF candidate_render [OF q]])
  have "find_map (metadata_child h ?q) ?es = Some (?q, n)"
    by (rule find_map_restrict [OF _ first, where P = "\<lambda>y. prefix (fst y) ?q"])
      (use metadata_child_restrict [OF abs q] es n(2) in auto)
  then obtain e where e: "e \<in> set ?es" "can_write (resolved_access e)" "prefix (resolved_path e) ?q" "prefix ?q (resolved_path e)"
    using allowed by (auto simp: entries_deny_metadata_def list_ex_iff simp del: prefix_snoc)
  with prefix_order.antisym [OF e(3,4)] show ?thesis
    using first n(2) by (auto simp: entries_deny_metadata_def list_ex_iff intro!: bexI [of _ e])
qed

text \<open>
  C37: On a host without symlinks, every path that one of the writable roots handed out calls writable can
  be written under the policy, apart from the metadata of another writable root that lies inside it.
\<close>

theorem writable_roots_sound:
  assumes "host_ok (host h)" "policy_ok p" "no_symlinks h" "abs_path t"
    "w \<in> set (get_writable_roots_with_cwd h p cwd)" "is_path_writable w t"
  shows "can_write_path_with_cwd h p (render_path t) cwd
    \<or> (\<exists>e \<in> set (resolved_entries_with_cwd h p cwd). \<exists>n \<in> set PROTECTED_METADATA_PATH_NAMES.
         can_write (resolved_access e) \<and> strict_prefix (root w) (resolved_path e)
         \<and> prefix (resolved_path e @ [Normal n]) t)"
proof (cases "sandbox_kind p = Restricted")
  case True
  let ?es = "resolved_entries_with_cwd h p cwd"
  note w = writable_root_in [OF assms(1-3,5)]
  have writable: "is_path_writable (writable_root_of h p cwd (root w)) t" using assms(6) w(1) by simp
  have rt: "prefix (root w) t" using assms(6) by (simp add: is_path_writable_def split: if_splits)
  obtain f where f: "f \<in> set ?es" "resolved_path f = root w" "can_write (resolved_access f)"
    using w(2) by (auto simp: writable_entries_in can_write_def)
  have abs: "\<forall>e \<in> set ?es. abs_path (resolved_path e)" using resolved_abs [OF assms(1,2)] by blast
  note access = root_access_write [OF assms(1-3) True w(2) writable]
  show ?thesis
  proof (cases "entries_deny_metadata h ?es t")
    case True
    then obtain q n where q: "find_map (metadata_child h t) ?es = Some (q, n)"
      and explicit: "\<And>e. e \<in> set ?es \<Longrightarrow> can_write (resolved_access e) \<Longrightarrow> prefix (resolved_path e) t \<Longrightarrow> \<not> prefix q (resolved_path e)"
      by (auto simp: entries_deny_metadata_def list_ex_iff split: option.splits)
    obtain e where e: "e \<in> set ?es" "metadata_child h t e = Some (q, n)" using find_map_Some_in [OF q] by blast
    have child: "can_write (resolved_access e)" "n \<in> set PROTECTED_METADATA_PATH_NAMES" "q = resolved_path e @ [Normal n]" "prefix q t"
      using e abs metadata_child_Some [OF assms(4), of e h q n] by blast+
    have et: "prefix (resolved_path e) t" using child(3,4) append_prefixD by blast
    consider (outer) "length (resolved_path e) < length (root w)" | (same) "resolved_path e = root w"
      | (inner) "length (root w) < length (resolved_path e)"
      using prefixes_same_length [OF et rt] by linarith
    then show ?thesis
    proof cases
      case outer
      then have "prefix q (root w)" using prefixes_shorter [OF child(4) rt] child(3) by simp
      then show ?thesis using explicit [OF f(1,3)] f(2) rt by simp
    next
      case same
      have "\<not> entries_deny_metadata h ?es t"
        by (rule metadata_child_in_writable_root [OF assms(1-3) \<open>sandbox_kind p = Restricted\<close> w(3) assms(4) _ child(2) _ _ writable])
          (use q child same e(1) abs in auto)
      with True show ?thesis by blast
    next
      case inner
      then have "strict_prefix (root w) (resolved_path e)" using prefixes_shorter [OF rt et] by (auto simp: strict_prefix_def)
      then show ?thesis using e(1) child by blast
    qed
  next
    case False
    then show ?thesis using access True by (simp add: can_write_at [OF candidate_render [OF assms(4)]])
  qed
next
  case False
  then show ?thesis by (simp add: can_write_at [OF candidate_render [OF assms(4)]])
qed

text \<open>
  The exception is real: with a writable root and another one inside it, the outer root calls the
  metadata of the inner one writable, while the policy does not let it be written.
\<close>

theorem nested_root_metadata_disagrees:
  assumes "host_ok (host h)" "no_symlinks h" "abs_path w" "component_ok (Normal n)" "component_ok (Normal m)"
    "n \<notin> set PROTECTED_METADATA_PATH_NAMES" "\<not> is_file h (w @ [Normal (str ''.git'')])"
    "p = restricted [new_entry (PathEntry w) Write, new_entry (PathEntry (w @ [Normal n])) Write]"
    "t = w @ [Normal n, Normal (str ''.git''), Normal m]"
  shows "\<not> can_write_path_with_cwd h p (render_path t) cwd
    \<and> (\<exists>r \<in> set (get_writable_roots_with_cwd h p cwd). root r = w \<and> is_path_writable r t)"
proof -
  let ?git = "Normal (str ''.git'')"
  let ?o = "\<lparr>resolved_path = w, resolved_access = Write\<rparr>" and ?i = "\<lparr>resolved_path = w @ [Normal n], resolved_access = Write\<rparr>"
  have git: "str ''.git'' \<in> set PROTECTED_METADATA_PATH_NAMES" "component_ok ?git"
    by (simp_all add: PROTECTED_METADATA_PATH_NAMES_def str_def)
  have abs: "abs_path t" "abs_path (w @ [Normal n])"
    using assms(3-5,9) git(2) by (cases w; auto simp: abs_path_def split: path_component.splits)+
  have kind: "sandbox_kind p = Restricted" "\<not> has_full_disk_write_access p"
    by (simp_all add: assms(8) has_full_disk_write_access_def has_root_access_def restricted_def new_entry_def)
  have es: "resolved_entries_with_cwd h p cwd = [?o, ?i]"
    by (simp add: assms(8) resolved_entries_with_cwd_def restricted_def new_entry_def resolve_entry_path_def
        resolve_file_system_path_def List.map_filter_def)
  have child: "metadata_child h t ?o = None" "metadata_child h t ?i = Some (w @ [Normal n, ?git], str ''.git'')"
    using metadata_child_Some [OF abs(1), of ?o] metadata_child_Some [OF abs(1), of ?i] assms(3,6,9) abs(2) git(1)
    by (auto simp: can_write_def intro: option.exhaust [of "metadata_child h t ?o"])
  have no: "entries_deny_metadata h [?o, ?i] t" using child by (simp add: entries_deny_metadata_def)
  have denied: "\<not> can_write_path_with_cwd h p (render_path t) cwd"
    using kind no by (simp add: can_write_at [OF candidate_render [OF abs(1)]] es)
  have at_w: "metadata_child h w e = None" if "e \<in> {?o, ?i}" for e
    using that by (auto simp: metadata_child_def)
  have "entries_access [?o, ?i] w = Write" by (simp add: entries_access_def max_by_key_def)
  then have "can_write_path_with_cwd h p (render_path w) cwd"
    using at_w by (simp add: can_write_at [OF candidate_render [OF assms(3)]] es entries_deny_metadata_def)
  then have "w \<in> set (writable_entries h p cwd)" by (auto simp: writable_entries_in es)
  moreover have "list_all abs_path (writable_entries h p cwd)"
    using assms(3) abs(2) by (auto simp: list_all_iff writable_entries_in es)
  ultimately have root: "writable_root_of h p cwd w \<in> set (get_writable_roots_with_cwd h p cwd)"
    using kind(2) dedup_set_effective [OF assms(2)] by (simp add: get_writable_roots_with_cwd_def)
  have join: "abs_join (host h) w a = w @ [Normal a]" if "a \<in> {str ''.git'', str ''.agents'', str ''.codex''}" for a
    by (rule abs_join_name [OF assms(3)]) (use that metadata_names in \<open>auto simp: PROTECTED_METADATA_PATH_NAMES_def\<close>)
  have "is_path_writable (writable_root_of h p cwd w) t"
    using assms(6,7)
    by (auto simp: is_path_writable_def writable_root_of_def Let_def dedup_set es can_write_def join assms(9)
        default_read_only_subpaths_for_writable_root_def list_ex_iff path_contains_protected_metadata_name_def
        protected_metadata_names_for_writable_root_def PROTECTED_METADATA_PATH_NAMES_def List.map_filter_def split: if_splits)
  with denied root show ?thesis by (force simp: writable_root_of_def Let_def)
qed

section \<open>Instances\<close>

lemma sample_host_plain: "no_symlinks sample_host" "host_ok (host sample_host)"
  by (auto simp: no_symlinks_def sample_host_def path_components_render abs_path_wf) code_simp

theorem writable_roots_sound_witness:
  "can_write_path_with_cwd sample_host sample_policy (str ''/work/repo/a/b'') (str ''/work/repo'')"
proof -
  let ?t = "path_components (str ''/work/repo/a/b'')"
  let ?roots = "get_writable_roots_with_cwd sample_host sample_policy (str ''/work/repo'')"
  have hyps: "policy_ok sample_policy" "abs_path ?t" "list_ex (\<lambda>w. is_path_writable w ?t) ?roots"
    "render_path ?t = str ''/work/repo/a/b''" by code_simp+
  then obtain w where w: "w \<in> set ?roots" "is_path_writable w ?t" by (auto simp: list_ex_iff)
  have "\<not> list_ex (\<lambda>e. list_ex (\<lambda>n. prefix (resolved_path e @ [Normal n]) ?t) PROTECTED_METADATA_PATH_NAMES)
      (resolved_entries_with_cwd sample_host sample_policy (str ''/work/repo''))" by code_simp
  then show ?thesis
    using writable_roots_sound [OF sample_host_plain(2) hyps(1) sample_host_plain(1) hyps(2) w] hyps(4)
    by (auto simp: list_ex_iff)
qed

theorem nested_root_metadata_disagrees_witness:
  "\<exists>p. \<not> can_write_path_with_cwd sample_host p (str ''/w/sub/.git/config'') (str ''/w'')
     \<and> (\<exists>r \<in> set (get_writable_roots_with_cwd sample_host p (str ''/w'')).
          root r = path_components (str ''/w'') \<and> is_path_writable r (path_components (str ''/w/sub/.git/config'')))"
proof -
  have hyps: "abs_path (path_components (str ''/w''))" "component_ok (Normal (str ''sub''))"
    "component_ok (Normal (str ''config''))" "str ''sub'' \<notin> set PROTECTED_METADATA_PATH_NAMES"
    "\<not> is_file sample_host (path_components (str ''/w'') @ [Normal (str ''.git'')])"
    "path_components (str ''/w/sub/.git/config'') =
       path_components (str ''/w'') @ [Normal (str ''sub''), Normal (str ''.git''), Normal (str ''config'')]"
    "render_path (path_components (str ''/w/sub/.git/config'')) = str ''/w/sub/.git/config''" by code_simp+
  show ?thesis
    using nested_root_metadata_disagrees [OF sample_host_plain(2,1) hyps(1-5) refl hyps(6), of "str ''/w''"] hyps(7)
    by auto
qed

end
