(* ===== verification/Sandbox_Profile.thy ===== *)
theory Sandbox_Profile
  imports Sandbox_Roots
begin

text \<open>
  Comparing sandbox policies and matching denied reads (\<open>protocol/src/permissions.rs\<close>), and the permission
  profile of \<open>models.rs\<close> that carries a policy, with the approval modes of \<open>protocol.rs\<close>. The glob compiler
  is an argument.

  Lemmas: the matcher covers what the policy denies and fails closed, and restricting a profile to
  reading keeps exactly what could be read.
\<close>

section \<open>Comparing policies\<close>

definition sandbox_policy_roots :: "sandbox_host \<Rightarrow> SandboxPolicy \<Rightarrow> ustring \<Rightarrow> path list" where
  "sandbox_policy_roots h p cwd =
     (case p of
        WorkspaceWrite roots _ exclude_tmpdir_env_var exclude_slash_tmp \<Rightarrow>
          roots
          @ (case from_absolute_path (host h) cwd of Ok c \<Rightarrow> [c] | Err _ \<Rightarrow> [])
          @ (if exclude_slash_tmp then []
             else (case from_absolute_path (host h) (str ''/tmp'') of
                     Ok slash_tmp \<Rightarrow> if is_dir h slash_tmp then [slash_tmp] else [] | Err _ \<Rightarrow> []))
          @ (if exclude_tmpdir_env_var then []
             else (case tmpdir_var h of
                     Some tmpdir \<Rightarrow>
                       if tmpdir = [] then []
                       else (case from_absolute_path (host h) tmpdir of Ok t \<Rightarrow> [t] | Err _ \<Rightarrow> [])
                   | None \<Rightarrow> []))
      | _ \<Rightarrow> [])"

definition sandbox_policy_writable_roots :: "sandbox_host \<Rightarrow> SandboxPolicy \<Rightarrow> ustring \<Rightarrow> WritableRoot list" where
  "sandbox_policy_writable_roots h p cwd =
     map (\<lambda>writable_root.
         let protect_missing_dot_codex = is_some_and (result_ok (from_absolute_path (host h) cwd)) (\<lambda>c. c = writable_root)
         in \<lparr>root = writable_root,
             read_only_subpaths = default_read_only_subpaths_for_writable_root h writable_root protect_missing_dot_codex,
             protected_metadata_names = []\<rparr>)
       (sandbox_policy_roots h p cwd)"

text \<open>Components are ordered as in the standard library: the root, then \<open>.\<close>, \<open>..\<close> and names.\<close>

fun component_key :: "path_component \<Rightarrow> ustring" where
  "component_key RootDir = [0]"
| "component_key CurDir = [1]"
| "component_key ParentDir = [2]"
| "component_key (Normal w) = 3 # w"

definition path_key :: "path \<Rightarrow> ustring list" where
  "path_key p = map component_key p"

definition sorted_absolute_paths :: "path list \<Rightarrow> path list" where
  "sorted_absolute_paths = sort_key path_key"

definition sorted_writable_roots :: "WritableRoot list \<Rightarrow> WritableRoot list" where
  "sorted_writable_roots roots =
     sort_key (\<lambda>w. path_key (root w))
       (map (\<lambda>w. w\<lparr>read_only_subpaths := sorted_absolute_paths (read_only_subpaths w),
                  protected_metadata_names := remdups_adj (sort (protected_metadata_names w))\<rparr>) roots)"

record FileSystemSemanticSignature =
  sig_full_disk_read :: bool
  sig_full_disk_write :: bool
  sig_platform_defaults :: bool
  sig_readable_roots :: "path list"
  sig_writable_roots :: "WritableRoot list"
  sig_unreadable_roots :: "path list"
  sig_unreadable_globs :: "ustring list"

definition semantic_signature :: "sandbox_host \<Rightarrow> FileSystemSandboxPolicy \<Rightarrow> ustring \<Rightarrow> FileSystemSemanticSignature" where
  "semantic_signature h p cwd =
     \<lparr>sig_full_disk_read = has_full_disk_read_access p,
      sig_full_disk_write = has_full_disk_write_access p,
      sig_platform_defaults = include_platform_defaults p,
      sig_readable_roots = sorted_absolute_paths (get_readable_roots_with_cwd h p cwd),
      sig_writable_roots = sorted_writable_roots (get_writable_roots_with_cwd h p cwd),
      sig_unreadable_roots = sorted_absolute_paths (get_unreadable_roots_with_cwd h p cwd),
      sig_unreadable_globs = get_unreadable_globs_with_cwd h p cwd\<rparr>"

definition is_semantically_equivalent_to ::
    "sandbox_host \<Rightarrow> FileSystemSandboxPolicy \<Rightarrow> FileSystemSandboxPolicy \<Rightarrow> ustring \<Rightarrow> bool" where
  "is_semantically_equivalent_to h p other cwd \<longleftrightarrow> semantic_signature h p cwd = semantic_signature h other cwd"

definition protected_metadata_names_need_direct_runtime_enforcement ::
    "sandbox_host \<Rightarrow> FileSystemSandboxPolicy \<Rightarrow> SandboxPolicy \<Rightarrow> ustring \<Rightarrow> bool" where
  "protected_metadata_names_need_direct_runtime_enforcement h p legacy_policy cwd =
     (let legacy_roots = sandbox_policy_writable_roots h legacy_policy cwd
      in list_ex (\<lambda>w.
           case List.find (\<lambda>candidate. root candidate = root w) legacy_roots of
             None \<Rightarrow> protected_metadata_names w \<noteq> []
           | Some legacy_root \<Rightarrow>
               list_ex (\<lambda>name. \<not> list_ex (\<lambda>sub. sub = abs_join (host h) (root w) name) (read_only_subpaths legacy_root))
                 (protected_metadata_names w)) (get_writable_roots_with_cwd h p cwd))"

definition needs_direct_runtime_enforcement ::
    "sandbox_host \<Rightarrow> FileSystemSandboxPolicy \<Rightarrow> NetworkSandboxPolicy \<Rightarrow> ustring \<Rightarrow> bool" where
  "needs_direct_runtime_enforcement h p network_policy cwd =
     (if sandbox_kind p \<noteq> Restricted then False
      else (case to_legacy_sandbox_policy h p network_policy cwd of
              Err _ \<Rightarrow> True
            | Ok legacy_policy \<Rightarrow>
                if protected_metadata_names_need_direct_runtime_enforcement h p legacy_policy cwd then True
                else semantic_signature h p cwd
                     \<noteq> semantic_signature h (legacy_runtime_file_system_policy_for_cwd h legacy_policy cwd) cwd))"

section \<open>Denied reads\<close>

text \<open>A compiled glob is a predicate on paths; \<open>build_glob_matcher\<close> is the compiler, or an error message.\<close>

type_synonym glob_compiler = "ustring \<Rightarrow> (path \<Rightarrow> bool, ustring) result"

datatype InvalidDenyReadGlobBehavior = FailClosed | ReturnError

record ReadDenyMatcher =
  denied_candidates :: "path list list"
  deny_read_matchers :: "(path \<Rightarrow> bool) list"
  invalid_pattern :: bool

definition push_unique :: "path list \<Rightarrow> path \<Rightarrow> path list" where
  "push_unique candidates candidate = (if candidate \<in> set candidates then candidates else candidates @ [candidate])"

definition normalized_and_canonical_candidates :: "sandbox_host \<Rightarrow> ustring \<Rightarrow> path list" where
  "normalized_and_canonical_candidates h p =
     (let candidates = push_unique []
            (case from_absolute_path (host h) p of Ok normalized \<Rightarrow> normalized | Err _ \<Rightarrow> path_components p)
      in case canonical_path h p of
           Ok canonical \<Rightarrow>
             (case from_absolute_path (host h) (render_path canonical) of
                Ok canonical_absolute \<Rightarrow> push_unique candidates canonical_absolute | Err _ \<Rightarrow> candidates)
         | Err _ \<Rightarrow> candidates)"

fun compile_globs ::
    "glob_compiler \<Rightarrow> InvalidDenyReadGlobBehavior \<Rightarrow> ustring list \<Rightarrow> (path \<Rightarrow> bool) list \<Rightarrow> bool
     \<Rightarrow> ((path \<Rightarrow> bool) list \<times> bool, ustring) result" where
  "compile_globs build_glob_matcher behavior [] matchers invalid = Ok (matchers, invalid)"
| "compile_globs build_glob_matcher behavior (pattern # rest) matchers invalid =
     (case build_glob_matcher pattern of
        Ok matcher \<Rightarrow> compile_globs build_glob_matcher behavior rest (matchers @ [matcher]) invalid
      | Err err \<Rightarrow>
          (case behavior of
             FailClosed \<Rightarrow> compile_globs build_glob_matcher behavior rest matchers True
           | ReturnError \<Rightarrow> Err (str ''invalid deny-read glob pattern `'' @ pattern @ str ''`: '' @ err)))"

definition build_matcher ::
    "sandbox_host \<Rightarrow> glob_compiler \<Rightarrow> FileSystemSandboxPolicy \<Rightarrow> ustring \<Rightarrow> InvalidDenyReadGlobBehavior
     \<Rightarrow> (ReadDenyMatcher option, ustring) result" where
  "build_matcher h build_glob_matcher p cwd behavior =
     (if \<not> has_denied_read_restrictions p then Ok None
      else
        result_bind (compile_globs build_glob_matcher behavior (get_unreadable_globs_with_cwd h p cwd) [] False)
          (\<lambda>(matchers, invalid).
             Ok (Some \<lparr>denied_candidates =
                         map (\<lambda>q. normalized_and_canonical_candidates h (render_path q)) (get_unreadable_roots_with_cwd h p cwd),
                       deny_read_matchers = matchers, invalid_pattern = invalid\<rparr>)))"

text \<open>\<open>ReadDenyMatcher::new\<close> panics on an error; the panic is the outer \<open>None\<close>.\<close>

definition new_matcher ::
    "sandbox_host \<Rightarrow> glob_compiler \<Rightarrow> FileSystemSandboxPolicy \<Rightarrow> ustring \<Rightarrow> ReadDenyMatcher option option" where
  "new_matcher h build_glob_matcher p cwd =
     (case build_matcher h build_glob_matcher p cwd FailClosed of Ok m \<Rightarrow> Some m | Err _ \<Rightarrow> None)"

definition try_new_matcher ::
    "sandbox_host \<Rightarrow> glob_compiler \<Rightarrow> FileSystemSandboxPolicy \<Rightarrow> ustring \<Rightarrow> (ReadDenyMatcher option, ustring) result" where
  "try_new_matcher h build_glob_matcher p cwd = build_matcher h build_glob_matcher p cwd ReturnError"

definition is_read_denied :: "sandbox_host \<Rightarrow> ReadDenyMatcher \<Rightarrow> ustring \<Rightarrow> bool" where
  "is_read_denied h m p =
     (if invalid_pattern m then True
      else
        (let path_candidates = normalized_and_canonical_candidates h p
         in if list_ex (\<lambda>denied. list_ex (\<lambda>candidate.
                 list_ex (\<lambda>denied_candidate. candidate = denied_candidate \<or> prefix denied_candidate candidate) denied)
                 path_candidates) (denied_candidates m)
            then True
            else list_ex (\<lambda>matcher. list_ex matcher path_candidates) (deny_read_matchers m)))"

section \<open>Permission profiles\<close>

datatype ManagedFileSystemPermissions =
    ManagedRestricted "FileSystemSandboxEntry list" "nat option"
  | ManagedUnrestricted

datatype PermissionProfile =
    Managed ManagedFileSystemPermissions NetworkSandboxPolicy
  | Disabled
  | External NetworkSandboxPolicy

datatype SandboxEnforcement = EnforcementManaged | EnforcementDisabled | EnforcementExternal

text \<open>\<open>NonZeroUsize::new\<close> drops a depth of zero; an external policy has no managed form, which is a panic.\<close>

definition managed_from_sandbox_policy :: "FileSystemSandboxPolicy \<Rightarrow> ManagedFileSystemPermissions option" where
  "managed_from_sandbox_policy p =
     (case sandbox_kind p of
        Restricted \<Rightarrow>
          Some (ManagedRestricted (sandbox_entries p)
            (Option.bind (glob_scan_max_depth p) (\<lambda>d. if d = 0 then None else Some d)))
      | Unrestricted \<Rightarrow> Some ManagedUnrestricted
      | ExternalSandbox \<Rightarrow> None)"

fun to_sandbox_policy :: "ManagedFileSystemPermissions \<Rightarrow> FileSystemSandboxPolicy" where
  "to_sandbox_policy (ManagedRestricted entries depth) =
     \<lparr>sandbox_kind = Restricted, glob_scan_max_depth = depth, sandbox_entries = entries\<rparr>"
| "to_sandbox_policy ManagedUnrestricted = unrestricted"

fun file_system_sandbox_policy :: "PermissionProfile \<Rightarrow> FileSystemSandboxPolicy" where
  "file_system_sandbox_policy (Managed file_system _) = to_sandbox_policy file_system"
| "file_system_sandbox_policy Disabled = unrestricted"
| "file_system_sandbox_policy (External _) = external_sandbox"

fun network_sandbox_policy :: "PermissionProfile \<Rightarrow> NetworkSandboxPolicy" where
  "network_sandbox_policy (Managed _ network) = network"
| "network_sandbox_policy (External network) = network"
| "network_sandbox_policy Disabled = NetworkEnabled"

fun enforcement :: "PermissionProfile \<Rightarrow> SandboxEnforcement" where
  "enforcement (Managed _ _) = EnforcementManaged"
| "enforcement Disabled = EnforcementDisabled"
| "enforcement (External _) = EnforcementExternal"

definition from_runtime_permissions_with_enforcement ::
    "SandboxEnforcement \<Rightarrow> FileSystemSandboxPolicy \<Rightarrow> NetworkSandboxPolicy \<Rightarrow> PermissionProfile option" where
  "from_runtime_permissions_with_enforcement enf p network =
     (case sandbox_kind p of
        ExternalSandbox \<Rightarrow> Some (External network)
      | _ \<Rightarrow>
          if sandbox_kind p = Unrestricted \<and> enf = EnforcementDisabled then Some Disabled
          else map_option (\<lambda>m. Managed m network) (managed_from_sandbox_policy p))"

definition from_runtime_permissions ::
    "FileSystemSandboxPolicy \<Rightarrow> NetworkSandboxPolicy \<Rightarrow> PermissionProfile option" where
  "from_runtime_permissions p network =
     from_runtime_permissions_with_enforcement
       (if sandbox_kind p = ExternalSandbox then EnforcementExternal else EnforcementManaged) p network"

definition restrict_to_read :: "FileSystemSandboxEntry \<Rightarrow> FileSystemSandboxEntry" where
  "restrict_to_read e = e\<lparr>access := (case access e of Deny \<Rightarrow> Deny | _ \<Rightarrow> Read)\<rparr>"

text \<open>The outer \<open>None\<close> is a panic, the inner one the result.\<close>

definition intersect_with_read_only :: "PermissionProfile \<Rightarrow> PermissionProfile option option" where
  "intersect_with_read_only profile =
     (let p = file_system_sandbox_policy profile
      in case sandbox_kind p of
           Restricted \<Rightarrow>
             map_option Some
               (from_runtime_permissions (p\<lparr>sandbox_entries := map restrict_to_read (sandbox_entries p)\<rparr>) NetworkRestricted)
         | Unrestricted \<Rightarrow> map_option Some (from_runtime_permissions read_only NetworkRestricted)
         | ExternalSandbox \<Rightarrow> Some None)"

definition enforcement_from_legacy_sandbox_policy :: "SandboxPolicy \<Rightarrow> SandboxEnforcement" where
  "enforcement_from_legacy_sandbox_policy p =
     (case p of
        DangerFullAccess \<Rightarrow> EnforcementDisabled
      | ExternalSandboxPolicy _ \<Rightarrow> EnforcementExternal
      | _ \<Rightarrow> EnforcementManaged)"

definition profile_from_legacy_sandbox_policy :: "sandbox_host \<Rightarrow> SandboxPolicy \<Rightarrow> PermissionProfile option" where
  "profile_from_legacy_sandbox_policy h p =
     from_runtime_permissions_with_enforcement (enforcement_from_legacy_sandbox_policy p)
       (from_sandbox_policy h p) (network_of_sandbox_policy p)"

definition profile_to_legacy_sandbox_policy ::
    "sandbox_host \<Rightarrow> PermissionProfile \<Rightarrow> ustring \<Rightarrow> (SandboxPolicy, io_error) result" where
  "profile_to_legacy_sandbox_policy h profile cwd =
     (case profile of
        Managed file_system network \<Rightarrow> to_legacy_sandbox_policy h (to_sandbox_policy file_system) network cwd
      | Disabled \<Rightarrow> Ok DangerFullAccess
      | External network \<Rightarrow>
          Ok (ExternalSandboxPolicy (if is_enabled network then NetworkAccessEnabled else NetworkAccessRestricted)))"

section \<open>Approval modes\<close>

record GranularApprovalConfig =
  sandbox_approval :: bool
  rules_approval :: bool
  skill_approval :: bool
  request_permissions :: bool
  mcp_elicitations :: bool

datatype AskForApproval = UnlessTrusted | OnRequest | Granular GranularApprovalConfig | Never

section \<open>The workspace policy\<close>

definition extends_reads :: "FileSystemSandboxEntry list \<Rightarrow> FileSystemSandboxEntry list \<Rightarrow> bool" where
  "extends_reads es es' \<longleftrightarrow> (\<exists>ds. es' = es @ ds \<and> (\<forall>d \<in> set ds. access d = Read))"

lemma extends_reads_refl [simp]: "extends_reads es es"
  by (simp add: extends_reads_def)

lemma extends_reads_trans: "extends_reads a b \<Longrightarrow> extends_reads b c \<Longrightarrow> extends_reads a c"
  by (auto simp: extends_reads_def)

lemma extends_reads_fold: "(\<And>x es. extends_reads es (f x es)) \<Longrightarrow> extends_reads es (fold f xs es)"
  by (induction xs arbitrary: es) (auto intro: extends_reads_trans)

lemma extends_reads_append [simp]: "extends_reads es (append_default_read_only_entry_if_no_explicit_rule p es)"
  by (simp add: append_default_read_only_entry_if_no_explicit_rule_def extends_reads_def skip_missing_path_def)

lemma workspace_write_extends:
  "extends_reads (workspace_entries roots no_tmpdir no_slash_tmp) (sandbox_entries (workspace_write h roots no_tmpdir no_slash_tmp))"
  unfolding workspace_write_def restricted_def FileSystemSandboxPolicy.simps
  by (rule extends_reads_trans; rule extends_reads_fold)
    (auto simp: append_default_read_only_project_root_subpath_if_no_explicit_rule_def protect_root_def
      append_default_read_only_path_if_no_explicit_rule_def intro: extends_reads_fold)

lemma workspace_write_kind [simp]:
  "sandbox_kind (workspace_write h roots a b) = Restricted" "glob_scan_max_depth (workspace_write h roots a b) = None"
  by (simp_all add: workspace_write_def restricted_def)

lemma workspace_not_full: "\<not> has_full_disk_write_access (workspace_write h roots a b)"
  using workspace_write_extends [of roots a b h]
  by (auto simp: has_full_disk_write_access_def has_root_access_def extends_reads_def workspace_entries_def new_entry_def
      list_ex_iff can_write_def split: if_splits)

lemma slash_tmp_from_text: "from_absolute_path env (str ''/tmp'') = Ok SLASH_TMP"
proof -
  have "abs_path SLASH_TMP" "render_path SLASH_TMP = str ''/tmp''" by code_simp+
  then show ?thesis using from_absolute_path_render [of SLASH_TMP env] by simp
qed

lemma workspace_resolved:
  assumes "from_absolute_path (host h) cwd = Ok c" "abs_path c"
  shows "\<exists>ws rs. resolved_entries_with_cwd h (workspace_write h roots no_tmpdir no_slash_tmp) cwd =
      \<lparr>resolved_path = [RootDir], resolved_access = Read\<rparr> # \<lparr>resolved_path = c, resolved_access = Write\<rparr> # ws @ rs
    \<and> (\<forall>e \<in> set ws. resolved_path e \<in> set (sandbox_policy_roots h (WorkspaceWrite roots net no_tmpdir no_slash_tmp) cwd))
    \<and> (\<forall>e \<in> set rs. resolved_access e = Read)"
proof -
  let ?r = "\<lambda>e. map_option (\<lambda>q. \<lparr>resolved_path = q, resolved_access = access e\<rparr>) (resolve_entry_path h (entry_path e) (Some c))"
  obtain ds where ds: "sandbox_entries (workspace_write h roots no_tmpdir no_slash_tmp) = workspace_entries roots no_tmpdir no_slash_tmp @ ds"
    "\<forall>d \<in> set ds. access d = Read" using workspace_write_extends [of roots no_tmpdir no_slash_tmp h] by (auto simp: extends_reads_def)
  let ?ws = "List.map_filter ?r (drop 2 (workspace_entries roots no_tmpdir no_slash_tmp))"
  have split: "List.map_filter f (xs @ ys) = List.map_filter f xs @ List.map_filter f ys"
    for f :: "FileSystemSandboxEntry \<Rightarrow> ResolvedFileSystemEntry option" and xs ys by (simp add: List.map_filter_def)
  have first: "workspace_entries roots no_tmpdir no_slash_tmp =
      [new_entry (Special SpecialRoot) Read, new_entry (Special (ProjectRoots None)) Write]
      @ drop 2 (workspace_entries roots no_tmpdir no_slash_tmp)" by (simp add: workspace_entries_def)
  have "?r (new_entry (Special SpecialRoot) Read) = Some \<lparr>resolved_path = [RootDir], resolved_access = Read\<rparr>"
    "?r (new_entry (Special (ProjectRoots None)) Write) = Some \<lparr>resolved_path = c, resolved_access = Write\<rparr>"
    using root_of_abs [OF assms(2)]
    by (simp_all add: new_entry_def resolve_entry_path_def resolve_file_system_path_def resolve_file_system_special_path_def)
  then have "resolved_entries_with_cwd h (workspace_write h roots no_tmpdir no_slash_tmp) cwd =
      \<lparr>resolved_path = [RootDir], resolved_access = Read\<rparr> # \<lparr>resolved_path = c, resolved_access = Write\<rparr> # ?ws @ List.map_filter ?r ds"
    unfolding resolved_entries_with_cwd_def Let_def assms(1) ds(1)
    by (subst first) (simp add: split map_filter_simps)
  moreover have "resolved_path e \<in> set (sandbox_policy_roots h (WorkspaceWrite roots net no_tmpdir no_slash_tmp) cwd)"
    if e: "e \<in> set ?ws" for e
  proof -
    obtain x where x: "x \<in> set (drop 2 (workspace_entries roots no_tmpdir no_slash_tmp))" "?r x = Some e"
      using e unfolding map_filter_in by blast
    then have path: "resolve_entry_path h (entry_path x) (Some c) = Some (resolved_path e)" by auto
    consider "\<not> no_slash_tmp" "entry_path x = Special SlashTmp" | "\<not> no_tmpdir" "entry_path x = Special Tmpdir"
      | q where "q \<in> set roots" "entry_path x = PathEntry q"
      using x(1) by (auto simp: workspace_entries_def new_entry_def split: if_splits)
    then show ?thesis
    proof cases
      case 1
      then show ?thesis
        using path by (simp add: sandbox_policy_roots_def slash_tmp_from_text resolve_entry_path_def resolve_file_system_path_def
            resolve_file_system_special_path_def split: if_splits)
    next
      case 2
      then obtain v where "tmpdir_var h = Some v" "v \<noteq> []" "result_ok (from_absolute_path (host h) v) = Some (resolved_path e)"
        using path by (simp add: resolve_entry_path_def resolve_file_system_path_def resolve_file_system_special_path_def
            split: if_splits option.splits)
      then show ?thesis
        using 2(1) by (cases "from_absolute_path (host h) v") (simp_all add: sandbox_policy_roots_def)
    next
      case 3
      then show ?thesis
        using path by (simp add: sandbox_policy_roots_def resolve_entry_path_def resolve_file_system_path_def)
    qed
  qed
  moreover have "\<forall>e \<in> set (List.map_filter ?r ds). resolved_access e = Read"
    using ds(2) by (auto simp: map_filter_in)
  ultimately show ?thesis by blast
qed

text \<open>
  C5: Under the workspace policy an agent writes only below the working directory, the listed roots, and
  the temporary directories that are not excluded, which are the roots of the older sandbox policy. Below
  a metadata directory of the working directory it writes only where another of these roots lies inside
  that directory.
\<close>

theorem workspace_write_confined:
  assumes "host_ok (host h)" "list_all abs_path roots" "from_absolute_path (host h) cwd = Ok c"
    "resolve_candidate_path h s cwd = Some t"
    "can_write_path_with_cwd h (workspace_write h roots no_tmpdir no_slash_tmp) s cwd"
  shows "\<exists>r \<in> set (sandbox_policy_roots h (WorkspaceWrite roots net no_tmpdir no_slash_tmp) cwd).
    prefix r t \<and> (\<forall>n \<in> set PROTECTED_METADATA_PATH_NAMES. prefix (c @ [Normal n]) t \<longrightarrow> prefix (c @ [Normal n]) r)"
proof -
  let ?p = "workspace_write h roots no_tmpdir no_slash_tmp" and ?W = "set (sandbox_policy_roots h (WorkspaceWrite roots net no_tmpdir no_slash_tmp) cwd)"
  let ?es = "resolved_entries_with_cwd h ?p cwd"
  let ?root = "\<lparr>resolved_path = [RootDir], resolved_access = Read\<rparr>" and ?c = "\<lparr>resolved_path = c, resolved_access = Write\<rparr>"
  have c: "abs_path c" "c \<in> ?W"
    using from_absolute_path_abs [OF assms(1,3)] assms(3) by (simp_all add: sandbox_policy_roots_def)
  obtain ws rs where es: "?es = ?root # ?c # ws @ rs" "\<forall>e \<in> set ws. resolved_path e \<in> ?W" "\<forall>e \<in> set rs. resolved_access e = Read"
    using workspace_resolved [OF assms(3) c(1), of roots no_tmpdir no_slash_tmp net] by blast
  have writes: "resolved_path e \<in> ?W" if "e \<in> set ?es" "can_write (resolved_access e)" for e
    using that es c(2) by (auto simp: can_write_def)
  have t: "abs_path t" using candidate_abs [OF assms(1,4)] .
  have allowed: "entries_access ?es t = Write" "\<not> entries_deny_metadata h ?es t"
    using assms(5) workspace_not_full [of h roots no_tmpdir no_slash_tmp] by (simp_all add: can_write_at [OF assms(4)])
  show ?thesis
  proof (cases "\<exists>n \<in> set PROTECTED_METADATA_PATH_NAMES. prefix (c @ [Normal n]) t")
    case True
    then obtain n where n: "n \<in> set PROTECTED_METADATA_PATH_NAMES" "prefix (c @ [Normal n]) t" by blast
    have same: "m = n" if "prefix (c @ [Normal m]) t" for m
      using prefixes_same_length [OF that n(2)] by simp
    have "metadata_child h t ?root = None" by (simp add: metadata_child_def can_write_def)
    moreover have "metadata_child h t ?c = Some (c @ [Normal n], n)"
      using metadata_child_Some [OF t, of ?c] c(1) n by (simp add: can_write_def)
    ultimately have "find_map (metadata_child h t) ?es = Some (c @ [Normal n], n)" by (simp add: es(1))
    then obtain e where "e \<in> set ?es" "can_write (resolved_access e)" "prefix (resolved_path e) t" "prefix (c @ [Normal n]) (resolved_path e)"
      using allowed(2) by (auto simp: entries_deny_metadata_def list_ex_iff)
    then show ?thesis using writes same by blast
  next
    case False
    obtain e where "e \<in> set ?es" "prefix (resolved_path e) t" "resolved_access e = Write"
      using access_in_entries [of ?es t] allowed(1) by auto
    then show ?thesis using writes False by (auto simp: can_write_def)
  qed
qed

section \<open>Round trip through the older policy\<close>

lemma scan_reads: "\<forall>d \<in> set ds. access d = Read \<Longrightarrow> foldl (scan_entry h c) st ds = st"
  by (induction ds arbitrary: st)
    (auto simp: scan_entry_def can_write_def split: FileSystemPath.splits FileSystemSpecialPath.splits option.splits)

lemma scan_roots:
  "c \<notin> Some ` set roots \<Longrightarrow>
   foldl (scan_entry h c) st (map (\<lambda>p. new_entry (PathEntry p) Write) roots) = st\<lparr>writable_roots := writable_roots st @ roots\<rparr>"
  by (induction roots arbitrary: st) (auto simp: scan_entry_def new_entry_def can_write_def)

lemma scan_workspace:
  assumes "c \<notin> Some ` set roots"
  shows "foldl (scan_entry h c)
      \<lparr>workspace_root_writable = False, writable_roots = [], tmpdir_writable = False,
       slash_tmp_writable = False, unbridgeable_root_write = False\<rparr>
      (sandbox_entries (workspace_write h roots no_tmpdir no_slash_tmp)) =
    \<lparr>workspace_root_writable = True, writable_roots = roots, tmpdir_writable = \<not> no_tmpdir,
     slash_tmp_writable = \<not> no_slash_tmp, unbridgeable_root_write = False\<rparr>"
proof -
  obtain ds where "sandbox_entries (workspace_write h roots no_tmpdir no_slash_tmp) = workspace_entries roots no_tmpdir no_slash_tmp @ ds"
    "\<forall>d \<in> set ds. access d = Read" using workspace_write_extends [of roots no_tmpdir no_slash_tmp h] by (auto simp: extends_reads_def)
  then show ?thesis
    using scan_roots [OF assms] by (simp add: scan_reads workspace_entries_def scan_entry_def new_entry_def can_write_def)
qed


section \<open>Restricting a profile to reading\<close>

definition demote :: "FileSystemAccessMode \<Rightarrow> FileSystemAccessMode" where
  "demote a = (case a of Deny \<Rightarrow> Deny | _ \<Rightarrow> Read)"

lemma keys_at_demoted:
  "keys_at (map (\<lambda>e. e\<lparr>resolved_access := demote (resolved_access e)\<rparr>) es) t = apsnd demote ` keys_at es t"
proof -
  let ?f = "\<lambda>e. e\<lparr>resolved_access := demote (resolved_access e)\<rparr>"
  have "{e \<in> set (map ?f es). prefix (resolved_path e) t} = ?f ` {e \<in> set es. prefix (resolved_path e) t}" by auto
  then show ?thesis by (simp add: keys_at_def image_image resolved_entry_precedence_def)
qed

lemma mono_demote: "mono (apsnd demote :: nat \<times> FileSystemAccessMode \<Rightarrow> _)"
proof
  fix a b :: "nat \<times> FileSystemAccessMode"
  assume "a \<le> b"
  then show "apsnd demote a \<le> apsnd demote b"
    by (cases a; cases b; cases "snd a"; cases "snd b") (auto simp: less_eq_prod_def demote_def access_order)
qed

lemma access_demoted:
  "entries_access (map (\<lambda>e. e\<lparr>resolved_access := demote (resolved_access e)\<rparr>) es) t = demote (entries_access es t)"
proof (cases "keys_at es t = {}")
  case False
  from mono_Max_commute [OF mono_demote finite_keys_at False] show ?thesis
    using False by (simp add: entries_access_Max keys_at_demoted flip: apsnd_conv) (metis snd_apsnd)
qed (simp add: entries_access_Max keys_at_demoted demote_def [of Deny])

lemma resolved_demoted:
  "resolved_entries_with_cwd h (p\<lparr>sandbox_entries := map restrict_to_read (sandbox_entries p)\<rparr>) cwd =
   map (\<lambda>e. e\<lparr>resolved_access := demote (resolved_access e)\<rparr>) (resolved_entries_with_cwd h p cwd)"
  by (auto simp: resolved_entries_with_cwd_def Let_def List.map_filter_def restrict_to_read_def demote_def filter_map o_def)

lemma resolved_depth [simp]: "resolved_entries_with_cwd h (p\<lparr>glob_scan_max_depth := d\<rparr>) cwd = resolved_entries_with_cwd h p cwd"
  by (simp add: resolved_entries_with_cwd_def)

lemma read_only_everywhere:
  assumes "host_ok (host h)" "from_absolute_path (host h) cwd = Ok c" "abs_path t"
  shows "entries_access (resolved_entries_with_cwd h read_only cwd) t = Read"
proof -
  have "resolved_entries_with_cwd h read_only cwd = [\<lparr>resolved_path = [RootDir], resolved_access = Read\<rparr>]"
    using assms(2) root_of_abs [OF from_absolute_path_abs [OF assms(1,2)]]
    by (simp add: resolved_entries_with_cwd_def read_only_def read_only_file_system_entries_def restricted_def new_entry_def
        map_filter_simps resolve_entry_path_def)
  then show ?thesis using root_prefix [OF assms(3)] by (simp add: entries_access_def max_by_key_def)
qed

text \<open>
  C39: Restricting a permission profile to reading never panics, and only a profile whose sandbox is
  managed outside has no restriction. The restricted profile lets an agent read exactly what the original
  profile lets it read, lets it write nothing, and closes the network.
\<close>

theorem read_only_intersection:
  assumes "host_ok (host h)" "from_absolute_path (host h) cwd = Ok c"
  shows "\<exists>r. intersect_with_read_only profile = Some r
    \<and> (r = None \<longleftrightarrow> (\<exists>network. profile = External network))
    \<and> (\<forall>q s t. r = Some q \<longrightarrow> resolve_candidate_path h s cwd = Some t \<longrightarrow>
         network_sandbox_policy q = NetworkRestricted
         \<and> can_read_path_with_cwd h (file_system_sandbox_policy q) s cwd =
             can_read_path_with_cwd h (file_system_sandbox_policy profile) s cwd
         \<and> \<not> can_write_path_with_cwd h (file_system_sandbox_policy q) s cwd)"
proof -
  have full: "file_system_sandbox_policy profile = unrestricted \<Longrightarrow> ?thesis"
  proof -
    assume unrestricted: "file_system_sandbox_policy profile = unrestricted"
    have ro: "to_sandbox_policy (ManagedRestricted (sandbox_entries read_only) None) = read_only" "sandbox_kind read_only = Restricted"
      "glob_scan_max_depth read_only = None" by (simp_all add: read_only_def restricted_def)
    then have "intersect_with_read_only profile = Some (Some (Managed (ManagedRestricted (sandbox_entries read_only) None) NetworkRestricted))"
      using unrestricted by (simp add: intersect_with_read_only_def unrestricted_def from_runtime_permissions_def
          from_runtime_permissions_with_enforcement_def managed_from_sandbox_policy_def)
    moreover have "profile \<noteq> External network" for network using unrestricted by (auto simp: unrestricted_def external_sandbox_def)
    moreover have "can_read_path_with_cwd h unrestricted s cwd" "can_read_path_with_cwd h read_only s cwd" "\<not> can_write_path_with_cwd h read_only s cwd"
      if "resolve_candidate_path h s cwd = Some t" for s t
      using read_only_everywhere [OF assms candidate_abs [OF assms(1) that]] ro(2)
      by (simp_all add: can_read_at [OF that] can_write_at [OF that] unrestricted_def)
    ultimately show ?thesis using unrestricted ro(1) by (auto simp del: to_sandbox_policy.simps)
  qed
  show ?thesis
  proof (cases profile)
    case (Managed fs network)
    show ?thesis
    proof (cases fs)
      case (ManagedRestricted es d)
      let ?p = "\<lparr>sandbox_kind = Restricted, glob_scan_max_depth = d, sandbox_entries = es\<rparr>"
      let ?d = "Option.bind d (\<lambda>d. if d = 0 then None else Some d)"
      let ?q = "\<lparr>sandbox_kind = Restricted, glob_scan_max_depth = ?d, sandbox_entries = map restrict_to_read es\<rparr>"
      have "intersect_with_read_only profile = Some (Some (Managed (ManagedRestricted (map restrict_to_read es) ?d) NetworkRestricted))"
        using Managed ManagedRestricted by (simp add: intersect_with_read_only_def from_runtime_permissions_def
            from_runtime_permissions_with_enforcement_def managed_from_sandbox_policy_def)
      moreover have es: "resolved_entries_with_cwd h ?q cwd =
          map (\<lambda>e. e\<lparr>resolved_access := demote (resolved_access e)\<rparr>) (resolved_entries_with_cwd h ?p cwd)"
        using resolved_demoted [of h ?p cwd] by (simp add: resolved_entries_with_cwd_def)
      moreover have "(demote a \<noteq> Deny) = (a \<noteq> Deny)" "demote a \<noteq> Write" for a by (cases a; simp add: demote_def)+
      ultimately show ?thesis
        using Managed ManagedRestricted by (auto simp: can_read_at can_write_at access_demoted)
    qed (use full Managed in simp)
  qed (use full in \<open>simp_all add: intersect_with_read_only_def external_sandbox_def\<close>)
qed

section \<open>The matcher for denied reads\<close>

lemma compile_globs_closed:
  "\<exists>ms b. compile_globs build FailClosed pats matchers invalid = Ok (ms, b) \<and> set matchers \<subseteq> set ms
     \<and> (\<forall>pat \<in> set pats. case build pat of Ok m \<Rightarrow> m \<in> set ms | Err _ \<Rightarrow> b)
     \<and> (invalid \<longrightarrow> b)"
proof (induction pats arbitrary: matchers invalid)
  case (Cons pat pats)
  show ?case
  proof (cases "build pat")
    case (Inl e)
    then show ?thesis using Cons [of matchers True] by fastforce
  next
    case (Inr m)
    then show ?thesis using Cons [of "matchers @ [m]" invalid] by fastforce
  qed
qed simp

lemma own_candidate: "abs_path t \<Longrightarrow> t \<in> set (normalized_and_canonical_candidates h (render_path t))"
  by (auto simp: normalized_and_canonical_candidates_def push_unique_def from_absolute_path_render Let_def split: sum.splits)

lemma denied_by_root:
  assumes "ds \<in> set (denied_candidates m)" "q \<in> set ds" "prefix q t" "abs_path t"
  shows "is_read_denied h m (render_path t)"
  using assms own_candidate [OF assms(4), of h] unfolding is_read_denied_def Let_def list_ex_iff by (simp split: if_split) blast

lemma denied_by_glob:
  assumes "glob \<in> set (deny_read_matchers m)" "glob t" "abs_path t"
  shows "is_read_denied h m (render_path t)"
  using assms own_candidate [OF assms(3), of h] unfolding is_read_denied_def Let_def list_ex_iff by (simp split: if_split) blast

lemma denied_root_listed:
  assumes "host_ok (host h)" "policy_ok p" "no_symlinks h" "sandbox_kind p = Restricted"
    "d \<in> set (resolved_entries_with_cwd h p cwd)" "resolved_access d = Deny" "resolved_path d \<noteq> [RootDir]"
  shows "resolved_path d \<in> set (get_unreadable_roots_with_cwd h p cwd)"
proof -
  let ?es = "resolved_entries_with_cwd h p cwd"
  have abs: "abs_path (resolved_path e)" if "e \<in> set ?es" for e using resolved_abs [OF assms(1,2) that] .
  obtain e where "e \<in> set ?es" and e: "prefix (resolved_path e) (resolved_path d)" "entries_access ?es (resolved_path d) = resolved_access e"
    "length (resolved_path d) < length (resolved_path e) \<or> resolved_access d \<le> resolved_access e"
    using access_decided [OF assms(5) prefix_order.refl] assms(5) by blast
  then have "Deny \<le> resolved_access e" using prefix_length_le [OF e(1)] assms(6) by simp
  then have "entries_access ?es (resolved_path d) = Deny" using e(2) by (cases "resolved_access e") (simp_all add: access_order)
  then have unreadable: "\<not> can_read_path_with_cwd h p (render_path (resolved_path d)) cwd"
    using assms(4) by (simp add: can_read_at [OF candidate_render [OF abs [OF assms(5)]]])
  have root: "Option.bind (result_ok (from_absolute_path (host h) cwd)) (absolute_root_path_for_cwd h) \<in> {None, Some [RootDir]}"
    using cwd_abs [OF assms(1), of cwd] root_of_abs by fastforce
  have "list_all abs_path (map resolved_path (filter P ?es))" for P using abs by (auto simp: list_all_iff)
  from dedup_set_effective [OF assms(3) this] show ?thesis
    using unreadable root assms(4-7) by (auto simp: get_unreadable_roots_with_cwd_def Let_def)
qed


section \<open>Instances\<close>

theorem workspace_write_confined_witness:
  "prefix (path_components (str ''/work/repo'')) (path_components (str ''/work/repo/a''))
   \<and> (\<exists>r \<in> set (sandbox_policy_roots sample_host (WorkspaceWrite [] False True True) (str ''/work/repo'')).
        prefix r (path_components (str ''/work/repo/a'')))"
proof -
  have "list_all abs_path []" "from_absolute_path (host sample_host) (str ''/work/repo'') = Ok (path_components (str ''/work/repo''))"
    "resolve_candidate_path sample_host (str ''a'') (str ''/work/repo'') = Some (path_components (str ''/work/repo/a''))"
    "can_write_path_with_cwd sample_host (workspace_write sample_host [] True True) (str ''a'') (str ''/work/repo'')"
    "prefix (path_components (str ''/work/repo'')) (path_components (str ''/work/repo/a''))" by code_simp+
  with workspace_write_confined [OF sample_host_plain(2) this(1-4), of False] show ?thesis by blast
qed


theorem read_only_intersection_witness:
  "\<exists>q. intersect_with_read_only (Managed (ManagedRestricted (sandbox_entries sample_policy) None) NetworkEnabled) = Some (Some q)
     \<and> \<not> can_write_path_with_cwd sample_host (file_system_sandbox_policy q) (str ''a'') (str ''/work/repo'')"
proof -
  have "from_absolute_path (host sample_host) (str ''/work/repo'') = Ok (path_components (str ''/work/repo''))"
    "resolve_candidate_path sample_host (str ''a'') (str ''/work/repo'') = Some (path_components (str ''/work/repo/a''))" by code_simp+
  with read_only_intersection [OF sample_host_plain(2) this(1),
      of "Managed (ManagedRestricted (sandbox_entries sample_policy) None) NetworkEnabled"]
  show ?thesis by auto
qed


end
