(* ===== verification/Spec2Isabelle.thy ===== *)
theory Spec2Isabelle
  imports Patch_Progress Patch_Invocation Exec_Parser Exec_Amend Head_Tail Text_Truncate Assistant_Text Command_Safety Sandbox_Profile
begin

text \<open>
  Verification of the core of codex-rs (the Rust runtime of WeaveCodex).
\<close>

end
